(* ===== verification/Prelude.thy ===== *)
theory Prelude
  imports Main "HOL-Library.Word" "HOL-Library.List_Lexorder" "HOL-Library.Multiset"
begin

section \<open>Shared types, byte codecs and ordered maps\<close>

text \<open>
  What every component of the model shares: the fixed-width integer types of the source,
  the little-endian byte codecs behind Rust's \<^verbatim>\<open>to_le_bytes\<close> / \<^verbatim>\<open>from_le_bytes\<close>, the
  \<^verbatim>\<open>Digest224\<close> key type with its array (lexicographic) order, \<^verbatim>\<open>BTreeMap\<close> as a strictly
  sorted association list, Rust's UTF-8 check behind \<^verbatim>\<open>String::from_utf8\<close>, and the error
  type of the metadata layer. The collections \<open>codec_simps\<close> and \<open>bt_simps\<close> gather the facts
  that the codec proofs and the map proofs of the components use.
\<close>

named_theorems codec_simps \<open>length and round-trip facts of the byte codecs\<close>
named_theorems bt_simps \<open>lookup and ordering facts of the ordered maps\<close>

type_synonym byte = "8 word"
type_synonym bytes = "byte list"
type_synonym u32 = "32 word"
type_synonym u64 = "64 word"
type_synonym i64 = "64 word" \<comment> \<open>two's complement, read with \<open>sint\<close>\<close>

text \<open>A Rust \<^verbatim>\<open>String\<close> is its UTF-8 byte sequence; ASCII literals are written with \<open>str\<close>.\<close>

type_synonym rstring = bytes

definition str :: "string \<Rightarrow> rstring" where
  "str s = map (\<lambda>c. of_nat (of_char c)) s"

text \<open>Results: \<open>Inl\<close> is the error of a \<^verbatim>\<open>Result\<close>, \<open>Inr\<close> its value.\<close>

abbreviation Err :: "'e \<Rightarrow> 'e + 'a" where "Err \<equiv> Inl"
abbreviation Ok :: "'a \<Rightarrow> 'e + 'a" where "Ok \<equiv> Inr"

lemma option_eqI: "(\<And>j. a = Some j \<longleftrightarrow> b = Some j) \<Longrightarrow> a = b"
  by (cases a; cases b) auto

subsection \<open>Little-endian integers\<close>

primrec nat_to_le :: "nat \<Rightarrow> nat \<Rightarrow> bytes" where
  "nat_to_le 0 x = []"
| "nat_to_le (Suc n) x = of_nat (x mod 256) # nat_to_le n (x div 256)"

primrec le_to_nat :: "bytes \<Rightarrow> nat" where
  "le_to_nat [] = 0"
| "le_to_nat (b # bs) = unat b + 256 * le_to_nat bs"

definition u32_to_le :: "u32 \<Rightarrow> bytes" where
  "u32_to_le w = nat_to_le 4 (unat w)"

definition u32_from_le :: "bytes \<Rightarrow> u32" where
  "u32_from_le bs = of_nat (le_to_nat bs)"

definition u64_to_le :: "u64 \<Rightarrow> bytes" where
  "u64_to_le w = nat_to_le 8 (unat w)"

definition u64_from_le :: "bytes \<Rightarrow> u64" where
  "u64_from_le bs = of_nat (le_to_nat bs)"

lemma unat_byte_less: "unat (b :: byte) < 256"
  and unat_u32_less: "unat (w :: u32) < 4294967296"
  and unat_u64_less: "unat (v :: u64) < 18446744073709551616"
  using unsigned_less [of b] unsigned_less [of w] unsigned_less [of v] by simp_all

lemma length_nat_to_le [simp]: "length (nat_to_le n x) = n"
  by (induction n arbitrary: x) auto

lemma unat_byte_of_mod [simp]: "unat (of_nat (x mod 256) :: byte) = x mod 256"
  by (simp add: unat_of_nat)

lemma le_to_nat_nat_to_le: "le_to_nat (nat_to_le n x) = x mod 256 ^ n"
proof (induction n arbitrary: x)
  case (Suc n)
  have "x mod 256 + 256 * (x div 256 mod 256 ^ n) = x mod (256 * 256 ^ n)"
    by (simp add: mod_mult2_eq)
  with Suc show ?case by simp
qed simp

lemma le_to_nat_less: "le_to_nat bs < 256 ^ length bs"
proof (induction bs)
  case (Cons b bs)
  from unat_byte_less [of b] Cons show ?case by simp
qed simp

lemma byte_div_mod:
  "(unat (b :: byte) + 256 * n) mod 256 = unat b" "(unat (b :: byte) + 256 * n) div 256 = n"
  using unat_byte_less [of b] by simp_all

lemma nat_to_le_le_to_nat: "nat_to_le (length bs) (le_to_nat bs) = bs"
  by (induction bs) (simp_all only: nat_to_le.simps le_to_nat.simps list.size length_Cons
      byte_div_mod add_0_right add_Suc_right of_nat_unat ucast_id)

lemma length_u32_to_le [simp]: "length (u32_to_le w) = 4"
  and length_u64_to_le [simp]: "length (u64_to_le v) = 8"
  by (simp_all add: u32_to_le_def u64_to_le_def)

lemma u32_to_le_nonempty [simp]: "u32_to_le w \<noteq> []"
  and u64_to_le_nonempty [simp]: "u64_to_le v \<noteq> []"
  using length_u32_to_le [of w] length_u64_to_le [of v] by fastforce+

lemma u32_from_to_le [simp]: "u32_from_le (u32_to_le w) = w"
  using unat_u32_less [of w] by (simp add: u32_from_le_def u32_to_le_def le_to_nat_nat_to_le)

lemma u64_from_to_le [simp]: "u64_from_le (u64_to_le w) = w"
  using unat_u64_less [of w] by (simp add: u64_from_le_def u64_to_le_def le_to_nat_nat_to_le)

lemma u32_to_from_le: "length bs = 4 \<Longrightarrow> u32_to_le (u32_from_le bs) = bs"
  using le_to_nat_less [of bs] nat_to_le_le_to_nat [of bs]
  by (simp add: u32_from_le_def u32_to_le_def unat_of_nat)

lemma u64_to_from_le: "length bs = 8 \<Longrightarrow> u64_to_le (u64_from_le bs) = bs"
  using le_to_nat_less [of bs] nat_to_le_le_to_nat [of bs]
  by (simp add: u64_from_le_def u64_to_le_def unat_of_nat)

lemma unat_u32_le_length:
  "n < 2 ^ 32 \<Longrightarrow> unat (u32_from_le (u32_to_le (of_nat n))) = n"
  by (simp add: unat_of_nat)

text \<open>Rust's \<^verbatim>\<open>bytes[a..b]\<close>; every use in the source is guarded by a length check.\<close>

definition slice :: "'a list \<Rightarrow> nat \<Rightarrow> nat \<Rightarrow> 'a list" where
  "slice xs a b = take (b - a) (drop a xs)"

lemma length_slice [simp]: "b \<le> length xs \<Longrightarrow> length (slice xs a b) = b - a"
  by (simp add: slice_def)

lemma slice_append_left: "b \<le> length xs \<Longrightarrow> slice (xs @ ys) a b = slice xs a b"
  by (cases "a \<le> length xs") (simp_all add: slice_def)

lemma slice_append_right:
  "length xs \<le> a \<Longrightarrow> slice (xs @ ys) a b = slice ys (a - length xs) (b - length xs)"
  by (simp add: slice_def)

lemma slice_all: "a = 0 \<Longrightarrow> b = length xs \<Longrightarrow> slice xs a b = xs"
  by (simp add: slice_def)

lemma slice_append_drop:
  assumes "a \<le> b"
  shows "slice xs a b @ drop b xs = drop a xs"
proof -
  from assms have "drop b xs = drop (b - a) (drop a xs)" by simp
  then show ?thesis by (simp only: slice_def append_take_drop_id)
qed

lemma slice_glue: "a \<le> b \<Longrightarrow> b \<le> c \<Longrightarrow> slice xs a b @ slice xs b c = slice xs a c"
proof -
  assume "a \<le> b" "b \<le> c"
  then obtain m n where "b = a + m" "c = a + m + n" by (metis le_add_diff_inverse)
  then show ?thesis by (simp add: slice_def take_add add.commute add.left_commute)
qed

lemma slice_glue_append:
  "a \<le> b \<Longrightarrow> b \<le> c \<Longrightarrow> slice xs a b @ slice xs b c @ ys = slice xs a c @ ys"
  using slice_glue [of a b c xs] by (metis append_assoc)

lemmas slice_appends = slice_append_left slice_append_right slice_all

subsection \<open>Digests\<close>

text \<open>\<^verbatim>\<open>Digest224 = [u32; 7]\<close>, ordered as Rust orders arrays.\<close>

datatype digest224 = Digest224 u32 u32 u32 u32 u32 u32 u32

primrec digest_words :: "digest224 \<Rightarrow> u32 list" where
  "digest_words (Digest224 a b c d e f g) = [a, b, c, d, e, f, g]"

lemma digest_words_inject [simp]: "digest_words d = digest_words d' \<longleftrightarrow> d = d'"
  by (cases d; cases d') auto

instantiation digest224 :: linorder
begin

definition less_eq_digest224 :: "digest224 \<Rightarrow> digest224 \<Rightarrow> bool" where
  "d \<le> d' \<longleftrightarrow> digest_words d \<le> digest_words d'"

definition less_digest224 :: "digest224 \<Rightarrow> digest224 \<Rightarrow> bool" where
  "d < d' \<longleftrightarrow> digest_words d < digest_words d'"

instance
  by standard (auto simp: less_eq_digest224_def less_digest224_def order_less_le)

end

definition digest_to_le :: "digest224 \<Rightarrow> bytes" where
  "digest_to_le d = concat (map u32_to_le (digest_words d))"

definition digest_from_le :: "bytes \<Rightarrow> digest224" where
  "digest_from_le bs = Digest224
     (u32_from_le (slice bs 0 4)) (u32_from_le (slice bs 4 8)) (u32_from_le (slice bs 8 12))
     (u32_from_le (slice bs 12 16)) (u32_from_le (slice bs 16 20)) (u32_from_le (slice bs 20 24))
     (u32_from_le (slice bs 24 28))"

lemma length_digest_to_le [simp]: "length (digest_to_le d) = 28"
  by (cases d) (simp add: digest_to_le_def)

lemma digest_from_to_le [simp]: "digest_from_le (digest_to_le d) = d"
  by (cases d) (simp add: digest_to_le_def digest_from_le_def slice_appends)

lemma digest_from_le_take: "28 \<le> length bs \<Longrightarrow> digest_from_le (take 28 bs) = digest_from_le bs"
  by (simp add: digest_from_le_def slice_def drop_take min_def)

lemma digest_from_to_le_append [simp]: "digest_from_le (digest_to_le d @ bs) = d"
  using digest_from_le_take [of "digest_to_le d @ bs"] by simp

lemma digest_to_from_le:
  assumes "length bs = 28"
  shows "digest_to_le (digest_from_le bs) = bs"
proof -
  have len: "length (slice bs 0 4) = 4" "length (slice bs 4 8) = 4" "length (slice bs 8 12) = 4"
    "length (slice bs 12 16) = 4" "length (slice bs 16 20) = 4" "length (slice bs 20 24) = 4"
    "length (slice bs 24 28) = 4"
    using assms by (simp_all add: slice_def)
  then show ?thesis
    using assms by (simp add: digest_to_le_def digest_from_le_def u32_to_from_le slice_glue slice_glue_append slice_all)
qed

lemmas [codec_simps] =
  length_u32_to_le length_u64_to_le length_digest_to_le
  u32_from_to_le u64_from_to_le digest_from_to_le digest_from_to_le_append


subsection \<open>Sequences of fixed-size records\<close>

text \<open>The loops that decode \<open>n\<close> consecutive records of \<open>sz\<close> bytes.\<close>

primrec dec_records :: "nat \<Rightarrow> (bytes \<Rightarrow> 'a) \<Rightarrow> nat \<Rightarrow> bytes \<Rightarrow> 'a list" where
  "dec_records sz dec 0 bs = []"
| "dec_records sz dec (Suc n) bs = dec (take sz bs) # dec_records sz dec n (drop sz bs)"

lemma length_enc_records:
  "(\<And>x. length (enc x) = sz) \<Longrightarrow> length (concat (map enc xs)) = length xs * sz"
  by (induction xs) auto

lemma dec_enc_records:
  assumes "\<And>x. length (enc x) = sz" and "\<And>x. dec (enc x) = x"
  shows "dec_records sz dec (length xs) (concat (map enc xs) @ r) = xs"
  by (induction xs) (simp_all add: assms)

lemma enc_dec_records:
  assumes "\<And>bs. length bs = sz \<Longrightarrow> enc (dec bs) = bs"
  shows "length bs = n * sz \<Longrightarrow> concat (map enc (dec_records sz dec n bs)) = bs"
  by (induction n arbitrary: bs) (simp_all add: assms)

lemma length_dec_records [simp]: "length (dec_records sz dec n bs) = n"
  by (induction n arbitrary: bs) simp_all

subsection \<open>Ordered maps\<close>

text \<open>
  \<^verbatim>\<open>BTreeMap\<close> iterates in key order and the source serialises maps in that order, so a
  \<^verbatim>\<open>BTreeMap\<close> is the association list it iterates over, with strictly increasing keys.
\<close>

type_synonym ('k, 'v) btree = "('k \<times> 'v) list"

abbreviation bt_get :: "('k, 'v) btree \<Rightarrow> 'k \<Rightarrow> 'v option" where
  "bt_get \<equiv> map_of"

fun bt_insert :: "'k::linorder \<Rightarrow> 'v \<Rightarrow> ('k, 'v) btree \<Rightarrow> ('k, 'v) btree" where
  "bt_insert k v [] = [(k, v)]"
| "bt_insert k v ((k', v') # m) =
     (if k < k' then (k, v) # (k', v') # m
      else if k = k' then (k, v) # m
      else (k', v') # bt_insert k v m)"

fun bt_remove :: "'k::linorder \<Rightarrow> ('k, 'v) btree \<Rightarrow> ('k, 'v) btree" where
  "bt_remove k [] = []"
| "bt_remove k ((k', v') # m) = (if k = k' then m else (k', v') # bt_remove k m)"

definition bt_sorted :: "('k::linorder, 'v) btree \<Rightarrow> bool" where
  "bt_sorted m \<longleftrightarrow> sorted_wrt (<) (map fst m)"

definition bt_of_list :: "('k::linorder \<times> 'v) list \<Rightarrow> ('k, 'v) btree" where
  "bt_of_list kvs = fold (\<lambda>(k, v) m. bt_insert k v m) kvs []"

lemma bt_sorted_Nil [simp]: "bt_sorted []"
  by (simp add: bt_sorted_def)

lemma bt_sorted_Cons [simp]:
  "bt_sorted (kv # m) \<longleftrightarrow> (\<forall>kv' \<in> set m. fst kv < fst kv') \<and> bt_sorted m"
  by (simp add: bt_sorted_def)

lemma bt_sorted_distinct: "bt_sorted m \<Longrightarrow> distinct (map fst m)"
  by (simp add: bt_sorted_def strict_sorted_iff)

lemma set_bt_insert: "set (bt_insert k v m) \<subseteq> insert (k, v) (set m)"
  by (induction k v m rule: bt_insert.induct) auto

lemma set_bt_remove: "set (bt_remove k m) \<subseteq> set m"
  by (induction k m rule: bt_remove.induct) auto

lemma bt_get_insert: "bt_get (bt_insert k v m) = (bt_get m)(k \<mapsto> v)"
  by (induction k v m rule: bt_insert.induct) (auto simp: fun_eq_iff)

lemma bt_sorted_insert: "bt_sorted m \<Longrightarrow> bt_sorted (bt_insert k v m)"
proof (induction k v m rule: bt_insert.induct)
  case (2 k v k' v' m)
  then show ?case
    using set_bt_insert [of k v m] by (auto dest: order.strict_trans)
qed simp

lemma bt_sorted_remove: "bt_sorted m \<Longrightarrow> bt_sorted (bt_remove k m)"
proof (induction k m rule: bt_remove.induct)
  case (2 k k' v' m)
  then show ?case using set_bt_remove [of k m] by auto
qed simp

lemma bt_get_notin: "\<forall>kv \<in> set m. k < fst kv \<Longrightarrow> bt_get m (k :: 'k::linorder) = None"
  by (auto simp: map_of_eq_None_iff)

lemma bt_get_remove: "bt_sorted m \<Longrightarrow> bt_get (bt_remove k m) = (bt_get m)(k := None)"
  by (induction k m rule: bt_remove.induct) (auto simp: fun_eq_iff bt_get_notin)

lemma length_bt_insert: "bt_sorted m \<Longrightarrow>
  length (bt_insert k v m) = (if bt_get m k = None then Suc (length m) else length m)"
proof (induction k v m rule: bt_insert.induct)
  case (2 k v k' v' m)
  have "k < k' \<Longrightarrow> bt_get m k = None"
    using "2.prems" by (intro bt_get_notin) auto
  with 2 show ?case by auto
qed simp

lemma length_bt_remove:
  "bt_get m k = Some v \<Longrightarrow> Suc (length (bt_remove k m)) = length m"
  by (induction k m rule: bt_remove.induct) (auto split: if_splits)

lemma mset_bt_insert: "bt_get m k = None \<Longrightarrow> mset (bt_insert k v m) = add_mset (k, v) (mset m)"
  by (induction k v m rule: bt_insert.induct) (auto split: if_splits)

lemma bt_remove_filter: "bt_sorted m \<Longrightarrow> bt_remove k m = filter (\<lambda>(k', _). k' \<noteq> k) m"
proof (induction k m rule: bt_remove.induct)
  case (2 k k' v' m)
  then show ?case by (auto intro!: filter_True [symmetric])
qed simp

lemma bt_sorted_unique:
  assumes "bt_sorted m" "bt_sorted m'" "bt_get m = bt_get m'"
  shows "m = m'"
proof -
  have set_eq: "set m = set m'"
    using assms by (simp add: map_of_inject_set bt_sorted_distinct)
  then have "set (map fst m) = set (map fst m')" by simp
  then have "map fst m = map fst m'"
    using assms(1,2) by (auto simp: bt_sorted_def intro: strict_sorted_equal)
  then show ?thesis
    using set_eq bt_sorted_distinct [OF assms(1)] by (auto simp: distinct_map intro: map_inj_on)
qed

text \<open>
  The interface of a map as the components use it: what lookup returns after an update, and
  that updates keep the representation invariant. Inside it, the effect of the loops of the
  source that fill a map record by record.
\<close>

locale kv_map =
  fixes empty :: "'m" and update :: "'k \<Rightarrow> 'v \<Rightarrow> 'm \<Rightarrow> 'm" and delete :: "'k \<Rightarrow> 'm \<Rightarrow> 'm"
    and lookup :: "'m \<Rightarrow> 'k \<Rightarrow> 'v option" and invar :: "'m \<Rightarrow> bool"
  assumes lookup_empty: "lookup empty k = None"
    and lookup_update: "invar m \<Longrightarrow> lookup (update k v m) = (lookup m)(k \<mapsto> v)"
    and lookup_delete: "invar m \<Longrightarrow> lookup (delete k m) = (lookup m)(k := None)"
    and invar_empty: "invar empty"
    and invar_update: "invar m \<Longrightarrow> invar (update k v m)"
    and invar_delete: "invar m \<Longrightarrow> invar (delete k m)"
begin

lemma invar_fill: "invar m \<Longrightarrow> invar (fold (\<lambda>(k, v). update k v) kvs m)"
  by (induction kvs arbitrary: m) (auto simp: invar_update)

lemma lookup_fill:
  "invar m \<Longrightarrow> lookup (fold (\<lambda>(k, v). update k v) kvs m) = lookup m ++ map_of (rev kvs)"
proof (induction kvs arbitrary: m)
  case (Cons kv kvs)
  then show ?case
    by (cases kv) (auto simp: invar_update lookup_update fun_eq_iff map_add_def split: option.split)
qed simp

lemma lookup_fill_distinct:
  assumes "distinct (map fst kvs)"
  shows "lookup (fold (\<lambda>(k, v). update k v) kvs empty) = map_of kvs"
proof -
  have "map_of (rev kvs) = map_of kvs"
    using assms by (simp add: map_of_inject_set flip: rev_map)
  then show ?thesis
    using lookup_fill [OF invar_empty, of kvs] by (auto simp: fun_eq_iff lookup_empty map_add_def split: option.split)
qed

end

interpretation bt: kv_map "[] :: ('k::linorder, 'v) btree" bt_insert bt_remove bt_get bt_sorted
  by unfold_locales (simp_all add: bt_get_insert bt_get_remove bt_sorted_insert bt_sorted_remove)

text \<open>\<^verbatim>\<open>HashMap\<close>, where only lookups matter, is the partial function it denotes.\<close>

definition hm_insert :: "'k \<Rightarrow> 'v \<Rightarrow> ('k \<rightharpoonup> 'v) \<Rightarrow> ('k \<rightharpoonup> 'v)" where
  "hm_insert k v m = m(k \<mapsto> v)"

definition hm_remove :: "'k \<Rightarrow> ('k \<rightharpoonup> 'v) \<Rightarrow> ('k \<rightharpoonup> 'v)" where
  "hm_remove k m = m(k := None)"

interpretation hm: kv_map "Map.empty :: 'k \<rightharpoonup> 'v" hm_insert hm_remove "\<lambda>m. m" "\<lambda>_. True"
  by unfold_locales (simp_all add: hm_insert_def hm_remove_def)

lemma bt_get_of_list: "distinct (map fst kvs) \<Longrightarrow> bt_get (bt_of_list kvs) = map_of kvs"
  using bt.lookup_fill_distinct [of kvs] by (simp add: bt_of_list_def)

lemma bt_sorted_of_list: "bt_sorted (bt_of_list kvs)"
  using bt.invar_fill [OF bt_sorted_Nil, of kvs] by (simp add: bt_of_list_def)

lemma bt_of_list_id: "bt_sorted m \<Longrightarrow> bt_of_list m = m"
  by (simp add: bt_sorted_unique bt_sorted_of_list bt_get_of_list bt_sorted_distinct)

lemmas [bt_simps] =
  bt_get_insert bt_get_remove bt_sorted_insert bt_sorted_remove bt_of_list_id


subsection \<open>UTF-8\<close>

text \<open>
  \<^verbatim>\<open>String::from_utf8\<close> accepts exactly the well-formed UTF-8 sequences: no overlong forms, no
  surrogates, nothing above U+10FFFF.
\<close>

definition utf8_cont :: "byte \<Rightarrow> bool" where
  "utf8_cont b \<longleftrightarrow> 0x80 \<le> b \<and> b \<le> 0xBF"

fun utf8_valid :: "bytes \<Rightarrow> bool" where
  "utf8_valid [] = True"
| "utf8_valid (b # bs) =
     (if b \<le> 0x7F then utf8_valid bs
      else if 0xC2 \<le> b \<and> b \<le> 0xDF then
        (case bs of c # r \<Rightarrow> utf8_cont c \<and> utf8_valid r | _ \<Rightarrow> False)
      else if 0xE0 \<le> b \<and> b \<le> 0xEF then
        (case bs of c # d # r \<Rightarrow>
           utf8_cont c \<and> (b = 0xE0 \<longrightarrow> 0xA0 \<le> c) \<and> (b = 0xED \<longrightarrow> c \<le> 0x9F) \<and>
           utf8_cont d \<and> utf8_valid r | _ \<Rightarrow> False)
      else if 0xF0 \<le> b \<and> b \<le> 0xF4 then
        (case bs of c # d # e # r \<Rightarrow>
           utf8_cont c \<and> (b = 0xF0 \<longrightarrow> 0x90 \<le> c) \<and> (b = 0xF4 \<longrightarrow> c \<le> 0x8F) \<and>
           utf8_cont d \<and> utf8_cont e \<and> utf8_valid r | _ \<Rightarrow> False)
      else False)"

definition from_utf8 :: "bytes \<Rightarrow> rstring option" where
  "from_utf8 bs = (if utf8_valid bs then Some bs else None)"

lemma from_utf8_valid [simp]: "utf8_valid bs \<Longrightarrow> from_utf8 bs = Some bs"
  by (simp add: from_utf8_def)

lemma from_utf8_SomeD: "from_utf8 bs = Some s \<Longrightarrow> s = bs \<and> utf8_valid s"
  by (simp add: from_utf8_def split: if_splits)

end
