(* ===== verification/Cas_Local.thy ===== *)
theory Cas_Local
  imports Prelude
begin

section \<open>The content-addressed storage crate\<close>

text \<open>
  \<^verbatim>\<open>crates/slicefs-traits\<close> (hash, chunk and block-store contracts) and \<^verbatim>\<open>crates/cas-local\<close>
  (\<^verbatim>\<open>FixedChunker\<close>, \<^verbatim>\<open>MemBlockStore\<close>, \<^verbatim>\<open>LocalDiskStore\<close>). The content hasher (the \<^verbatim>\<open>blake3\<close>
  crate) is a parameter. The \<^verbatim>\<open>BlockStore\<close> trait is the locale
  \<open>block_store\<close>, interpreted on both stores.
\<close>

subsection \<open>Hashes and errors\<close>

datatype chunk_hash = ChunkHash (as_bytes: bytes)

datatype cas_error =
    CasNotFound chunk_hash
  | IntegrityFailure (expected: chunk_hash) (actual: chunk_hash)
  | HashCollision chunk_hash
  | CasIo
  | CasChunker string
  | CasIndex string

type_synonym hasher = "bytes \<Rightarrow> chunk_hash"

definition hex_digit :: "nat \<Rightarrow> byte" where
  "hex_digit n = of_nat (if n < 10 then 48 + n else 87 + n)"

text \<open>\<^verbatim>\<open>{:02x}\<close> per byte.\<close>

definition hash_display :: "chunk_hash \<Rightarrow> rstring" where
  "hash_display h = concat (map (\<lambda>b. [hex_digit (unat b div 16), hex_digit (unat b mod 16)]) (as_bytes h))"

subsection \<open>\<^verbatim>\<open>FixedChunker\<close>\<close>

record chunk =
  chunk_offset :: nat
  chunk_data :: bytes

text \<open>\<^verbatim>\<open>FixedChunker::new\<close> asserts a positive block size.\<close>

definition fixed_chunker_new :: "nat \<Rightarrow> nat option" where
  "fixed_chunker_new block_size = (if block_size > 0 then Some block_size else None)"

text \<open>
  The loop of \<^verbatim>\<open>chunk\<close>: \<open>offset\<close> is the loop variable. A block size of zero, which the
  constructor refuses, would not advance; the equation stops there.
\<close>

function chunk_loop :: "nat \<Rightarrow> bytes \<Rightarrow> nat \<Rightarrow> chunk list" where
  "chunk_loop block_size data offset =
     (if offset < length data \<and> 0 < block_size then
        let e = min (offset + block_size) (length data)
        in \<lparr>chunk_offset = offset, chunk_data = slice data offset e\<rparr> # chunk_loop block_size data e
      else [])"
  by pat_completeness auto
termination
  by (relation "measure (\<lambda>(b, d, off). length d - off)") auto

declare chunk_loop.simps [simp del]

definition chunker_chunk :: "nat \<Rightarrow> bytes \<Rightarrow> cas_error + chunk list" where
  "chunker_chunk block_size data = (if data = [] then Ok [] else Ok (chunk_loop block_size data 0))"

definition strategy_id :: "nat \<Rightarrow> string" where
  "strategy_id block_size =
     (if block_size = 4096 then ''fixed-4096''
      else if block_size = 8192 then ''fixed-8192'' else ''fixed-custom'')"

lemma chunk_loop_data:
  "0 < n \<Longrightarrow> concat (map chunk_data (chunk_loop n data off)) = drop off data"
proof (induction n data off rule: chunk_loop.induct)
  case (1 n data off)
  show ?case
  proof (cases "off < length data")
    case True
    let ?e = "min (off + n) (length data)"
    have IH: "concat (map chunk_data (chunk_loop n data ?e)) = drop ?e data"
      using 1 True by simp
    have "slice data off ?e @ drop ?e data = drop off data"
      using True by (intro slice_append_drop) simp
    with True 1(2) IH show ?thesis by (simp add: chunk_loop.simps [of n data off] Let_def)
  qed (simp add: chunk_loop.simps)
qed

lemma chunk_loop_offsets:
  "0 < n \<Longrightarrow> i < length (chunk_loop n data off) \<Longrightarrow>
     chunk_offset (chunk_loop n data off ! i) = off + i * n \<and>
     chunk_data (chunk_loop n data off ! i) = take n (drop (off + i * n) data) \<and>
     off + i * n < length data"
proof (induction n data off arbitrary: i rule: chunk_loop.induct)
  case (1 n data off)
  show ?case
  proof (cases "off < length data")
    case True
    let ?e = "min (off + n) (length data)"
    note unfold = chunk_loop.simps [of n data off]
    show ?thesis
    proof (cases i)
      case 0
      with True 1(2) show ?thesis by (simp add: unfold Let_def slice_def min_def)
    next
      case (Suc j)
      with True 1(2,3) have j: "j < length (chunk_loop n data ?e)" by (simp add: unfold Let_def)
      then have "?e < length data" by (subst (asm) chunk_loop.simps) (simp split: if_splits)
      then have e: "?e = off + n" by simp
      show ?thesis using "1.IH" [OF _ refl 1(2) j] True 1(2) Suc e
        by (simp add: unfold Let_def algebra_simps)
    qed
  qed (use 1 in \<open>simp add: chunk_loop.simps\<close>)
qed


subsection \<open>\<^verbatim>\<open>MemBlockStore\<close>\<close>

record mem_block_store =
  mbs_store :: "chunk_hash \<rightharpoonup> bytes"
  mbs_verify_on_read :: bool
  mbs_hasher :: hasher

definition mem_new :: "bool \<Rightarrow> hasher \<Rightarrow> mem_block_store" where
  "mem_new verify hasher =
     \<lparr>mbs_store = Map.empty, mbs_verify_on_read = verify, mbs_hasher = hasher\<rparr>"

definition mem_put ::
  "mem_block_store \<Rightarrow> chunk_hash \<Rightarrow> bytes \<Rightarrow> (cas_error + unit) \<times> mem_block_store" where
  "mem_put s h d =
     (let computed = mbs_hasher s d in
      if computed \<noteq> h then (Err (IntegrityFailure h computed), s)
      else case mbs_store s h of
        Some existing \<Rightarrow> if existing \<noteq> d then (Err (HashCollision h), s) else (Ok (), s)
      | None \<Rightarrow> (Ok (), s\<lparr>mbs_store := hm_insert h d (mbs_store s)\<rparr>))"

definition mem_get :: "mem_block_store \<Rightarrow> chunk_hash \<Rightarrow> cas_error + bytes" where
  "mem_get s h =
     (case mbs_store s h of
        None \<Rightarrow> Err (CasNotFound h)
      | Some d \<Rightarrow>
          if mbs_verify_on_read s \<and> mbs_hasher s d \<noteq> h
          then Err (IntegrityFailure h (mbs_hasher s d)) else Ok d)"

definition mem_exists :: "mem_block_store \<Rightarrow> chunk_hash \<Rightarrow> cas_error + bool" where
  "mem_exists s h = Ok (mbs_store s h \<noteq> None)"

definition mem_delete ::
  "mem_block_store \<Rightarrow> chunk_hash \<Rightarrow> (cas_error + unit) \<times> mem_block_store" where
  "mem_delete s h = (Ok (), s\<lparr>mbs_store := hm_remove h (mbs_store s)\<rparr>)"

definition mem_ok :: "mem_block_store \<Rightarrow> bool" where
  "mem_ok s \<longleftrightarrow> (\<forall>h d. mbs_store s h = Some d \<longrightarrow> mbs_hasher s d = h)"

subsection \<open>\<^verbatim>\<open>LocalDiskStore\<close>\<close>

text \<open>
  Below the store's root the file of a block is a shard directory and a file name; for a hash of
  fewer than two bytes, which no hasher of the crate produces, the name would be empty and the
  path would be the directory itself, so the statements about this store speak of hashes of at
  least two bytes (\<^verbatim>\<open>blake3\<close> has 32). What can go wrong
  on the disk during one call is an argument of the operation: directory creation, a write that
  stops after some bytes, the rename, a read, a removal.
\<close>

type_synonym disk_path = "rstring \<times> rstring"

datatype disk_fault = NoFault | MkdirFails | WriteFails nat | RenameFails | ReadFails | RemoveFails

record disk_store =
  ds_files :: "disk_path \<rightharpoonup> bytes"
  ds_verify_on_read :: bool
  ds_hasher :: hasher

definition hash_to_path :: "chunk_hash \<Rightarrow> disk_path" where
  "hash_to_path h =
     (let hex = hash_display h in
      if length hex \<ge> 2 then (take 2 hex, drop 2 hex) else (str ''00'', hex))"

text \<open>\<^verbatim>\<open>path.with_extension("tmp")\<close>: block file names are hexadecimal, so they carry no extension yet.\<close>

definition tmp_path :: "disk_path \<Rightarrow> disk_path" where
  "tmp_path p = (fst p, snd p @ str ''.tmp'')"

definition disk_put ::
  "disk_fault \<Rightarrow> disk_store \<Rightarrow> chunk_hash \<Rightarrow> bytes \<Rightarrow> (cas_error + unit) \<times> disk_store" where
  "disk_put fault s h d =
     (let computed = ds_hasher s d in
      if computed \<noteq> h then (Err (IntegrityFailure h computed), s)
      else let path = hash_to_path h in
      if ds_files s path \<noteq> None then (Ok (), s)
      else if fault = MkdirFails then (Err CasIo, s)
      else let tmp = tmp_path path in
      case fault of
        WriteFails n \<Rightarrow> (Err CasIo, s\<lparr>ds_files := hm_insert tmp (take n d) (ds_files s)\<rparr>)
      | RenameFails \<Rightarrow> (Err CasIo, s\<lparr>ds_files := hm_insert tmp d (ds_files s)\<rparr>)
      | _ \<Rightarrow> (Ok (), s\<lparr>ds_files := hm_insert path d (hm_remove tmp (ds_files s))\<rparr>))"

definition disk_get :: "disk_fault \<Rightarrow> disk_store \<Rightarrow> chunk_hash \<Rightarrow> cas_error + bytes" where
  "disk_get fault s h =
     (case ds_files s (hash_to_path h) of
        None \<Rightarrow> Err (CasNotFound h)
      | Some d \<Rightarrow>
          if fault = ReadFails then Err CasIo
          else if ds_verify_on_read s \<and> ds_hasher s d \<noteq> h
          then Err (IntegrityFailure h (ds_hasher s d)) else Ok d)"

definition disk_exists :: "disk_store \<Rightarrow> chunk_hash \<Rightarrow> cas_error + bool" where
  "disk_exists s h = Ok (ds_files s (hash_to_path h) \<noteq> None)"

definition disk_delete ::
  "disk_fault \<Rightarrow> disk_store \<Rightarrow> chunk_hash \<Rightarrow> (cas_error + unit) \<times> disk_store" where
  "disk_delete fault s h =
     (let path = hash_to_path h in
      if ds_files s path \<noteq> None then
        if fault = RemoveFails then (Err CasIo, s)
        else (Ok (), s\<lparr>ds_files := hm_remove path (ds_files s)\<rparr>)
      else (Ok (), s))"

text \<open>Every block file holds bytes whose hash names it; \<^verbatim>\<open>.tmp\<close> files may hold anything.\<close>

definition disk_ok :: "disk_store \<Rightarrow> bool" where
  "disk_ok s \<longleftrightarrow> (\<forall>d. 2 \<le> length (as_bytes (ds_hasher s d))) \<and>
     (\<forall>h d. 2 \<le> length (as_bytes h) \<longrightarrow> ds_files s (hash_to_path h) = Some d \<longrightarrow> ds_hasher s d = h)"

lemma unat_hex_digit: "n < 16 \<Longrightarrow> unat (hex_digit n) = (if n < 10 then 48 + n else 87 + n)"
  by (simp only: hex_digit_def unat_of_nat) simp

lemma hex_digit_inj:
  assumes "n < 16" "m < 16" "hex_digit n = hex_digit m"
  shows "n = m"
proof -
  from assms have "(if n < 10 then 48 + n else 87 + n) = (if m < 10 then 48 + m else 87 + m)"
    by (metis unat_hex_digit)
  with assms show ?thesis by (simp split: if_splits)
qed

lemma hex_digit_not_dot: "n < 16 \<Longrightarrow> hex_digit n \<noteq> 46"
  using unat_hex_digit [of n] by (auto split: if_splits)

lemma hex_byte_inj:
  assumes "hex_digit (unat (a :: byte) div 16) = hex_digit (unat (b :: byte) div 16)"
    and "hex_digit (unat a mod 16) = hex_digit (unat b mod 16)"
  shows "a = b"
proof -
  have "unat a div 16 < 16" "unat b div 16 < 16" using unat_byte_less [of a] unat_byte_less [of b] by auto
  with assms have "unat a div 16 = unat b div 16" "unat a mod 16 = unat b mod 16"
    by (simp_all add: hex_digit_inj)
  then have "unat a = unat b" by (metis div_mult_mod_eq)
  then show ?thesis by (simp add: word_unat_eq_iff)
qed

lemma hash_display_inj [simp]: "hash_display h = hash_display h' \<longleftrightarrow> h = h'"
proof
  have *: "concat (map (\<lambda>b. [hex_digit (unat b div 16), hex_digit (unat b mod 16)]) xs) =
      concat (map (\<lambda>b. [hex_digit (unat b div 16), hex_digit (unat b mod 16)]) ys) \<Longrightarrow> xs = ys"
    for xs ys :: bytes
    by (induction xs ys rule: list_induct2') (auto dest: hex_byte_inj)
  assume "hash_display h = hash_display h'"
  then show "h = h'" by (cases h; cases h') (auto simp: hash_display_def dest: *)
qed simp

lemma length_hash_display: "length (hash_display h) = 2 * length (as_bytes h)"
  by (simp add: hash_display_def length_concat comp_def sum_list_triv)

lemma hash_display_no_dot: "46 \<notin> set (hash_display h)"
proof -
  have "hex_digit (unat b div 16) \<noteq> 46" "hex_digit (unat b mod 16) \<noteq> 46" for b :: byte
    using unat_byte_less [of b] by (auto intro!: hex_digit_not_dot)
  then show ?thesis by (auto simp: hash_display_def dest: sym)
qed

lemma hash_to_path_inj:
  assumes "2 \<le> length (as_bytes h)" "2 \<le> length (as_bytes h')"
  shows "hash_to_path h = hash_to_path h' \<longleftrightarrow> h = h'"
proof -
  have "length (hash_display h) \<ge> 2" "length (hash_display h') \<ge> 2"
    using assms by (auto simp: length_hash_display)
  then show ?thesis
    by (auto simp: hash_to_path_def Let_def) (metis append_take_drop_id hash_display_inj)
qed

lemma tmp_path_not_block: "tmp_path p \<noteq> hash_to_path h"
proof
  assume "tmp_path p = hash_to_path h"
  then have "snd (hash_to_path h) = snd p @ [46, 116, 109, 112]"
    by (simp add: tmp_path_def str_def prod_eq_iff)
  then have "46 \<in> set (snd (hash_to_path h))" by simp
  then show False using hash_display_no_dot [of h]
    by (auto simp: hash_to_path_def Let_def split: if_splits dest: in_set_dropD)
qed


subsection \<open>The \<^verbatim>\<open>BlockStore\<close> contract\<close>

text \<open>
  The trait's documented contract: a block put under its hash reads back, unless another block
  with the same hash is stored; a put whose hash does not match is refused and changes nothing;
  blocks under other hashes are not disturbed; delete is idempotent. \<open>key\<close> are the keys the
  contract speaks about (the disk store needs hashes of at least two bytes).
\<close>

locale block_store =
  fixes put :: "'s \<Rightarrow> chunk_hash \<Rightarrow> bytes \<Rightarrow> (cas_error + unit) \<times> 's"
    and get :: "'s \<Rightarrow> chunk_hash \<Rightarrow> cas_error + bytes"
    and exists :: "'s \<Rightarrow> chunk_hash \<Rightarrow> cas_error + bool"
    and delete :: "'s \<Rightarrow> chunk_hash \<Rightarrow> (cas_error + unit) \<times> 's"
    and hash :: "'s \<Rightarrow> hasher" and key :: "chunk_hash \<Rightarrow> bool" and invar :: "'s \<Rightarrow> bool"
  assumes put_invar: "invar s \<Longrightarrow> invar (snd (put s h d))"
    and delete_invar: "invar s \<Longrightarrow> key h \<Longrightarrow> invar (snd (delete s h))"
    and put_hash: "hash (snd (put s h d)) = hash s"
    and delete_hash: "hash (snd (delete s h)) = hash s"
    and hash_key: "invar s \<Longrightarrow> key (hash s d)"
    and put_mismatch: "hash s d \<noteq> h \<Longrightarrow> put s h d = (Err (IntegrityFailure h (hash s d)), s)"
    and put_match: "invar s \<Longrightarrow> get s (hash s d) \<in> {Err (CasNotFound (hash s d)), Ok d} \<Longrightarrow>
      fst (put s (hash s d) d) = Ok () \<and> get (snd (put s (hash s d) d)) (hash s d) = Ok d"
    and put_other: "invar s \<Longrightarrow> key h \<Longrightarrow> key h' \<Longrightarrow> h \<noteq> h' \<Longrightarrow> get (snd (put s h d)) h' = get s h'"
    and get_sound: "invar s \<Longrightarrow> key h \<Longrightarrow> get s h = Ok d \<Longrightarrow> hash s d = h"
    and get_total: "invar s \<Longrightarrow> key h \<Longrightarrow> get s h = Err (CasNotFound h) \<or> (\<exists>d. get s h = Ok d)"
    and exists_get: "invar s \<Longrightarrow> key h \<Longrightarrow> exists s h = Ok (get s h \<noteq> Err (CasNotFound h))"
    and delete_get: "invar s \<Longrightarrow> key h \<Longrightarrow> key h' \<Longrightarrow> fst (delete s h) = Ok () \<and>
      get (snd (delete s h)) h' = (if h' = h then Err (CasNotFound h) else get s h')"
begin

text \<open>Storing a list of blocks, each under its own hash, as the write pipelines do.\<close>

lemma put_again:
  assumes "invar s" "get s (hash s d) = Ok d"
  shows "fst (put s (hash s d) d) = Ok ()" "get (snd (put s (hash s d) d)) (hash s d) = Ok d"
  using put_match [of s d] assms by auto

lemma put_no_collision:
  assumes inv: "invar s" and inj: "inj_on (hash s) U" and d: "d \<in> U"
    and U: "\<forall>h d'. key h \<longrightarrow> get s h = Ok d' \<longrightarrow> d' \<in> U"
  shows "fst (put s (hash s d) d) = Ok ()" "get (snd (put s (hash s d) d)) (hash s d) = Ok d"
proof -
  have k: "key (hash s d)" using inv by (rule hash_key)
  have "d' = d" if "get s (hash s d) = Ok d'" for d'
    using get_sound [OF inv k that] U k that inj d by (auto dest: inj_onD)
  with get_total [OF inv k] have "get s (hash s d) \<in> {Err (CasNotFound (hash s d)), Ok d}"
    by auto
  from put_match [OF inv this] show "fst (put s (hash s d) d) = Ok ()"
    "get (snd (put s (hash s d) d)) (hash s d) = Ok d" by blast+
qed

lemma put_contents:
  assumes "invar s" "inj_on (hash s) U" "d \<in> U" "\<forall>h d'. key h \<longrightarrow> get s h = Ok d' \<longrightarrow> d' \<in> U"
    and h: "key h" "get (snd (put s (hash s d) d)) h = Ok d'"
  shows "d' \<in> U"
proof (cases "h = hash s d")
  case True
  with put_no_collision(2) [OF assms(1-4)] h assms(3) show ?thesis by simp
next
  case False
  with put_other [OF assms(1) hash_key [OF assms(1)] h(1)] h assms(4) show ?thesis by metis
qed

lemma put_blocks:
  assumes "invar s" "inj_on (hash s) U" "set ds \<subseteq> U" "\<forall>h d'. key h \<longrightarrow> get s h = Ok d' \<longrightarrow> d' \<in> U"
    and "d \<in> set ds \<or> get s (hash s d) = Ok d"
  shows "get (fold (\<lambda>d s. snd (put s (hash s d) d)) ds s) (hash s d) = Ok d"
  using assms
proof (induction ds arbitrary: s)
  case (Cons x ds)
  let ?s = "snd (put s (hash s x) x)"
  have hash: "hash ?s = hash s" by (rule put_hash)
  have inv: "invar ?s" by (rule put_invar) (rule Cons.prems(1))
  have U: "\<forall>h d'. key h \<longrightarrow> get ?s h = Ok d' \<longrightarrow> d' \<in> U"
    using put_contents [OF Cons.prems(1,2) _ Cons.prems(4), of x] Cons.prems(3) by auto
  have k: "key (hash s x)" "key (hash s d)" using Cons.prems(1) by (auto intro: hash_key)
  have "d \<in> set ds \<or> get ?s (hash s d) = Ok d"
  proof (cases "hash s d = hash s x")
    case True
    have "d \<in> U" using Cons.prems(3-5) k(2) by auto
    with True Cons.prems(2,3) have "d = x" by (auto dest: inj_onD)
    then show ?thesis
      using put_no_collision(2) [OF Cons.prems(1,2) _ Cons.prems(4), of x] Cons.prems(3) by simp
  next
    case False
    then show ?thesis
      using put_other [OF Cons.prems(1) k] Cons.prems(5) put_no_collision(2)
        [OF Cons.prems(1,2) _ Cons.prems(4), of x] Cons.prems(3) by auto
  qed
  with Cons.IH [of ?s, OF inv _ _ U] hash Cons.prems(2,3) show ?case by simp
qed simp

end

lemma mem_okI: "(\<And>h d. mbs_store s h = Some d \<Longrightarrow> mbs_hasher s d = h) \<Longrightarrow> mem_ok s"
  and mem_okD: "mem_ok s \<Longrightarrow> mbs_store s h = Some d \<Longrightarrow> mbs_hasher s d = h"
  by (auto simp: mem_ok_def)

lemma mem_ok_new: "mem_ok (mem_new v f)"
  by (simp add: mem_ok_def mem_new_def)

lemma mem_put_store: "mbs_store (snd (mem_put s h d)) =
    (if mbs_hasher s d = h \<and> mbs_store s h = None then (mbs_store s)(h \<mapsto> d) else mbs_store s)"
  and mem_put_hasher [simp]: "mbs_hasher (snd (mem_put s h d)) = mbs_hasher s"
  and mem_put_verify [simp]: "mbs_verify_on_read (snd (mem_put s h d)) = mbs_verify_on_read s"
  and mem_put_result: "mbs_hasher s d = h \<Longrightarrow> mbs_store s h \<in> {None, Some d} \<Longrightarrow>
    fst (mem_put s h d) = Ok ()"
  by (auto simp: mem_put_def Let_def hm_insert_def split: option.splits)

lemma mem_get_ok: "mem_ok s \<Longrightarrow>
    mem_get s h = (case mbs_store s h of None \<Rightarrow> Err (CasNotFound h) | Some d \<Rightarrow> Ok d)"
  by (auto simp: mem_get_def split: option.splits dest: mem_okD)

lemma mem_delete_simps [simp]:
  "fst (mem_delete s h) = Ok ()" "mbs_store (snd (mem_delete s h)) = (mbs_store s)(h := None)"
  "mbs_hasher (snd (mem_delete s h)) = mbs_hasher s"
  by (simp_all add: mem_delete_def hm_remove_def)

lemma mem_ok_put: "mem_ok s \<Longrightarrow> mem_ok (snd (mem_put s h d))"
  by (rule mem_okI) (auto simp: mem_put_store split: if_splits dest: mem_okD)

lemma mem_ok_delete: "mem_ok s \<Longrightarrow> mem_ok (snd (mem_delete s h))"
  by (rule mem_okI) (auto split: if_splits dest: mem_okD)

interpretation mem: block_store mem_put mem_get mem_exists mem_delete mbs_hasher "\<lambda>_. True" mem_ok
proof unfold_locales
  fix s h h' d d'
  show "mbs_hasher s d \<noteq> h \<Longrightarrow> mem_put s h d = (Err (IntegrityFailure h (mbs_hasher s d)), s)"
    by (simp add: mem_put_def Let_def)
  assume ok: "mem_ok s"
  show "mem_get s (mbs_hasher s d) \<in> {Err (CasNotFound (mbs_hasher s d)), Ok d} \<Longrightarrow>
      fst (mem_put s (mbs_hasher s d) d) = Ok () \<and>
      mem_get (snd (mem_put s (mbs_hasher s d) d)) (mbs_hasher s d) = Ok d"
    using ok by (auto simp: mem_get_ok mem_ok_put mem_put_store intro!: mem_put_result
        split: option.splits)
  show "mem_get s h = Ok d \<Longrightarrow> mbs_hasher s d = h"
    using ok by (auto simp: mem_get_ok split: option.splits dest: mem_okD)
qed (auto simp: mem_get_ok mem_ok_put mem_ok_delete mem_put_store mem_exists_def split: option.splits)

subsection \<open>The disk store keeps the contract, and a failed put leaves no partial block\<close>

lemma disk_okD: "disk_ok s \<Longrightarrow> 2 \<le> length (as_bytes h) \<Longrightarrow> ds_files s (hash_to_path h) = Some d \<Longrightarrow> ds_hasher s d = h"
  and disk_ok_hash: "disk_ok s \<Longrightarrow> 2 \<le> length (as_bytes (ds_hasher s d))"
  by (auto simp: disk_ok_def)

lemma disk_put_hasher [simp]: "ds_hasher (snd (disk_put fault s h d)) = ds_hasher s"
  and disk_put_verify [simp]: "ds_verify_on_read (snd (disk_put fault s h d)) = ds_verify_on_read s"
  by (auto simp: disk_put_def Let_def split: disk_fault.splits)

lemma disk_put_files: "ds_files (snd (disk_put fault s h d)) (hash_to_path h') =
    (if ds_hasher s d = h \<and> ds_files s (hash_to_path h) = None \<and> fault \<in> {NoFault, ReadFails, RemoveFails}
        \<and> hash_to_path h' = hash_to_path h
     then Some d else ds_files s (hash_to_path h'))"
  using tmp_path_not_block [symmetric]
  by (auto simp: disk_put_def Let_def hm_insert_def hm_remove_def split: disk_fault.splits)

lemma disk_put_result: "ds_hasher s d = h \<Longrightarrow> fst (disk_put NoFault s h d) = Ok ()"
  by (simp add: disk_put_def Let_def)

lemma disk_ok_put:
  assumes "disk_ok s"
  shows "disk_ok (snd (disk_put fault s h d))"
  unfolding disk_ok_def
proof (intro conjI allI impI)
  fix h' d'
  assume "2 \<le> length (as_bytes h')" and
    "ds_files (snd (disk_put fault s h d)) (hash_to_path h') = Some d'"
  then show "ds_hasher (snd (disk_put fault s h d)) d' = h'"
    using assms disk_ok_hash [OF assms, of d]
    by (auto simp: disk_put_files hash_to_path_inj split: if_splits dest: disk_okD)
qed (simp add: disk_ok_hash [OF assms])

lemma disk_delete_simps:
  "ds_hasher (snd (disk_delete fault s h)) = ds_hasher s"
  "ds_verify_on_read (snd (disk_delete fault s h)) = ds_verify_on_read s"
  "ds_files (snd (disk_delete NoFault s h)) = (ds_files s)(hash_to_path h := None)"
  "fst (disk_delete NoFault s h) = Ok ()"
  by (auto simp: disk_delete_def Let_def hm_remove_def fun_eq_iff)

lemma disk_get_ok: "disk_ok s \<Longrightarrow> 2 \<le> length (as_bytes h) \<Longrightarrow> disk_get NoFault s h =
    (case ds_files s (hash_to_path h) of None \<Rightarrow> Err (CasNotFound h) | Some d \<Rightarrow> Ok d)"
  by (auto simp: disk_get_def split: option.splits dest: disk_okD)

lemma disk_ok_delete: "disk_ok s \<Longrightarrow> disk_ok (snd (disk_delete NoFault s h))"
  unfolding disk_ok_def by (auto simp: disk_delete_simps split: if_splits)

interpretation disk: block_store "disk_put NoFault" "disk_get NoFault" disk_exists
  "disk_delete NoFault" ds_hasher "\<lambda>h. 2 \<le> length (as_bytes h)" disk_ok
proof unfold_locales
  fix s h h' d d'
  show "ds_hasher s d \<noteq> h \<Longrightarrow>
      disk_put NoFault s h d = (Err (IntegrityFailure h (ds_hasher s d)), s)"
    by (simp add: disk_put_def Let_def)
  assume ok: "disk_ok s"
  show "2 \<le> length (as_bytes (ds_hasher s d))" by (rule disk_ok_hash [OF ok])
  show "disk_get NoFault s (ds_hasher s d) \<in> {Err (CasNotFound (ds_hasher s d)), Ok d} \<Longrightarrow>
      fst (disk_put NoFault s (ds_hasher s d) d) = Ok () \<and>
      disk_get NoFault (snd (disk_put NoFault s (ds_hasher s d) d)) (ds_hasher s d) = Ok d"
    using ok disk_ok_put [OF ok] disk_ok_hash [OF ok]
    by (auto simp: disk_get_ok disk_put_files disk_put_result split: option.splits)
  show "2 \<le> length (as_bytes h) \<Longrightarrow> disk_get NoFault s h = Ok d \<Longrightarrow> ds_hasher s d = h"
    using ok by (auto simp: disk_get_ok split: option.splits dest: disk_okD)
qed (auto simp: disk_get_ok disk_ok_put disk_ok_delete disk_put_files disk_delete_simps
      disk_exists_def hash_to_path_inj split: option.splits)

subsection \<open>Properties\<close>

text \<open>
  C28. Chunking loses nothing and cuts exactly at the block size: for every block size the
  constructor accepts, the chunks of any data concatenate to the data, the i-th chunk sits at
  offset i times the block size and holds the block-size bytes from there (fewer only at the
  end of the data).
\<close>

theorem chunk_partition:
  assumes "fixed_chunker_new n = Some block_size"
  shows "\<exists>cs. chunker_chunk block_size data = Ok cs \<and> concat (map chunk_data cs) = data \<and>
    (\<forall>i < length cs. chunk_offset (cs ! i) = i * block_size \<and>
       chunk_data (cs ! i) = take block_size (drop (i * block_size) data) \<and> chunk_data (cs ! i) \<noteq> [])"
proof (cases "data = []")
  case False
  from assms have n: "0 < block_size" by (simp add: fixed_chunker_new_def split: if_splits)
  let ?cs = "chunk_loop block_size data 0"
  have "chunker_chunk block_size data = Ok ?cs" using False by (simp add: chunker_chunk_def)
  moreover have "concat (map chunk_data ?cs) = data" using chunk_loop_data [OF n, of data 0] by simp
  moreover have "chunk_offset (?cs ! i) = i * block_size \<and>
      chunk_data (?cs ! i) = take block_size (drop (i * block_size) data) \<and> chunk_data (?cs ! i) \<noteq> []"
    if "i < length ?cs" for i
    using chunk_loop_offsets [OF n that] n by simp
  ultimately show ?thesis by blast
qed (simp add: chunker_chunk_def)

theorem chunk_partition_witness:
  "fixed_chunker_new 2 = Some 2 \<and> chunker_chunk 2 [1, 2, 3] =
     Ok [\<lparr>chunk_offset = 0, chunk_data = [1, 2]\<rparr>, \<lparr>chunk_offset = 2, chunk_data = [3]\<rparr>] \<and>
   (\<exists>cs. chunker_chunk 2 [1, 2, 3] = Ok cs \<and> concat (map chunk_data cs) = [1, 2, 3])"
proof -
  have f: "fixed_chunker_new 2 = Some 2" by (simp add: fixed_chunker_new_def)
  then show ?thesis using chunk_partition [OF f, of "[1, 2, 3]"]
    by (auto simp: chunker_chunk_def chunk_loop.simps slice_def)
qed

text \<open>
  C26. Crash atomicity of the disk store: whatever fails during a \<^verbatim>\<open>put\<close> (directory creation, a
  write cut short at any byte, the rename), afterwards every block file still holds bytes that
  match its hash, every block that was there before is unchanged, and the new block is either
  absent as before or completely there; if \<^verbatim>\<open>put\<close> returned success it is there or was there.
\<close>

theorem disk_put_atomic:
  assumes "disk_ok s" and "2 \<le> length (as_bytes h')"
  shows "disk_ok (snd (disk_put fault s h d)) \<and>
    (disk_get NoFault (snd (disk_put fault s h d)) h' = disk_get NoFault s h' \<or>
     h' = h \<and> ds_hasher s d = h \<and> disk_get NoFault s h = Err (CasNotFound h) \<and>
     disk_get NoFault (snd (disk_put fault s h d)) h = Ok d) \<and>
    (fst (disk_put fault s h d) = Ok () \<longrightarrow> ds_hasher s d = h \<and>
       (\<exists>d'. disk_get NoFault (snd (disk_put fault s h d)) h = Ok d' \<and> ds_hasher s d' = h))"
proof (intro conjI)
  have key: "2 \<le> length (as_bytes h)" if "ds_hasher s d = h"
    using disk_ok_hash [OF assms(1), of d] that by simp
  note get = disk_get_ok [OF disk_ok_put [OF assms(1)]] disk_get_ok [OF assms(1)]
  show "disk_ok (snd (disk_put fault s h d))" by (rule disk_ok_put [OF assms(1)])
  show "disk_get NoFault (snd (disk_put fault s h d)) h' = disk_get NoFault s h' \<or>
     h' = h \<and> ds_hasher s d = h \<and> disk_get NoFault s h = Err (CasNotFound h) \<and>
     disk_get NoFault (snd (disk_put fault s h d)) h = Ok d"
    using assms(2) key by (auto simp: get disk_put_files hash_to_path_inj split: option.splits)
  have "\<exists>d'. ds_files (snd (disk_put fault s h d)) (hash_to_path h) = Some d' \<and> ds_hasher s d = h"
    if "fst (disk_put fault s h d) = Ok ()"
    using that by (auto simp: disk_put_def Let_def hm_insert_def split: if_splits disk_fault.splits)
  then show "fst (disk_put fault s h d) = Ok () \<longrightarrow> ds_hasher s d = h \<and>
       (\<exists>d'. disk_get NoFault (snd (disk_put fault s h d)) h = Ok d' \<and> ds_hasher s d' = h)"
    using key disk_okD [OF disk_ok_put [OF assms(1)]] by (fastforce simp: get)
qed

text \<open>A 32-byte stand-in for \<^verbatim>\<open>blake3\<close> on short inputs, and an empty disk store that uses it.\<close>

definition pad_hash :: hasher where
  "pad_hash d = ChunkHash (take 32 (of_nat (length d) # d @ replicate 31 0))"

definition pad_disk :: disk_store where
  "pad_disk = \<lparr>ds_files = Map.empty, ds_verify_on_read = True, ds_hasher = pad_hash\<rparr>"

lemma pad_disk_ok: "disk_ok pad_disk"
  by (simp add: disk_ok_def pad_disk_def pad_hash_def min_def)

theorem disk_put_atomic_witness:
  "disk_get NoFault (snd (disk_put (WriteFails 1) pad_disk (pad_hash [1, 2]) [1, 2])) (pad_hash [1, 2]) =
     Err (CasNotFound (pad_hash [1, 2])) \<and>
   (\<exists>d'. disk_get NoFault (snd (disk_put NoFault pad_disk (pad_hash [1, 2]) [1, 2])) (pad_hash [1, 2]) = Ok d'
      \<and> ds_hasher pad_disk d' = pad_hash [1, 2])"
proof
  have 2: "2 \<le> length (as_bytes (pad_hash [1, 2]))" by (simp add: pad_hash_def)
  have "fst (disk_put NoFault pad_disk (pad_hash [1, 2]) [1, 2]) = Ok ()"
    by (simp add: disk_put_result pad_disk_def)
  then show "\<exists>d'. disk_get NoFault (snd (disk_put NoFault pad_disk (pad_hash [1, 2]) [1, 2])) (pad_hash [1, 2]) = Ok d'
      \<and> ds_hasher pad_disk d' = pad_hash [1, 2]"
    using disk_put_atomic [OF pad_disk_ok 2, of NoFault "pad_hash [1, 2]" "[1, 2]"] by blast
qed code_simp

text \<open>
  C27. Both block stores keep the \<^verbatim>\<open>BlockStore\<close> contract over a whole file: store every block of a
  list under its hash, in any order and with repetitions, into a store whose blocks and the new
  ones have no hash collision among them, and each of them reads back, from the memory store
  and from the disk store alike.
\<close>

theorem stores_keep_blocks:
  assumes "d \<in> set ds"
    and "mem_ok m" "inj_on (mbs_hasher m) (set ds \<union> ran (mbs_store m))"
    and "disk_ok s" "inj_on (ds_hasher s) (set ds \<union> ran (ds_files s))"
  shows "mem_get (fold (\<lambda>d s. snd (mem_put s (mbs_hasher s d) d)) ds m) (mbs_hasher m d) = Ok d \<and>
    disk_get NoFault (fold (\<lambda>d s. snd (disk_put NoFault s (ds_hasher s d) d)) ds s) (ds_hasher s d) = Ok d"
proof
  show "mem_get (fold (\<lambda>d s. snd (mem_put s (mbs_hasher s d) d)) ds m) (mbs_hasher m d) = Ok d"
    by (rule mem.put_blocks [OF assms(2,3)])
      (use assms in \<open>auto simp: mem_get_ok ranI split: option.splits\<close>)
  show "disk_get NoFault (fold (\<lambda>d s. snd (disk_put NoFault s (ds_hasher s d) d)) ds s) (ds_hasher s d) = Ok d"
    by (rule disk.put_blocks [OF assms(4,5)])
      (use assms in \<open>auto simp: disk_get_ok ranI split: option.splits\<close>)
qed

lemma pad_hash_inj: "inj_on pad_hash {[1, 2], [3], []}"
  by (simp add: pad_hash_def)

theorem stores_keep_blocks_witness:
  "mem_get (fold (\<lambda>d s. snd (mem_put s (mbs_hasher s d) d)) [[1, 2], [], [3], [1, 2]] (mem_new True pad_hash))
     (pad_hash [3]) = Ok [3] \<and>
   disk_get NoFault (fold (\<lambda>d s. snd (disk_put NoFault s (ds_hasher s d) d)) [[1, 2], [], [3], [1, 2]] pad_disk)
     (pad_hash [3]) = Ok [3]"
proof -
  let ?ds = "[[1, 2], [], [3], [1, 2]] :: bytes list"
  have 3: "[3] \<in> set ?ds" by simp
  have inj: "inj_on pad_hash (set ?ds)" using pad_hash_inj by (simp add: insert_commute)
  show ?thesis
    using stores_keep_blocks [OF 3 mem_ok_new [of True pad_hash] _ pad_disk_ok] inj
    by (simp add: mem_new_def pad_disk_def)
qed

end
