(* ===== verification/Dedup.thy ===== *)
theory Dedup
  imports Cas_Local
begin

section \<open>The deduplication index\<close>

text \<open>
  \<^verbatim>\<open>slicefs_traits::dedup_index\<close> and \<^verbatim>\<open>cas_local::MemDedupIndex\<close>: a bloom filter in front of an
  authoritative hash set, and the binary format the index is saved in. The \<^verbatim>\<open>fastbloom\<close> filter
  is the parameter \<open>B\<close>; \<open>bloom_laws\<close> is its documented guarantee, no false negatives. The
  iteration order of \<^verbatim>\<open>HashSet\<close> is the parameter \<open>iter\<close>. The trait's contract is the locale
  \<open>dedup_index\<close>.
\<close>

datatype dedup_result = DefinitelyAbsent | Absent | Present

record 'b bloom =
  bloom_new :: "u64 \<Rightarrow> nat \<Rightarrow> 'b"
  bloom_insert :: "'b \<Rightarrow> bytes \<Rightarrow> 'b"
  bloom_contains :: "'b \<Rightarrow> bytes \<Rightarrow> bool"

definition bloom_laws :: "'b bloom \<Rightarrow> bool" where
  "bloom_laws B \<longleftrightarrow>
     (\<forall>b x. bloom_contains B (bloom_insert B b x) x) \<and>
     (\<forall>b x y. bloom_contains B b y \<longrightarrow> bloom_contains B (bloom_insert B b x) y)"

text \<open>The false-positive rate, an \<^verbatim>\<open>f64\<close> that is only stored, is its bit pattern.\<close>

record 'b mem_dedup_index =
  mdi_bloom :: 'b
  mdi_present :: "chunk_hash set"
  mdi_expected_items :: nat
  mdi_false_positive_rate :: u64

definition dedup_new :: "'b bloom \<Rightarrow> nat \<Rightarrow> u64 \<Rightarrow> 'b mem_dedup_index" where
  "dedup_new B expected_items false_positive_rate =
     \<lparr>mdi_bloom = bloom_new B false_positive_rate expected_items, mdi_present = {},
      mdi_expected_items = expected_items, mdi_false_positive_rate = false_positive_rate\<rparr>"

definition bloom_check :: "'b bloom \<Rightarrow> 'b mem_dedup_index \<Rightarrow> chunk_hash \<Rightarrow> bool" where
  "bloom_check B x h = bloom_contains B (mdi_bloom x) (as_bytes h)"

definition dedup_lookup :: "'b bloom \<Rightarrow> 'b mem_dedup_index \<Rightarrow> chunk_hash \<Rightarrow> dedup_result" where
  "dedup_lookup B x h =
     (if \<not> bloom_check B x h then DefinitelyAbsent
      else if h \<in> mdi_present x then Present else Absent)"

definition dedup_insert :: "'b bloom \<Rightarrow> 'b mem_dedup_index \<Rightarrow> chunk_hash \<Rightarrow> 'b mem_dedup_index" where
  "dedup_insert B x h =
     x\<lparr>mdi_bloom := bloom_insert B (mdi_bloom x) (as_bytes h), mdi_present := insert h (mdi_present x)\<rparr>"

definition dedup_remove :: "'b mem_dedup_index \<Rightarrow> chunk_hash \<Rightarrow> 'b mem_dedup_index" where
  "dedup_remove x h = x\<lparr>mdi_present := mdi_present x - {h}\<rparr>"

definition dedup_ok :: "'b bloom \<Rightarrow> 'b mem_dedup_index \<Rightarrow> bool" where
  "dedup_ok B x \<longleftrightarrow> bloom_laws B \<and> finite (mdi_present x) \<and> (\<forall>h \<in> mdi_present x. bloom_check B x h)"

subsection \<open>Serialisation\<close>

text \<open>
  Both writers produce into a byte vector; both readers take the remaining input. A read past
  the end of the input is the error \<^verbatim>\<open>CasError::Io\<close>.
\<close>

definition save_entries :: "chunk_hash list \<Rightarrow> bytes" where
  "save_entries hs = concat (map (\<lambda>h. u32_to_le (of_nat (length (as_bytes h))) @ as_bytes h) hs)"

definition save_to_writer :: "(chunk_hash set \<Rightarrow> chunk_hash list) \<Rightarrow> 'b mem_dedup_index \<Rightarrow> bytes" where
  "save_to_writer iter x =
     u64_to_le (of_nat (card (mdi_present x))) @ save_entries (iter (mdi_present x))"

definition save_to_writer_with_header ::
  "(chunk_hash set \<Rightarrow> chunk_hash list) \<Rightarrow> 'b mem_dedup_index \<Rightarrow> bytes" where
  "save_to_writer_with_header iter x =
     u64_to_le (of_nat (mdi_expected_items x)) @ u64_to_le (mdi_false_positive_rate x) @
     u64_to_le (of_nat (card (mdi_present x))) @ save_entries (iter (mdi_present x))"

definition read_exact :: "nat \<Rightarrow> bytes \<Rightarrow> cas_error + (bytes \<times> bytes)" where
  "read_exact n r = (if length r < n then Err CasIo else Ok (take n r, drop n r))"

fun load_entries ::
  "'b bloom \<Rightarrow> nat \<Rightarrow> 'b \<Rightarrow> chunk_hash set \<Rightarrow> bytes \<Rightarrow> cas_error + ('b \<times> chunk_hash set)" where
  "load_entries B 0 bl present r = Ok (bl, present)"
| "load_entries B (Suc n) bl present r =
     (case read_exact 4 r of Err e \<Rightarrow> Err e | Ok (len_buf, r) \<Rightarrow>
      case read_exact (unat (u32_from_le len_buf)) r of Err e \<Rightarrow> Err e | Ok (bytes, r) \<Rightarrow>
      load_entries B n (bloom_insert B bl bytes) (insert (ChunkHash bytes) present) r)"

definition load_from_reader :: "'b bloom \<Rightarrow> bytes \<Rightarrow> cas_error + 'b mem_dedup_index" where
  "load_from_reader B r =
     (case read_exact 8 r of Err e \<Rightarrow> Err e | Ok (buf, r) \<Rightarrow>
      let expected_items = unat (u64_from_le buf) in
      case read_exact 8 r of Err e \<Rightarrow> Err e | Ok (buf, r) \<Rightarrow>
      let false_positive_rate = u64_from_le buf in
      case read_exact 8 r of Err e \<Rightarrow> Err e | Ok (buf, r) \<Rightarrow>
      let count = unat (u64_from_le buf);
          bl = bloom_new B false_positive_rate (max (max expected_items count) 1) in
      case load_entries B count bl {} r of Err e \<Rightarrow> Err e | Ok (bl, present) \<Rightarrow>
      Ok \<lparr>mdi_bloom = bl, mdi_present = present, mdi_expected_items = expected_items,
          mdi_false_positive_rate = false_positive_rate\<rparr>)"

subsection \<open>The \<^verbatim>\<open>DedupIndex\<close> contract\<close>

text \<open>
  What the trait promises its callers: a hash is reported \<open>Present\<close> exactly when it was inserted
  and not removed since, and the fast path never hides a present hash.
\<close>

locale dedup_index =
  fixes lookup :: "'x \<Rightarrow> chunk_hash \<Rightarrow> dedup_result" and check :: "'x \<Rightarrow> chunk_hash \<Rightarrow> bool"
    and ins :: "'x \<Rightarrow> chunk_hash \<Rightarrow> 'x" and del :: "'x \<Rightarrow> chunk_hash \<Rightarrow> 'x"
    and members :: "'x \<Rightarrow> chunk_hash set" and invar :: "'x \<Rightarrow> bool"
  assumes invar_ins: "invar x \<Longrightarrow> invar (ins x h)"
    and invar_del: "invar x \<Longrightarrow> invar (del x h)"
    and lookup_present: "invar x \<Longrightarrow> lookup x h = Present \<longleftrightarrow> h \<in> members x"
    and check_members: "invar x \<Longrightarrow> h \<in> members x \<Longrightarrow> check x h"
    and members_ins: "members (ins x h) = insert h (members x)"
    and members_del: "members (del x h) = members x - {h}"
begin

lemma fill_members:
  "members (fold (\<lambda>h x. ins x h) hs x) = members x \<union> set hs"
  by (induction hs arbitrary: x) (auto simp: members_ins)

lemma fill_invar: "invar x \<Longrightarrow> invar (fold (\<lambda>h x. ins x h) hs x)"
  by (induction hs arbitrary: x) (auto simp: invar_ins)

text \<open>The write path's question: after any inserts, the duplicates found are exactly the known hashes.\<close>

lemma fill_lookup:
  assumes "invar x"
  shows "lookup (fold (\<lambda>h x. ins x h) hs x) h = Present \<longleftrightarrow> h \<in> members x \<or> h \<in> set hs"
  using lookup_present [OF fill_invar [OF assms]] fill_members by auto

end

interpretation dedup: dedup_index "dedup_lookup B" "bloom_check B" "dedup_insert B" dedup_remove
  mdi_present "dedup_ok B" for B
  by unfold_locales
    (auto simp: dedup_ok_def bloom_laws_def bloom_check_def dedup_insert_def dedup_remove_def
      dedup_lookup_def)

lemma dedup_ok_new: "bloom_laws B \<Longrightarrow> dedup_ok B (dedup_new B n r)"
  by (simp add: dedup_ok_def dedup_new_def)

subsection \<open>Round trip\<close>

lemma read_exact_append [simp]: "length xs = n \<Longrightarrow> read_exact n (xs @ r) = Ok (xs, r)"
  by (simp add: read_exact_def)

lemma load_save_entries:
  "\<forall>h \<in> set hs. length (as_bytes h) < 2 ^ 32 \<Longrightarrow>
   load_entries B (length hs) bl present (save_entries hs @ r) =
     Ok (fold (\<lambda>h bl. bloom_insert B bl (as_bytes h)) hs bl, present \<union> set hs)"
proof (induction hs arbitrary: bl present)
  case (Cons h hs)
  then show ?case by (simp add: save_entries_def unat_of_nat)
qed simp

lemma bloom_fill_contains:
  assumes "bloom_laws B"
  shows "h \<in> set hs \<or> bloom_contains B bl (as_bytes h) \<Longrightarrow>
    bloom_contains B (fold (\<lambda>h bl. bloom_insert B bl (as_bytes h)) hs bl) (as_bytes h)"
proof (induction hs arbitrary: bl)
  case (Cons h' hs)
  then show ?case using assms by (auto simp: bloom_laws_def)
qed simp

text \<open>What an index has to satisfy to survive a save: the header fields fit their 64-bit slots, hashes their 32-bit length prefix.\<close>

definition dedup_fits :: "'b mem_dedup_index \<Rightarrow> bool" where
  "dedup_fits x \<longleftrightarrow> finite (mdi_present x) \<and> card (mdi_present x) < 2 ^ 64 \<and>
     mdi_expected_items x < 2 ^ 64 \<and> (\<forall>h \<in> mdi_present x. length (as_bytes h) < 2 ^ 32)"

lemma load_save_with_header:
  assumes fits: "dedup_fits x" and iter: "distinct (iter (mdi_present x))" "set (iter (mdi_present x)) = mdi_present x"
  shows "load_from_reader B (save_to_writer_with_header iter x) = Ok \<lparr>
    mdi_bloom = fold (\<lambda>h bl. bloom_insert B bl (as_bytes h)) (iter (mdi_present x))
      (bloom_new B (mdi_false_positive_rate x) (max (max (mdi_expected_items x) (card (mdi_present x))) 1)),
    mdi_present = mdi_present x, mdi_expected_items = mdi_expected_items x,
    mdi_false_positive_rate = mdi_false_positive_rate x\<rparr>"
proof -
  let ?hs = "iter (mdi_present x)"
  have card: "card (mdi_present x) = length ?hs"
    using iter by (metis distinct_card)
  have "load_entries B (length ?hs) bl {} (save_entries ?hs) =
      Ok (fold (\<lambda>h bl. bloom_insert B bl (as_bytes h)) ?hs bl, mdi_present x)" for bl
    using load_save_entries [of ?hs B bl "{}" "[]"] fits iter by (simp add: dedup_fits_def)
  then show ?thesis
    using fits by (simp add: load_from_reader_def save_to_writer_with_header_def card dedup_fits_def
        unat_of_nat Let_def)
qed

subsection \<open>Properties\<close>

text \<open>
  C30. The index answers exactly: through any sequence of inserts and one removal, \<^verbatim>\<open>lookup\<close>
  reports a hash present precisely when it is in the authoritative set, and the bloom filter
  in front of it never hides a present hash. This rests only on the filter having no false
  negatives.
\<close>

theorem dedup_lookup_exact:
  assumes "dedup_ok B x"
  shows "(dedup_lookup B (fold (\<lambda>h x. dedup_insert B x h) hs x) h = Present \<longleftrightarrow>
      h \<in> mdi_present x \<union> set hs) \<and>
    (dedup_lookup B (dedup_remove (fold (\<lambda>h x. dedup_insert B x h) hs x) g) h = Present \<longleftrightarrow>
      h \<noteq> g \<and> h \<in> mdi_present x \<union> set hs)"
proof
  note ok = dedup.fill_invar [OF assms]
  show "dedup_lookup B (fold (\<lambda>h x. dedup_insert B x h) hs x) h = Present \<longleftrightarrow> h \<in> mdi_present x \<union> set hs"
    using dedup.fill_lookup [OF assms] by simp
  show "dedup_lookup B (dedup_remove (fold (\<lambda>h x. dedup_insert B x h) hs x) g) h = Present \<longleftrightarrow>
      h \<noteq> g \<and> h \<in> mdi_present x \<union> set hs"
    by (auto simp: dedup.lookup_present [OF dedup.invar_del [OF ok]] dedup.members_del dedup.fill_members)
qed

text \<open>A filter that keeps the lengths it has seen: no false negatives, many false positives.\<close>

definition len_bloom :: "nat list bloom" where
  "len_bloom = \<lparr>bloom_new = (\<lambda>_ _. []), bloom_insert = (\<lambda>b x. length x # b),
     bloom_contains = (\<lambda>b x. List.member b (length x))\<rparr>"

lemma len_bloom_laws: "bloom_laws len_bloom"
  by (simp add: bloom_laws_def len_bloom_def)

theorem dedup_lookup_exact_witness:
  "dedup_lookup len_bloom (dedup_insert len_bloom (dedup_new len_bloom 10 0) (ChunkHash [1])) (ChunkHash [1]) = Present \<and>
   dedup_lookup len_bloom (dedup_insert len_bloom (dedup_new len_bloom 10 0) (ChunkHash [1])) (ChunkHash [2]) \<noteq> Present \<and>
   dedup_lookup len_bloom (dedup_remove (dedup_insert len_bloom (dedup_new len_bloom 10 0) (ChunkHash [1])) (ChunkHash [1]))
     (ChunkHash [1]) \<noteq> Present"
  using dedup_lookup_exact [OF dedup_ok_new [OF len_bloom_laws, of 10 0], of "[ChunkHash [1]]"]
  by (simp add: dedup_new_def)

text \<open>
  C32. Saving with the header and loading again gives back the index: the same authoritative set
  and parameters, a rebuilt bloom filter that again hides nothing, so every lookup has the same
  present/not-present answer.
\<close>

theorem dedup_save_load:
  assumes "dedup_ok B x" and "dedup_fits x"
    and iter: "distinct (iter (mdi_present x))" "set (iter (mdi_present x)) = mdi_present x"
  shows "\<exists>y. load_from_reader B (save_to_writer_with_header iter x) = Ok y \<and> dedup_ok B y \<and>
    mdi_present y = mdi_present x \<and> mdi_expected_items y = mdi_expected_items x \<and>
    mdi_false_positive_rate y = mdi_false_positive_rate x \<and>
    (\<forall>h. dedup_lookup B y h = Present \<longleftrightarrow> dedup_lookup B x h = Present)"
proof -
  have B: "bloom_laws B" and fin: "finite (mdi_present x)" using assms(1) by (simp_all add: dedup_ok_def)
  obtain y where y: "load_from_reader B (save_to_writer_with_header iter x) = Ok y"
    and eq: "mdi_present y = mdi_present x" "mdi_expected_items y = mdi_expected_items x"
      "mdi_false_positive_rate y = mdi_false_positive_rate x"
    and bloom: "\<exists>b. mdi_bloom y = fold (\<lambda>h bl. bloom_insert B bl (as_bytes h)) (iter (mdi_present x)) b"
    using load_save_with_header [of x iter B, OF assms(2) iter] by auto
  have "dedup_ok B y"
    using B fin bloom bloom_fill_contains [OF B] iter(2) by (auto simp: dedup_ok_def eq bloom_check_def)
  with y eq show ?thesis using dedup.lookup_present assms(1) by auto
qed

theorem dedup_save_load_witness:
  "\<exists>y. load_from_reader len_bloom (save_to_writer_with_header (\<lambda>S. [ChunkHash [1, 2]])
       (dedup_insert len_bloom (dedup_new len_bloom 10 0) (ChunkHash [1, 2]))) = Ok y \<and>
     mdi_present y = {ChunkHash [1, 2]}"
proof -
  let ?x = "dedup_insert len_bloom (dedup_new len_bloom 10 0) (ChunkHash [1, 2])"
  have x: "dedup_fits ?x" "mdi_present ?x = {ChunkHash [1, 2]}"
    by (simp_all add: dedup_fits_def dedup_insert_def dedup_new_def)
  then show ?thesis
    using dedup_save_load [OF dedup.invar_ins [OF dedup_ok_new [OF len_bloom_laws, of 10 0], of "ChunkHash [1, 2]"],
        of "\<lambda>S. [ChunkHash [1, 2]]"] by auto
qed

end
