(* ===== verification/Compression.thy ===== *)
theory Compression
  imports Cas_Local
begin

section \<open>Block compression\<close>

text \<open>
  \<^verbatim>\<open>slicefs_traits::compressor\<close> and \<^verbatim>\<open>crates/slicefs-compression\<close>: the three compressors, and the
  self-describing wire format of \<^verbatim>\<open>compress_block\<close> / \<^verbatim>\<open>decompress_block\<close>. The \<^verbatim>\<open>zstd\<close> and
  \<^verbatim>\<open>lz4_flex\<close> crates are the parameter \<open>C\<close>; \<open>codec_laws\<close> is what they document: decoding inverts
  encoding (for LZ4 up to the 32-bit length its size prefix can hold). The \<^verbatim>\<open>Compressor\<close> trait is
  the locale \<open>compressor_contract\<close>, interpreted on each of the three compressors.
\<close>

datatype algorithm_id = AlgNone | AlgZstd | AlgLz4 | AlgRaw

primrec algorithm_byte :: "algorithm_id \<Rightarrow> byte" where
  "algorithm_byte AlgNone = 0x00"
| "algorithm_byte AlgZstd = 0x01"
| "algorithm_byte AlgLz4 = 0x02"
| "algorithm_byte AlgRaw = 0x03"

definition algorithm_from_u8 :: "byte \<Rightarrow> algorithm_id option" where
  "algorithm_from_u8 v =
     (if v = 0x00 then Some AlgNone else if v = 0x01 then Some AlgZstd
      else if v = 0x02 then Some AlgLz4 else if v = 0x03 then Some AlgRaw else None)"

datatype compressor_error = CompressError string | DecompressError string

record codecs =
  zstd_encode_all :: "int \<Rightarrow> bytes \<Rightarrow> string + bytes"
  zstd_decode_all :: "bytes \<Rightarrow> string + bytes"
  lz4_compress_prepend_size :: "bytes \<Rightarrow> bytes"
  lz4_decompress_size_prepended :: "bytes \<Rightarrow> string + bytes"

definition codec_laws :: "codecs \<Rightarrow> bool" where
  "codec_laws C \<longleftrightarrow>
     (\<forall>l x y. zstd_encode_all C l x = Ok y \<longrightarrow> zstd_decode_all C y = Ok x) \<and>
     (\<forall>x. length x < 2 ^ 32 \<longrightarrow>
        lz4_decompress_size_prepended C (lz4_compress_prepend_size C x) = Ok x)"

definition map_err :: "('e \<Rightarrow> 'f) \<Rightarrow> 'e + 'a \<Rightarrow> 'f + 'a" where
  "map_err f r = (case r of Err e \<Rightarrow> Err (f e) | Ok x \<Rightarrow> Ok x)"

datatype compressor = ZstdCompressor int | Lz4Compressor | NoneCompressor

definition zstd_compress ::
  "codecs \<Rightarrow> int \<Rightarrow> bytes \<Rightarrow> compressor_error + (algorithm_id \<times> bytes)" where
  "zstd_compress C level input =
     (if input = [] then Ok (AlgRaw, [])
      else case map_err CompressError (zstd_encode_all C level input) of
        Err e \<Rightarrow> Err e
      | Ok compressed \<Rightarrow>
          if length compressed \<ge> length input then Ok (AlgRaw, input) else Ok (AlgZstd, compressed))"

definition zstd_decompress :: "codecs \<Rightarrow> algorithm_id \<Rightarrow> bytes \<Rightarrow> compressor_error + bytes" where
  "zstd_decompress C algorithm input =
     (case algorithm of
        AlgZstd \<Rightarrow> map_err DecompressError (zstd_decode_all C input)
      | AlgRaw \<Rightarrow> Ok input | AlgNone \<Rightarrow> Ok input
      | AlgLz4 \<Rightarrow> Err (DecompressError ''ZstdCompressor cannot decompress Lz4 data''))"

definition lz4_compress :: "codecs \<Rightarrow> bytes \<Rightarrow> compressor_error + (algorithm_id \<times> bytes)" where
  "lz4_compress C input =
     (if input = [] then Ok (AlgRaw, [])
      else let compressed = lz4_compress_prepend_size C input in
        if length compressed \<ge> length input then Ok (AlgRaw, input) else Ok (AlgLz4, compressed))"

definition lz4_decompress :: "codecs \<Rightarrow> algorithm_id \<Rightarrow> bytes \<Rightarrow> compressor_error + bytes" where
  "lz4_decompress C algorithm input =
     (case algorithm of
        AlgLz4 \<Rightarrow> map_err DecompressError (lz4_decompress_size_prepended C input)
      | AlgRaw \<Rightarrow> Ok input | AlgNone \<Rightarrow> Ok input
      | AlgZstd \<Rightarrow> Err (DecompressError ''Lz4Compressor cannot decompress Zstd data''))"

definition none_compress :: "bytes \<Rightarrow> compressor_error + (algorithm_id \<times> bytes)" where
  "none_compress input = Ok (AlgNone, input)"

definition none_decompress :: "algorithm_id \<Rightarrow> bytes \<Rightarrow> compressor_error + bytes" where
  "none_decompress algorithm input =
     (case algorithm of
        AlgNone \<Rightarrow> Ok input | AlgRaw \<Rightarrow> Ok input
      | AlgZstd \<Rightarrow> Err (DecompressError ''NoneCompressor cannot decompress Zstd data'')
      | AlgLz4 \<Rightarrow> Err (DecompressError ''NoneCompressor cannot decompress Lz4 data''))"

text \<open>The dynamic dispatch of \<^verbatim>\<open>&dyn Compressor\<close>.\<close>

primrec compress :: "codecs \<Rightarrow> compressor \<Rightarrow> bytes \<Rightarrow> compressor_error + (algorithm_id \<times> bytes)" where
  "compress C (ZstdCompressor level) = zstd_compress C level"
| "compress C Lz4Compressor = lz4_compress C"
| "compress C NoneCompressor = none_compress"

primrec decompress :: "codecs \<Rightarrow> compressor \<Rightarrow> algorithm_id \<Rightarrow> bytes \<Rightarrow> compressor_error + bytes" where
  "decompress C (ZstdCompressor level) = zstd_decompress C"
| "decompress C Lz4Compressor = lz4_decompress C"
| "decompress C NoneCompressor = none_decompress"

primrec algorithm_id_of :: "compressor \<Rightarrow> algorithm_id" where
  "algorithm_id_of (ZstdCompressor level) = AlgZstd"
| "algorithm_id_of Lz4Compressor = AlgLz4"
| "algorithm_id_of NoneCompressor = AlgNone"

subsection \<open>Wire format\<close>

definition compress_block :: "codecs \<Rightarrow> compressor \<Rightarrow> bytes \<Rightarrow> bytes" where
  "compress_block C c raw =
     (let (algo, payload) = (case compress C c raw of Err e \<Rightarrow> (AlgRaw, raw) | Ok r \<Rightarrow> r)
      in algorithm_byte algo # payload)"

definition decompress_block :: "codecs \<Rightarrow> compressor \<Rightarrow> bytes \<Rightarrow> compressor_error + bytes" where
  "decompress_block C c wire =
     (case wire of
        [] \<Rightarrow> Ok []
      | b # payload \<Rightarrow>
          (case algorithm_from_u8 b of
             None \<Rightarrow> Err (DecompressError ''unknown algorithm id'')
           | Some algo \<Rightarrow> decompress C c algo payload))"

text \<open>\<open>None\<close> is the panic on an unknown name.\<close>

definition parse_compressor :: "string \<Rightarrow> int option \<Rightarrow> compressor option" where
  "parse_compressor name level =
     (if name = ''zstd'' then Some (ZstdCompressor (case level of Some l \<Rightarrow> l | None \<Rightarrow> 3))
      else if name = ''lz4'' then Some Lz4Compressor
      else if name = ''none'' then Some NoneCompressor
      else None)"

subsection \<open>The \<^verbatim>\<open>Compressor\<close> contract\<close>

locale compressor_contract =
  fixes comp :: "bytes \<Rightarrow> compressor_error + (algorithm_id \<times> bytes)"
    and decomp :: "algorithm_id \<Rightarrow> bytes \<Rightarrow> compressor_error + bytes"
    and lawful :: "bytes \<Rightarrow> bool"
  assumes decomp_comp: "lawful x \<Longrightarrow> comp x = Ok (a, p) \<Longrightarrow> decomp a p = Ok x"
    and decomp_verbatim: "decomp AlgRaw p = Ok p" "decomp AlgNone p = Ok p"
    and comp_size: "comp x = Ok (a, p) \<Longrightarrow> length p \<le> length x"
begin

lemma fallback_roundtrip:
  "lawful x \<Longrightarrow> (case comp x of Err e \<Rightarrow> decomp AlgRaw x | Ok (a, p) \<Rightarrow> decomp a p) = Ok x"
  by (auto simp: decomp_verbatim decomp_comp split: sum.splits)

lemma fallback_size:
  "length (snd (case comp x of Err e \<Rightarrow> (AlgRaw, x) | Ok r \<Rightarrow> r)) \<le> length x"
  by (auto simp: comp_size split: sum.splits)

end

lemmas compressor_defs = zstd_compress_def zstd_decompress_def lz4_compress_def lz4_decompress_def
  none_compress_def none_decompress_def map_err_def Let_def

interpretation zstd: compressor_contract "zstd_compress C level" "zstd_decompress C" "\<lambda>_. codec_laws C"
  for C level
  by unfold_locales (auto simp: compressor_defs codec_laws_def split: sum.splits if_splits)

interpretation lz4: compressor_contract "lz4_compress C" "lz4_decompress C"
  "\<lambda>x. codec_laws C \<and> length x < 2 ^ 32" for C
  by unfold_locales (auto simp: compressor_defs codec_laws_def split: sum.splits if_splits)

interpretation none: compressor_contract none_compress none_decompress "\<lambda>_. True"
  by unfold_locales (auto simp: compressor_defs split: sum.splits if_splits)

interpretation any: compressor_contract "compress C c" "decompress C c"
  "\<lambda>x. codec_laws C \<and> length x < 2 ^ 32" for C c
proof unfold_locales
  fix x a p
  show "decompress C c AlgRaw p = Ok p" "decompress C c AlgNone p = Ok p"
    by (cases c; simp add: zstd.decomp_verbatim lz4.decomp_verbatim none.decomp_verbatim)+
  assume *: "compress C c x = Ok (a, p)"
  then show "length p \<le> length x"
    by (cases c; simp add: zstd.comp_size lz4.comp_size none.comp_size)
  show "decompress C c a p = Ok x" if "codec_laws C \<and> length x < 2 ^ 32"
    using * that by (cases c; simp add: zstd.decomp_comp lz4.decomp_comp none.decomp_comp)
qed

lemma algorithm_from_u8_byte [simp]: "algorithm_from_u8 (algorithm_byte a) = Some a"
  by (cases a) (simp_all add: algorithm_from_u8_def)

lemma algorithm_from_u8_SomeD: "algorithm_from_u8 b = Some a \<Longrightarrow> b = algorithm_byte a"
  by (auto simp: algorithm_from_u8_def split: if_splits)

subsection \<open>Properties\<close>

text \<open>
  C34. Every block written with \<^verbatim>\<open>compress_block\<close> reads back with \<^verbatim>\<open>decompress_block\<close> of the same
  compressor, whatever compressor it is, whether the data was compressible or not and even
  when compression fails, given that the codec crates invert their own encoding; and the wire
  form is at most one byte longer than the data.
\<close>

theorem compress_block_roundtrip:
  assumes "codec_laws C" and "length raw < 2 ^ 32"
  shows "decompress_block C c (compress_block C c raw) = Ok raw \<and>
    length (compress_block C c raw) \<le> length raw + 1"
  using any.fallback_roundtrip [where C = C and x = raw and c = c] any.fallback_size [where C = C and c = c and x = raw] assms
  by (auto simp: compress_block_def decompress_block_def simp del: algorithm_byte.simps split: sum.splits)

text \<open>A run-length stand-in for both crates: it compresses a block of equal bytes and refuses data that starts with 255.\<close>

definition rle_enc :: "bytes \<Rightarrow> bytes" where
  "rle_enc x = (if x \<noteq> [] \<and> length x < 256 \<and> list_all ((=) (hd x)) x
     then 1 # hd x # nat_to_le 1 (length x) else 0 # x)"

definition rle_dec :: "bytes \<Rightarrow> string + bytes" where
  "rle_dec y = (if y = [] then Err ''empty'' else if hd y = 0 then Ok (tl y)
     else Ok (replicate (le_to_nat (drop 2 y)) (y ! 1)))"

definition rle_codecs :: codecs where
  "rle_codecs =
     \<lparr>zstd_encode_all = (\<lambda>l x. if x \<noteq> [] \<and> hd x = 255 then Err ''refused'' else Ok (rle_enc x)),
      zstd_decode_all = rle_dec, lz4_compress_prepend_size = rle_enc,
      lz4_decompress_size_prepended = rle_dec\<rparr>"

lemma rle_dec_enc: "rle_dec (rle_enc x) = Ok x"
proof (cases "x \<noteq> [] \<and> length x < 256 \<and> list_all ((=) (hd x)) x")
  case True
  then have "replicate (length x) (hd x) = x"
    by (intro replicate_eqI [symmetric]) (auto simp: list_all_iff)
  with True show ?thesis by (simp add: rle_enc_def rle_dec_def unat_of_nat)
next
  case False
  then have "rle_enc x = 0 # x" unfolding rle_enc_def by (rule if_not_P)
  then show ?thesis by (simp add: rle_dec_def)
qed

lemma rle_codec_laws: "codec_laws rle_codecs"
  by (auto simp: codec_laws_def rle_codecs_def rle_dec_enc split: if_splits)

theorem compress_block_roundtrip_witness:
  "decompress_block rle_codecs (ZstdCompressor 3)
     (compress_block rle_codecs (ZstdCompressor 3) (replicate 9 7)) = Ok (replicate 9 7) \<and>
   compress_block rle_codecs (ZstdCompressor 3) (replicate 9 7) = [1, 1, 7, 9] \<and>
   decompress_block rle_codecs (ZstdCompressor 3)
     (compress_block rle_codecs (ZstdCompressor 3) [255, 1]) = Ok [255, 1]"
proof (intro conjI)
  show "compress_block rle_codecs (ZstdCompressor 3) (replicate 9 7) = [1, 1, 7, 9]"
    by code_simp
qed (use compress_block_roundtrip [OF rle_codec_laws, of "replicate 9 7" "ZstdCompressor 3"]
      compress_block_roundtrip [OF rle_codec_laws, of "[255, 1]" "ZstdCompressor 3"] in \<open>simp_all\<close>)

end
