(* ===== verification/Blockset.thy ===== *)
theory Blockset
  imports Prelude
begin

section \<open>The content-addressed storage library as a parameter\<close>

text \<open>
  The \<^verbatim>\<open>blockset\<close> library (a git submodule) stores byte sequences under 224-bit digests. The
  program uses it through \<^verbatim>\<open>State::push_all\<close>, \<^verbatim>\<open>file_storage_get\<close> and the incremental hasher
  \<^verbatim>\<open>State::default\<close> / \<^verbatim>\<open>push_bytes\<close> / \<^verbatim>\<open>end\<close>; these are the fields \<open>push_all\<close>, \<open>storage_get\<close>,
  \<open>st_default\<close>, \<open>st_push\<close>, \<open>st_end\<close> of the parameter \<open>B\<close>. The type \<open>'io\<close> is the storage (the
  files below the store root), \<open>'st\<close> the state of an incremental hash.

  Two more fields only serve the statements. \<open>bs_ok B io\<close> holds of a storage in whose history no
  write failed and no two different contents met the same digest. \<open>bs_absorbed B io st xs\<close> says
  that the incremental state \<open>st\<close> has consumed \<open>xs\<close>. \<open>blockset_laws\<close> is what the library
  documents: a digest names the content it was computed from, storing is append-only, the same
  content has the same digest, and the incremental interface computes what \<^verbatim>\<open>push_all\<close> does.
\<close>

record ('io, 'st) blockset =
  push_all :: "'io \<Rightarrow> bytes \<Rightarrow> 'io \<times> digest224"
  storage_get :: "'io \<Rightarrow> digest224 \<Rightarrow> bytes option"
  st_default :: 'st
  st_push :: "'io \<Rightarrow> 'st \<Rightarrow> bytes \<Rightarrow> bool \<times> 'io \<times> 'st" \<comment> \<open>the flag: an I/O error was recorded\<close>
  st_end :: "'io \<Rightarrow> 'st \<Rightarrow> 'io \<times> digest224"
  bs_ok :: "'io \<Rightarrow> bool"
  bs_absorbed :: "'io \<Rightarrow> 'st \<Rightarrow> bytes \<Rightarrow> bool"

text \<open>\<open>io'\<close> is a later state of \<open>io\<close>: all that was stored or absorbed still is.\<close>

definition bs_grows :: "('io, 'st) blockset \<Rightarrow> 'io \<Rightarrow> 'io \<Rightarrow> bool" where
  "bs_grows B io io' \<longleftrightarrow> (bs_ok B io' \<longrightarrow>
     bs_ok B io \<and>
     (\<forall>k v. storage_get B io k = Some v \<longrightarrow> storage_get B io' k = Some v) \<and>
     (\<forall>st xs. bs_absorbed B io st xs \<longrightarrow> bs_absorbed B io' st xs))"

text \<open>Storing \<open>xs\<close> from \<open>io\<close> gave digest \<open>d\<close> in storage \<open>io'\<close>.\<close>

definition bs_stored :: "('io, 'st) blockset \<Rightarrow> 'io \<Rightarrow> bytes \<Rightarrow> 'io \<times> digest224 \<Rightarrow> bool" where
  "bs_stored B io xs r \<longleftrightarrow> bs_grows B io (fst r) \<and> (bs_ok B (fst r) \<longrightarrow>
     storage_get B (fst r) (snd r) = Some xs \<and>
     (\<forall>k. storage_get B io k = Some xs \<longrightarrow> k = snd r))"

definition blockset_laws :: "('io, 'st) blockset \<Rightarrow> bool" where
  "blockset_laws B \<longleftrightarrow>
     (\<forall>io xs. bs_stored B io xs (push_all B io xs)) \<and>
     (\<forall>io. bs_absorbed B io (st_default B) []) \<and>
     (\<forall>io st xs ys e io' st'. st_push B io st ys = (e, io', st') \<longrightarrow> bs_grows B io io' \<and>
        (bs_ok B io' \<longrightarrow> \<not> e \<and> (bs_absorbed B io st xs \<longrightarrow> bs_absorbed B io' st' (xs @ ys)))) \<and>
     (\<forall>io st. bs_grows B io (fst (st_end B io st))) \<and>
     (\<forall>io st xs. bs_absorbed B io st xs \<longrightarrow> bs_stored B io xs (st_end B io st))"

lemma bs_grows_refl [simp]: "bs_grows B io io"
  by (simp add: bs_grows_def)

lemma bs_grows_trans: "bs_grows B io io' \<Longrightarrow> bs_grows B io' io'' \<Longrightarrow> bs_grows B io io''"
  by (simp add: bs_grows_def)

lemma bs_growsD:
  assumes "bs_grows B io io'" "bs_ok B io'"
  shows "bs_ok B io" "storage_get B io k = Some v \<Longrightarrow> storage_get B io' k = Some v"
    "bs_absorbed B io st xs \<Longrightarrow> bs_absorbed B io' st xs"
  using assms by (auto simp: bs_grows_def)

lemma push_all_stored: "blockset_laws B \<Longrightarrow> bs_stored B io xs (push_all B io xs)"
  by (simp add: blockset_laws_def)

lemma push_all_grows: "blockset_laws B \<Longrightarrow> push_all B io xs = (io', d) \<Longrightarrow> bs_grows B io io'"
  using push_all_stored [of B io xs] by (simp add: bs_stored_def)

lemma push_all_get:
  "blockset_laws B \<Longrightarrow> push_all B io xs = (io', d) \<Longrightarrow> bs_ok B io' \<Longrightarrow> storage_get B io' d = Some xs"
  using push_all_stored [of B io xs] by (simp add: bs_stored_def)

lemma push_all_known:
  "blockset_laws B \<Longrightarrow> push_all B io xs = (io', d) \<Longrightarrow> bs_ok B io' \<Longrightarrow>
   storage_get B io k = Some xs \<Longrightarrow> k = d"
  using push_all_stored [of B io xs] by (simp add: bs_stored_def)

lemma st_default_absorbed: "blockset_laws B \<Longrightarrow> bs_absorbed B io (st_default B) []"
  by (simp add: blockset_laws_def)

lemma st_push_grows: "blockset_laws B \<Longrightarrow> st_push B io st ys = (e, io', st') \<Longrightarrow> bs_grows B io io'"
  by (auto simp: blockset_laws_def)

lemma st_push_absorbed:
  "blockset_laws B \<Longrightarrow> st_push B io st ys = (e, io', st') \<Longrightarrow> bs_ok B io' \<Longrightarrow>
   bs_absorbed B io st xs \<Longrightarrow> \<not> e \<and> bs_absorbed B io' st' (xs @ ys)"
  unfolding blockset_laws_def by blast

lemma st_push_no_error:
  "blockset_laws B \<Longrightarrow> st_push B io st ys = (e, io', st') \<Longrightarrow> bs_ok B io' \<Longrightarrow> \<not> e"
  unfolding blockset_laws_def by blast

lemma st_end_grows: "blockset_laws B \<Longrightarrow> st_end B io st = (io', d) \<Longrightarrow> bs_grows B io io'"
  unfolding blockset_laws_def by (metis fst_conv)

lemma st_end_get:
  assumes "blockset_laws B" "st_end B io st = (io', d)" "bs_absorbed B io st xs" "bs_ok B io'"
  shows "storage_get B io' d = Some xs"
proof -
  have "bs_stored B io xs (st_end B io st)" using assms(1,3) by (simp add: blockset_laws_def)
  with assms show ?thesis by (simp add: bs_stored_def)
qed

subsection \<open>A concrete storage\<close>

text \<open>
  A list of the contents stored so far; a digest is the position of its content. It satisfies the
  laws and computes, so that the statements about the program can be applied to concrete runs.
\<close>

primrec index_of :: "bytes \<Rightarrow> bytes list \<Rightarrow> nat" where
  "index_of x [] = 0"
| "index_of x (y # ys) = (if x = y then 0 else Suc (index_of x ys))"

definition list_push :: "bytes list \<Rightarrow> bytes \<Rightarrow> bytes list \<times> digest224" where
  "list_push io xs = (if List.member io xs then io else io @ [xs],
     Digest224 (of_nat (index_of xs io)) 0 0 0 0 0 0)"

definition list_get :: "bytes list \<Rightarrow> digest224 \<Rightarrow> bytes option" where
  "list_get io d = (case d of Digest224 a b c e f g h \<Rightarrow>
     if unat a < length io \<and> b = 0 \<and> c = 0 \<and> e = 0 \<and> f = 0 \<and> g = 0 \<and> h = 0
     then Some (io ! unat a) else None)"

definition list_blockset :: "(bytes list, bytes) blockset" where
  "list_blockset =
     \<lparr>push_all = list_push, storage_get = list_get, st_default = [],
      st_push = (\<lambda>io st ys. (False, io, st @ ys)), st_end = list_push,
      bs_ok = (\<lambda>io. distinct io \<and> length io < 4294967296),
      bs_absorbed = (\<lambda>io st xs. st = xs)\<rparr>"

lemma index_of_member: "x \<in> set io \<Longrightarrow> index_of x io < length io \<and> io ! index_of x io = x"
  by (induction io) auto

lemma index_of_notin: "x \<notin> set io \<Longrightarrow> index_of x io = length io"
  by (induction io) auto

lemma index_of_nth: "distinct io \<Longrightarrow> i < length io \<Longrightarrow> index_of (io ! i) io = i"
  by (induction io arbitrary: i) (auto simp: nth_Cons split: nat.splits)

lemma list_push_stored: "bs_stored list_blockset io xs (list_push io xs)"
proof (cases "xs \<in> set io")
  case True
  note idx = index_of_member [OF True]
  show ?thesis
    using True idx
    by (auto simp: bs_stored_def bs_grows_def list_blockset_def list_push_def list_get_def unat_of_nat
        index_of_nth word_unat_eq_iff split: digest224.splits)
next
  case False
  then show ?thesis
    by (auto simp: bs_stored_def bs_grows_def list_blockset_def list_push_def list_get_def unat_of_nat
        index_of_notin nth_append word_unat_eq_iff in_set_conv_nth split: digest224.splits if_splits)
qed

lemma list_blockset_laws: "blockset_laws list_blockset"
proof -
  have sel: "push_all list_blockset = list_push" "st_end list_blockset = list_push"
    "st_default list_blockset = []" "st_push list_blockset io st ys = (False, io, st @ ys)"
    "bs_absorbed list_blockset io st xs \<longleftrightarrow> st = xs" for io st xs ys
    by (simp_all add: list_blockset_def)
  show ?thesis
    using list_push_stored by (auto simp: blockset_laws_def sel bs_stored_def)
qed

end
