(* ===== verification/Metadata_Codecs.thy ===== *)
theory Metadata_Codecs
  imports Blockset
begin

section \<open>Metadata records and their byte formats\<close>

text \<open>
  \<^verbatim>\<open>slicefs_traits::metadata\<close> (errors, inode records) and the codecs of \<^verbatim>\<open>crates/metadata\<close>:
  \<^verbatim>\<open>inode.rs\<close>, \<^verbatim>\<open>inode_map.rs\<close>, \<^verbatim>\<open>manifest.rs\<close>, \<^verbatim>\<open>xattr.rs\<close>. For each: serialisation,
  deserialisation with every error branch, the functions that put the bytes into the storage
  and load them back, and the round trips. The texts of \<^verbatim>\<open>MetaError::Corrupted\<close> are kept up to the
  numbers that are formatted into them.
\<close>

datatype meta_error =
    NotFound u64
  | AlreadyExists u64
  | NotADirectory u64
  | IsADirectory u64
  | NotEmpty u64
  | InvalidName rstring
  | Corrupted string
  | MetaIo

record inode_meta =
  ino :: u64
  mode :: u32
  uid :: u32
  gid :: u32
  nlinks :: u32
  size :: u64
  mtime_sec :: i64
  mtime_nsec :: u32
  ctime_sec :: i64
  ctime_nsec :: u32

definition new_directory :: "u64 \<Rightarrow> u32 \<Rightarrow> u32 \<Rightarrow> u32 \<Rightarrow> inode_meta" where
  "new_directory i u g m = \<lparr>ino = i, mode = m, uid = u, gid = g, nlinks = 2, size = 0,
     mtime_sec = 0, mtime_nsec = 0, ctime_sec = 0, ctime_nsec = 0\<rparr>"

definition new_file :: "u64 \<Rightarrow> u32 \<Rightarrow> u32 \<Rightarrow> u32 \<Rightarrow> inode_meta" where
  "new_file i u g m = \<lparr>ino = i, mode = m, uid = u, gid = g, nlinks = 1, size = 0,
     mtime_sec = 0, mtime_nsec = 0, ctime_sec = 0, ctime_nsec = 0\<rparr>"

text \<open>Loading a stored node and decoding it: what all the \<^verbatim>\<open>load_*\<close> functions do.\<close>

definition load_node ::
  "('io, 'st) blockset \<Rightarrow> string \<Rightarrow> (bytes \<Rightarrow> meta_error + 'a) \<Rightarrow> 'io \<Rightarrow> digest224 \<Rightarrow> meta_error + 'a" where
  "load_node B missing decode io key =
     (case storage_get B io key of None \<Rightarrow> Err (Corrupted missing) | Some bytes \<Rightarrow> decode bytes)"

lemma load_node_stored:
  "storage_get B io key = Some bytes \<Longrightarrow> load_node B missing decode io key = decode bytes"
  by (simp add: load_node_def)

subsection \<open>Inodes\<close>

definition serialize_inode :: "inode_meta \<Rightarrow> bytes" where
  "serialize_inode m =
     u64_to_le (ino m) @ u32_to_le (mode m) @ u32_to_le (uid m) @ u32_to_le (gid m) @
     u32_to_le (nlinks m) @ u64_to_le (size m) @ u64_to_le (mtime_sec m) @ u32_to_le (mtime_nsec m) @
     u64_to_le (ctime_sec m) @ u32_to_le (ctime_nsec m)"

definition deserialize_inode :: "bytes \<Rightarrow> meta_error + inode_meta" where
  "deserialize_inode buf =
     (if length buf \<noteq> 56 then Err (Corrupted ''expected 56 bytes'')
      else Ok
        \<lparr>ino = u64_from_le (slice buf 0 8),
         mode = u32_from_le (slice buf 8 12),
         uid = u32_from_le (slice buf 12 16),
         gid = u32_from_le (slice buf 16 20),
         nlinks = u32_from_le (slice buf 20 24),
         size = u64_from_le (slice buf 24 32),
         mtime_sec = u64_from_le (slice buf 32 40),
         mtime_nsec = u32_from_le (slice buf 40 44),
         ctime_sec = u64_from_le (slice buf 44 52),
         ctime_nsec = u32_from_le (slice buf 52 56)\<rparr>)"

definition intern_inode :: "('io, 'st) blockset \<Rightarrow> 'io \<Rightarrow> inode_meta \<Rightarrow> 'io \<times> digest224" where
  "intern_inode B io m = push_all B io (serialize_inode m)"

definition load_inode :: "('io, 'st) blockset \<Rightarrow> 'io \<Rightarrow> digest224 \<Rightarrow> meta_error + inode_meta" where
  "load_inode B = load_node B ''missing inode node'' deserialize_inode"

lemma length_serialize_inode [simp]: "length (serialize_inode m) = 56"
  by (simp add: serialize_inode_def)

lemma deserialize_serialize_inode [codec_simps]: "deserialize_inode (serialize_inode m) = Ok m"
  by (simp add: deserialize_inode_def serialize_inode_def slice_appends)

lemma serialize_deserialize_inode: "deserialize_inode buf = Ok m \<Longrightarrow> serialize_inode m = buf"
  by (auto simp: deserialize_inode_def serialize_inode_def u32_to_from_le u64_to_from_le
      slice_glue slice_glue_append slice_all split: if_splits)

lemma serialize_inode_inj [simp]: "serialize_inode m = serialize_inode m' \<longleftrightarrow> m = m'"
  using deserialize_serialize_inode by (metis sum.inject(2))

subsection \<open>The inode map\<close>

record inode_map =
  im_map :: "(u64, digest224) btree"
  im_next_ino :: u64

definition inode_map_new :: inode_map where
  "inode_map_new = \<lparr>im_map = [], im_next_ino = 2\<rparr>"

definition allocate_ino :: "inode_map \<Rightarrow> inode_map \<times> u64" where
  "allocate_ino m = (m\<lparr>im_next_ino := im_next_ino m + 1\<rparr>, im_next_ino m)"

definition im_insert :: "u64 \<Rightarrow> digest224 \<Rightarrow> inode_map \<Rightarrow> inode_map" where
  "im_insert i d m = m\<lparr>im_map := bt_insert i d (im_map m)\<rparr>"

definition im_get :: "inode_map \<Rightarrow> u64 \<Rightarrow> digest224 option" where
  "im_get m i = bt_get (im_map m) i"

definition im_remove :: "u64 \<Rightarrow> inode_map \<Rightarrow> inode_map" where
  "im_remove i m = m\<lparr>im_map := bt_remove i (im_map m)\<rparr>"

definition set_next_ino :: "u64 \<Rightarrow> inode_map \<Rightarrow> inode_map" where
  "set_next_ino v m = m\<lparr>im_next_ino := v\<rparr>"

definition enc_ino_digest :: "u64 \<times> digest224 \<Rightarrow> bytes" where
  "enc_ino_digest r = u64_to_le (fst r) @ digest_to_le (snd r)"

definition dec_ino_digest :: "bytes \<Rightarrow> u64 \<times> digest224" where
  "dec_ino_digest bs = (u64_from_le (slice bs 0 8), digest_from_le (slice bs 8 36))"

definition serialize_inode_map :: "inode_map \<Rightarrow> bytes" where
  "serialize_inode_map m = concat (map enc_ino_digest (im_map m))"

definition deserialize_inode_map :: "bytes \<Rightarrow> meta_error + inode_map" where
  "deserialize_inode_map bytes =
     (if length bytes mod 36 \<noteq> 0 then Err (Corrupted ''inode map: expected multiple-of-36 bytes'')
      else let records = dec_records 36 dec_ino_digest (length bytes div 36) bytes;
               max_ino = fold (\<lambda>(i, _) m. if i > m then i else m) records 1
      in Ok \<lparr>im_map = bt_of_list records, im_next_ino = max_ino + 1\<rparr>)"

definition intern_inode_map :: "('io, 'st) blockset \<Rightarrow> 'io \<Rightarrow> inode_map \<Rightarrow> 'io \<times> digest224" where
  "intern_inode_map B io m = push_all B io (serialize_inode_map m)"

definition load_inode_map :: "('io, 'st) blockset \<Rightarrow> 'io \<Rightarrow> digest224 \<Rightarrow> meta_error + inode_map" where
  "load_inode_map B = load_node B ''missing inode_map node'' deserialize_inode_map"

lemma length_enc_ino_digest [simp]: "length (enc_ino_digest r) = 36"
  by (simp add: enc_ino_digest_def)

lemma dec_enc_ino_digest [codec_simps]: "dec_ino_digest (enc_ino_digest r) = r"
  by (simp add: enc_ino_digest_def dec_ino_digest_def slice_appends)

lemma dec_enc_ino_digests:
  "dec_records 36 dec_ino_digest (length rs) (concat (map enc_ino_digest rs) @ r) = rs"
  by (rule dec_enc_records) (simp_all add: codec_simps)

lemma length_enc_ino_digests [simp]: "length (concat (map enc_ino_digest rs)) = length rs * 36"
  by (rule length_enc_records) simp

lemma length_serialize_inode_map [simp]: "length (serialize_inode_map m) = 36 * length (im_map m)"
  by (simp add: serialize_inode_map_def)

text \<open>The map comes back exactly; the allocator comes back as one more than the largest key.\<close>

lemma deserialize_serialize_inode_map:
  assumes "bt_sorted (im_map m)"
  shows "deserialize_inode_map (serialize_inode_map m) =
    Ok \<lparr>im_map = im_map m, im_next_ino = fold (\<lambda>(i, _) m. if i > m then i else m) (im_map m) 1 + 1\<rparr>"
  using assms dec_enc_ino_digests [of "im_map m" "[]"]
  by (simp add: deserialize_inode_map_def serialize_inode_map_def bt_of_list_id Let_def)

subsection \<open>Manifests\<close>

definition serialize_manifest :: "digest224 list \<Rightarrow> bytes" where
  "serialize_manifest blocks = concat (map digest_to_le blocks)"

definition deserialize_manifest :: "bytes \<Rightarrow> meta_error + digest224 list" where
  "deserialize_manifest bytes =
     (if length bytes mod 28 \<noteq> 0 then Err (Corrupted ''manifest: expected multiple-of-28 bytes'')
      else Ok (dec_records 28 digest_from_le (length bytes div 28) bytes))"

definition intern_manifest :: "('io, 'st) blockset \<Rightarrow> 'io \<Rightarrow> digest224 list \<Rightarrow> 'io \<times> digest224" where
  "intern_manifest B io blocks = push_all B io (serialize_manifest blocks)"

definition load_manifest :: "('io, 'st) blockset \<Rightarrow> 'io \<Rightarrow> digest224 \<Rightarrow> meta_error + digest224 list" where
  "load_manifest B = load_node B ''missing manifest node'' deserialize_manifest"

lemma deserialize_serialize_manifest [codec_simps]:
  "deserialize_manifest (serialize_manifest blocks) = Ok blocks"
proof -
  have "length (serialize_manifest blocks) = length blocks * 28"
    unfolding serialize_manifest_def by (rule length_enc_records) simp
  moreover have "dec_records 28 digest_from_le (length blocks) (serialize_manifest blocks @ []) = blocks"
    unfolding serialize_manifest_def by (rule dec_enc_records) simp_all
  ultimately show ?thesis by (simp add: deserialize_manifest_def)
qed

lemma serialize_deserialize_manifest:
  assumes "deserialize_manifest bytes = Ok blocks"
  shows "serialize_manifest blocks = bytes"
proof -
  from assms have "length bytes = length bytes div 28 * 28"
    and "blocks = dec_records 28 digest_from_le (length bytes div 28) bytes"
    by (auto simp: deserialize_manifest_def split: if_splits)
  then show ?thesis
    using enc_dec_records [of 28 digest_to_le digest_from_le bytes "length bytes div 28"]
    by (simp add: serialize_manifest_def digest_to_from_le)
qed

subsection \<open>Extended attributes\<close>

type_synonym xattrs = "(rstring \<times> bytes) list"

text \<open>A length-prefixed byte string, and its reader: the rest of the input and the string.\<close>

definition enc_prefixed :: "bytes \<Rightarrow> bytes" where
  "enc_prefixed xs = u32_to_le (of_nat (length xs)) @ xs"

definition serialize_xattrs :: "xattrs \<Rightarrow> bytes" where
  "serialize_xattrs xattrs = concat (map (\<lambda>(name, val). enc_prefixed name @ enc_prefixed val) xattrs)"

definition dec_prefixed :: "string \<Rightarrow> string \<Rightarrow> bytes \<Rightarrow> meta_error + (bytes \<times> bytes)" where
  "dec_prefixed at_len at_bytes bs =
     (if length bs < 4 then Err (Corrupted at_len)
      else let n = unat (u32_from_le (take 4 bs)); bs = drop 4 bs in
        if length bs < n then Err (Corrupted at_bytes) else Ok (take n bs, drop n bs))"

lemma dec_prefixed_shorter: "dec_prefixed a b bs = Ok (x, bs') \<Longrightarrow> length bs' < length bs"
  by (auto simp: dec_prefixed_def Let_def split: if_splits)

function deserialize_xattrs :: "bytes \<Rightarrow> meta_error + xattrs" where
  "deserialize_xattrs bs =
     (if bs = [] then Ok []
      else case dec_prefixed ''xattr: truncated at name_len'' ''xattr: truncated at name bytes'' bs of
        Err e \<Rightarrow> Err e
      | Ok (name_bytes, bs1) \<Rightarrow>
          (case from_utf8 name_bytes of
             None \<Rightarrow> Err (Corrupted ''xattr name not utf-8'')
           | Some name \<Rightarrow>
               (case dec_prefixed ''xattr: truncated at value_len'' ''xattr: truncated at value bytes'' bs1 of
                  Err e \<Rightarrow> Err e
                | Ok (val, bs2) \<Rightarrow>
                    (case deserialize_xattrs bs2 of
                       Err e \<Rightarrow> Err e
                     | Ok xs \<Rightarrow> Ok ((name, val) # xs)))))"
  by pat_completeness auto
termination
  by (relation "measure length") (auto dest!: dec_prefixed_shorter)

declare deserialize_xattrs.simps [simp del]

definition intern_xattrs :: "('io, 'st) blockset \<Rightarrow> 'io \<Rightarrow> xattrs \<Rightarrow> 'io \<times> digest224" where
  "intern_xattrs B io xattrs = push_all B io (serialize_xattrs xattrs)"

definition load_xattrs :: "('io, 'st) blockset \<Rightarrow> 'io \<Rightarrow> digest224 \<Rightarrow> meta_error + xattrs" where
  "load_xattrs B = load_node B ''missing xattr node'' deserialize_xattrs"

fun set_xattr_entry :: "rstring \<Rightarrow> bytes \<Rightarrow> xattrs \<Rightarrow> xattrs" where
  "set_xattr_entry name val [] = [(name, val)]"
| "set_xattr_entry name val ((k, v) # xs) =
     (if k = name then (k, val) # xs else (k, v) # set_xattr_entry name val xs)"

definition get_xattr_entry :: "xattrs \<Rightarrow> rstring \<Rightarrow> bytes option" where
  "get_xattr_entry xattrs name = map_option snd (find (\<lambda>(k, _). k = name) xattrs)"

definition list_xattr_names :: "xattrs \<Rightarrow> rstring list" where
  "list_xattr_names xattrs = map fst xattrs"

definition remove_xattr_entry :: "rstring \<Rightarrow> xattrs \<Rightarrow> xattrs \<times> bool" where
  "remove_xattr_entry name xattrs =
     (let kept = filter (\<lambda>(k, _). k \<noteq> name) xattrs in (kept, length kept < length xattrs))"

text \<open>An attribute list that the format can represent: UTF-8 names, 32-bit lengths, and one entry per name.\<close>

definition xattrs_ok :: "xattrs \<Rightarrow> bool" where
  "xattrs_ok xs \<longleftrightarrow> distinct (map fst xs) \<and>
     (\<forall>(name, val) \<in> set xs. utf8_valid name \<and> length name < 2 ^ 32 \<and> length val < 2 ^ 32)"

lemma dec_enc_prefixed [codec_simps]:
  "length xs < 2 ^ 32 \<Longrightarrow> dec_prefixed a b (enc_prefixed xs @ r) = Ok (xs, r)"
  by (simp add: dec_prefixed_def enc_prefixed_def unat_of_nat)

lemma enc_dec_prefixed:
  assumes "dec_prefixed a b bs = Ok (xs, r)"
  shows "enc_prefixed xs @ r = bs \<and> length xs < 2 ^ 32"
proof -
  let ?n = "unat (u32_from_le (take 4 bs))"
  from assms have bs: "4 \<le> length bs" "?n \<le> length bs - 4" and xs: "xs = take ?n (drop 4 bs)" "r = drop ?n (drop 4 bs)"
    by (auto simp: dec_prefixed_def Let_def split: if_splits)
  then have "length xs = ?n" by simp
  then have "enc_prefixed xs = take 4 bs @ xs"
    using bs by (simp add: enc_prefixed_def u32_to_from_le)
  moreover have "length xs < 2 ^ 32" using \<open>length xs = ?n\<close> unat_u32_less by simp
  moreover have "xs @ r = drop 4 bs" using xs by (simp only: append_take_drop_id)
  ultimately show ?thesis by simp
qed

lemma enc_prefixed_nonempty [simp]: "enc_prefixed xs \<noteq> []"
  by (simp add: enc_prefixed_def)

lemma deserialize_serialize_xattrs [codec_simps]:
  assumes "xattrs_ok xs"
  shows "deserialize_xattrs (serialize_xattrs xs) = Ok xs"
  using assms
proof (induction xs)
  case Nil
  then show ?case by (simp add: serialize_xattrs_def deserialize_xattrs.simps)
next
  case (Cons x xs)
  obtain name val where x: "x = (name, val)" by (cases x)
  have "deserialize_xattrs (serialize_xattrs xs) = Ok xs"
    using Cons by (simp add: xattrs_ok_def)
  moreover have "serialize_xattrs (x # xs) = enc_prefixed name @ enc_prefixed val @ serialize_xattrs xs"
    by (simp add: serialize_xattrs_def x)
  ultimately show ?case
    using Cons.prems
    by (subst deserialize_xattrs.simps) (simp add: x xattrs_ok_def dec_enc_prefixed)
qed

lemma serialize_deserialize_xattrs: "deserialize_xattrs bs = Ok xs \<Longrightarrow> serialize_xattrs xs = bs"
proof (induction bs arbitrary: xs rule: deserialize_xattrs.induct)
  case (1 bs)
  show ?case
  proof (cases "bs = []")
    case True
    with "1.prems" [unfolded deserialize_xattrs.simps [of bs]] have "xs = []" by simp
    with True show ?thesis by (simp add: serialize_xattrs_def)
  next
    case False
    let ?p1 = "dec_prefixed ''xattr: truncated at name_len'' ''xattr: truncated at name bytes''"
    let ?p2 = "dec_prefixed ''xattr: truncated at value_len'' ''xattr: truncated at value bytes''"
    note eq = "1.prems" [unfolded deserialize_xattrs.simps [of bs]]
    from eq False obtain name bs1 where p1: "?p1 bs = Ok (name, bs1)"
      by (cases "?p1 bs") auto
    from eq False p1 have u: "from_utf8 name = Some name"
      by (cases "from_utf8 name") (auto dest: from_utf8_SomeD)
    from eq False p1 u obtain val bs2 where p2: "?p2 bs1 = Ok (val, bs2)"
      by (cases "?p2 bs1") auto
    from eq False p1 u p2 obtain ys where rest: "deserialize_xattrs bs2 = Ok ys" and xs: "xs = (name, val) # ys"
      by (cases "deserialize_xattrs bs2") auto
    have ys: "serialize_xattrs ys = bs2"
      by (rule "1.IH" [OF False p1 refl u p2 refl rest])
    have "serialize_xattrs xs = enc_prefixed name @ enc_prefixed val @ serialize_xattrs ys"
      by (simp add: serialize_xattrs_def xs)
    then show ?thesis
      using enc_dec_prefixed [OF p1] enc_dec_prefixed [OF p2] by (simp only: ys)
  qed
qed

lemma get_xattr_entry_map_of: "get_xattr_entry xs = map_of xs"
proof
  fix name
  show "get_xattr_entry xs name = map_of xs name"
    by (induction xs) (auto simp: get_xattr_entry_def)
qed

lemma map_of_set_xattr_entry: "map_of (set_xattr_entry name val xs) = (map_of xs)(name \<mapsto> val)"
  by (induction name val xs rule: set_xattr_entry.induct) (auto simp: fun_eq_iff)

lemma set_xattr_entry_names:
  "set (map fst (set_xattr_entry name val xs)) = insert name (set (map fst xs))"
  by (induction name val xs rule: set_xattr_entry.induct) auto

lemma set_xattr_entry_distinct:
  "distinct (map fst xs) \<Longrightarrow> distinct (map fst (set_xattr_entry name val xs))"
proof (induction name val xs rule: set_xattr_entry.induct)
  case (2 name val k v xs)
  then show ?case using set_xattr_entry_names [of name val xs] by (cases "k = name") auto
qed simp

lemma set_xattr_entry_set: "set (set_xattr_entry name val xs) \<subseteq> insert (name, val) (set xs)"
  by (induction name val xs rule: set_xattr_entry.induct) auto

lemma set_xattr_entry_ok:
  assumes "utf8_valid name" "length name < 2 ^ 32" "length val < 2 ^ 32" "xattrs_ok xs"
  shows "xattrs_ok (set_xattr_entry name val xs)"
  unfolding xattrs_ok_def
proof
  show "distinct (map fst (set_xattr_entry name val xs))"
    using assms(4) by (simp add: xattrs_ok_def set_xattr_entry_distinct)
  show "\<forall>(n, v) \<in> set (set_xattr_entry name val xs).
      utf8_valid n \<and> length n < 2 ^ 32 \<and> length v < 2 ^ 32"
    using assms set_xattr_entry_set [of name val xs] unfolding xattrs_ok_def by blast
qed

lemma map_of_remove_xattr_entry: "map_of (fst (remove_xattr_entry name xs)) = (map_of xs)(name := None)"
proof -
  have "map_of (filter (\<lambda>(k, _). k \<noteq> name) xs) = (map_of xs)(name := None)"
    by (induction xs) (auto simp: fun_eq_iff)
  then show ?thesis by (simp add: remove_xattr_entry_def Let_def)
qed

lemma remove_xattr_entry_found: "snd (remove_xattr_entry name xs) \<longleftrightarrow> map_of xs name \<noteq> None"
proof (cases "\<exists>v. (name, v) \<in> set xs")
  case True
  then obtain v where v: "(name, v) \<in> set xs" by blast
  then have "length (filter (\<lambda>(k, _). k \<noteq> name) xs) < length xs"
    by (intro length_filter_less) auto
  moreover have "map_of xs name \<noteq> None" using weak_map_of_SomeI [OF v] by simp
  ultimately show ?thesis by (simp add: remove_xattr_entry_def Let_def)
next
  case False
  then have "filter (\<lambda>(k, _). k \<noteq> name) xs = xs" by (intro filter_True) auto
  moreover have "map_of xs name = None" using False by (auto simp: map_of_eq_None_iff)
  ultimately show ?thesis by (simp add: remove_xattr_entry_def Let_def)
qed

lemma remove_xattr_entry_ok: "xattrs_ok xs \<Longrightarrow> xattrs_ok (fst (remove_xattr_entry name xs))"
  unfolding xattrs_ok_def remove_xattr_entry_def Let_def
  by (simp add: distinct_map_filter)

subsection \<open>Properties\<close>

text \<open>
  C38. The inode and manifest codecs are exact in both directions: every record reads back as it was
  written, and every byte string the decoder accepts is the encoding of what it returns; byte
  strings of a wrong length are refused.
\<close>

theorem inode_manifest_codec:
  "deserialize_inode (serialize_inode m) = Ok m \<and> deserialize_manifest (serialize_manifest blocks) = Ok blocks \<and>
   (case deserialize_inode buf of Ok m' \<Rightarrow> serialize_inode m' = buf | Err _ \<Rightarrow> length buf \<noteq> 56) \<and>
   (case deserialize_manifest buf of Ok bs \<Rightarrow> serialize_manifest bs = buf | Err _ \<Rightarrow> length buf mod 28 \<noteq> 0)"
proof (intro conjI)
  show "case deserialize_inode buf of Ok m' \<Rightarrow> serialize_inode m' = buf | Err _ \<Rightarrow> length buf \<noteq> 56"
    using serialize_deserialize_inode [of buf] by (auto simp: deserialize_inode_def split: sum.splits)
  show "case deserialize_manifest buf of Ok bs \<Rightarrow> serialize_manifest bs = buf | Err _ \<Rightarrow> length buf mod 28 \<noteq> 0"
    using serialize_deserialize_manifest [of buf] by (auto simp: deserialize_manifest_def split: sum.splits)
qed (simp_all add: codec_simps)

text \<open>
  C39. Extended attributes: a list with UTF-8 names and 32-bit lengths reads back as it was written,
  and whatever the parser accepts, from any bytes, is exactly what the bytes encode. Setting,
  reading and removing an entry act as updates of a finite map and keep the list storable.
\<close>

theorem xattr_codec:
  assumes "xattrs_ok xs" "utf8_valid name" "length name < 2 ^ 32" "length val < 2 ^ 32"
  shows "deserialize_xattrs (serialize_xattrs xs) = Ok xs \<and>
    (\<forall>bs ys. deserialize_xattrs bs = Ok ys \<longrightarrow> serialize_xattrs ys = bs) \<and>
    xattrs_ok (set_xattr_entry name val xs) \<and>
    get_xattr_entry (set_xattr_entry name val xs) = (get_xattr_entry xs)(name \<mapsto> val) \<and>
    get_xattr_entry (fst (remove_xattr_entry name xs)) = (get_xattr_entry xs)(name := None) \<and>
    (snd (remove_xattr_entry name xs) \<longleftrightarrow> get_xattr_entry xs name \<noteq> None)"
  using assms serialize_deserialize_xattrs
  by (simp add: deserialize_serialize_xattrs set_xattr_entry_ok get_xattr_entry_map_of map_of_set_xattr_entry
      map_of_remove_xattr_entry remove_xattr_entry_found del: fun_upd_apply)

theorem xattr_codec_witness:
  "deserialize_xattrs (serialize_xattrs [(str ''user.a'', [1, 2])]) = Ok [(str ''user.a'', [1, 2])] \<and>
   get_xattr_entry (set_xattr_entry (str ''user.b'') [3] [(str ''user.a'', [1, 2])]) (str ''user.a'') = Some [1, 2]"
proof -
  have "utf8_valid (str ''user.a'')" "utf8_valid (str ''user.b'')" "str ''user.a'' \<noteq> str ''user.b''"
    by code_simp+
  moreover have "length (str ''user.a'') = 6" "length (str ''user.b'') = 6" by (simp_all add: str_def)
  ultimately show ?thesis
    using xattr_codec [of "[(str ''user.a'', [1, 2])]" "str ''user.b''" "[3]"]
    by (simp add: xattrs_ok_def get_xattr_entry_def)
qed

end
