(* ===== verification/Segment.thy ===== *)
theory Segment
  imports Metadata_Codecs
begin

section \<open>Segment files\<close>

text \<open>
  \<^verbatim>\<open>crates/metadata/src/segment\<close>: the append-only log that records root updates and snapshots.
  The format (\<^verbatim>\<open>mod.rs\<close>), the writer (\<^verbatim>\<open>writer.rs\<close>), the crash-tolerant reader (\<^verbatim>\<open>reader.rs\<close>),
  and the replay of a directory of segments (\<^verbatim>\<open>load_store_from_segments\<close>).

  The writer keeps the bytes in its \<^verbatim>\<open>BufWriter\<close> apart from those in the file. After a crash the file holds any
  prefix of what it received that covers the synced part: data passes through the page cache in order.
\<close>

subsection \<open>Format\<close>

datatype record_type = RtRootUpdate | RtSnapshotRecord | RtEofMarker

primrec record_byte :: "record_type \<Rightarrow> byte" where
  "record_byte RtRootUpdate = 0x02"
| "record_byte RtSnapshotRecord = 0x03"
| "record_byte RtEofMarker = 0xFF"

definition record_from_u8 :: "byte \<Rightarrow> record_type option" where
  "record_from_u8 v =
     (if v = 0x01 then None else if v = 0x02 then Some RtRootUpdate
      else if v = 0x03 then Some RtSnapshotRecord else if v = 0xFF then Some RtEofMarker else None)"

definition SEGMENT_MAGIC :: bytes where "SEGMENT_MAGIC = [0x53, 0x4C, 0x53, 0x47]"

definition SEGMENT_VERSION :: u32 where "SEGMENT_VERSION = 1"

record segment_header =
  sh_magic :: bytes
  sh_version :: u32
  sh_segment_id :: u64

definition header_new :: "u64 \<Rightarrow> segment_header" where
  "header_new segment_id =
     \<lparr>sh_magic = SEGMENT_MAGIC, sh_version = SEGMENT_VERSION, sh_segment_id = segment_id\<rparr>"

definition header_to_bytes :: "segment_header \<Rightarrow> bytes" where
  "header_to_bytes h = sh_magic h @ u32_to_le (sh_version h) @ u64_to_le (sh_segment_id h)"

definition header_from_bytes :: "bytes \<Rightarrow> segment_header option" where
  "header_from_bytes buf =
     (let magic = slice buf 0 4 in
      if magic \<noteq> SEGMENT_MAGIC then None
      else let version = u32_from_le (slice buf 4 8) in
      if version \<noteq> SEGMENT_VERSION then None
      else Some \<lparr>sh_magic = magic, sh_version = version, sh_segment_id = u64_from_le (slice buf 8 16)\<rparr>)"

record snapshot_entry =
  se_version :: u64
  se_name :: "rstring option"
  se_root :: digest224
  se_created_at :: u64

datatype segment_entry =
    RootUpdate digest224
  | SnapshotRecord u64 digest224 u64 "rstring option"

primrec entry_record_type :: "segment_entry \<Rightarrow> record_type" where
  "entry_record_type (RootUpdate root) = RtRootUpdate"
| "entry_record_type (SnapshotRecord version root created_at name) = RtSnapshotRecord"

primrec payload_bytes :: "segment_entry \<Rightarrow> bytes" where
  "payload_bytes (RootUpdate root) = digest_to_le root"
| "payload_bytes (SnapshotRecord version root created_at name) =
     (let name_bytes = (case name of Some n \<Rightarrow> n | None \<Rightarrow> []) in
      u64_to_le version @ digest_to_le root @ u64_to_le created_at @
      u32_to_le (of_nat (length name_bytes)) @ name_bytes)"

definition parse_root_update :: "bytes \<Rightarrow> segment_entry option" where
  "parse_root_update payload =
     (if length payload < 28 then None else Some (RootUpdate (digest_from_le (slice payload 0 28))))"

definition parse_snapshot_record :: "bytes \<Rightarrow> segment_entry option" where
  "parse_snapshot_record payload =
     (if length payload < 48 then None
      else let version = u64_from_le (slice payload 0 8);
               root = digest_from_le (slice payload 8 36);
               created_at = u64_from_le (slice payload 36 44);
               name_len = unat (u32_from_le (slice payload 44 48)) in
      if length payload < 48 + name_len then None
      else if name_len = 0 then Some (SnapshotRecord version root created_at None)
      else case from_utf8 (slice payload 48 (48 + name_len)) of
        None \<Rightarrow> None
      | Some name \<Rightarrow> Some (SnapshotRecord version root created_at (Some name)))"

fun as_snapshot_entry :: "segment_entry \<Rightarrow> snapshot_entry option" where
  "as_snapshot_entry (SnapshotRecord version root created_at name) =
     Some \<lparr>se_version = version, se_name = name, se_root = root, se_created_at = created_at\<rparr>"
| "as_snapshot_entry (RootUpdate root) = None"

subsection \<open>Writer\<close>

text \<open>
  A writer has the bytes the file has received, the bytes its \<^verbatim>\<open>BufWriter\<close> still holds, and the length of the
  part of the file that has been synced. The budget of a call is the number of bytes the disk still accepts
  (\<open>None\<close>: no failure); a write beyond it hands over what fits and fails. An operation returns its result, the
  budget that is left, and the writer.
\<close>

datatype io_error = IoError | InvalidHeader

record segment_writer =
  sw_file :: bytes
  sw_buffer :: bytes
  sw_synced :: nat

type_synonym writer_result = "(io_error + unit) \<times> nat option \<times> segment_writer"

text \<open>The capacity of a \<^verbatim>\<open>BufWriter\<close> made by \<^verbatim>\<open>BufWriter::new\<close>.\<close>

definition buf_capacity :: nat where
  "buf_capacity = 8192"

definition accepted :: "nat option \<Rightarrow> bytes \<Rightarrow> nat" where
  "accepted budget bs = (case budget of None \<Rightarrow> length bs | Some n \<Rightarrow> min n (length bs))"

text \<open>\<^verbatim>\<open>File::write_all\<close>.\<close>

definition file_write_all :: "nat option \<Rightarrow> bytes \<Rightarrow> segment_writer \<Rightarrow> writer_result" where
  "file_write_all budget bs w =
     (let n = accepted budget bs
      in (if n < length bs then Err IoError else Ok (), map_option (\<lambda>m. m - n) budget, w\<lparr>sw_file := sw_file w @ take n bs\<rparr>))"

text \<open>\<^verbatim>\<open>BufWriter::flush_buf\<close>: what the file did not take stays in the buffer.\<close>

definition flush_buf :: "nat option \<Rightarrow> segment_writer \<Rightarrow> writer_result" where
  "flush_buf budget w =
     (let n = accepted budget (sw_buffer w)
      in (if n < length (sw_buffer w) then Err IoError else Ok (), map_option (\<lambda>m. m - n) budget,
          w\<lparr>sw_file := sw_file w @ take n (sw_buffer w), sw_buffer := drop n (sw_buffer w)\<rparr>))"

text \<open>\<^verbatim>\<open>BufWriter::write_all\<close>: bytes that do not fit make it flush first, and long ones go to the file at once.\<close>

definition write_all :: "nat option \<Rightarrow> bytes \<Rightarrow> segment_writer \<Rightarrow> writer_result" where
  "write_all budget bs w =
     (let spare = buf_capacity - length (sw_buffer w) in
      if length bs < spare then (Ok (), budget, w\<lparr>sw_buffer := sw_buffer w @ bs\<rparr>)
      else case (if length bs > spare then flush_buf budget w else (Ok (), budget, w)) of
        (Err e, budget, w) \<Rightarrow> (Err e, budget, w)
      | (Ok _, budget, w) \<Rightarrow>
          if length bs \<ge> buf_capacity then file_write_all budget bs w
          else (Ok (), budget, w\<lparr>sw_buffer := sw_buffer w @ bs\<rparr>))"

text \<open>The header goes to the buffer; the file itself is created empty.\<close>

definition writer_new :: "u64 \<Rightarrow> segment_writer" where
  "writer_new segment_id = \<lparr>sw_file = [], sw_buffer = header_to_bytes (header_new segment_id), sw_synced = 0\<rparr>"

text \<open>One write after the other, the rest only when the one before succeeded.\<close>

fun write_parts :: "nat option \<Rightarrow> bytes list \<Rightarrow> segment_writer \<Rightarrow> writer_result" where
  "write_parts budget [] w = (Ok (), budget, w)"
| "write_parts budget (bs # rest) w =
     (case write_all budget bs w of
        (Err e, budget, w) \<Rightarrow> (Err e, budget, w)
      | (Ok _, budget, w) \<Rightarrow> write_parts budget rest w)"

definition record_parts :: "segment_entry \<Rightarrow> bytes list" where
  "record_parts e =
     (let payload = payload_bytes e
      in [[record_byte (entry_record_type e)], u32_to_le (of_nat (length payload)), payload])"

definition write_entry :: "nat option \<Rightarrow> segment_entry \<Rightarrow> segment_writer \<Rightarrow> writer_result" where
  "write_entry budget e w = write_parts budget (record_parts e) w"

text \<open>\<open>fail\<close>: the \<^verbatim>\<open>sync_all\<close> fails.\<close>

definition writer_sync :: "nat option \<Rightarrow> bool \<Rightarrow> segment_writer \<Rightarrow> writer_result" where
  "writer_sync budget fail w =
     (case flush_buf budget w of
        (Err e, budget, w) \<Rightarrow> (Err e, budget, w)
      | (Ok _, budget, w) \<Rightarrow>
          if fail then (Err IoError, budget, w) else (Ok (), budget, w\<lparr>sw_synced := length (sw_file w)\<rparr>))"

definition eof_parts :: "bytes list" where
  "eof_parts = [[record_byte RtEofMarker], u32_to_le 0]"

definition writer_close :: "nat option \<Rightarrow> bool \<Rightarrow> segment_writer \<Rightarrow> writer_result" where
  "writer_close budget fail w =
     (case write_parts budget eof_parts w of
        (Err e, budget, w) \<Rightarrow> (Err e, budget, w)
      | (Ok _, budget, w) \<Rightarrow> writer_sync budget fail w)"

text \<open>The file after the writer is dropped: the drop of a \<^verbatim>\<open>BufWriter\<close> flushes and ignores errors.\<close>

definition writer_drop :: "nat option \<Rightarrow> segment_writer \<Rightarrow> bytes" where
  "writer_drop budget w = sw_file (snd (snd (flush_buf budget w)))"

text \<open>What the file may hold after a crash: the buffer is lost, and of the file the part that was not synced.\<close>

definition crash_image :: "segment_writer \<Rightarrow> bytes \<Rightarrow> bool" where
  "crash_image w f \<longleftrightarrow> (\<exists>n. sw_synced w \<le> n \<and> n \<le> length (sw_file w) \<and> f = take n (sw_file w))"

subsection \<open>Reader\<close>

definition reader_open :: "bytes \<Rightarrow> io_error + bytes" where
  "reader_open f =
     (if length f < 16 then Err IoError
      else case header_from_bytes (take 16 f) of
        None \<Rightarrow> Err InvalidHeader
      | Some _ \<Rightarrow> Ok (drop 16 f))"

text \<open>All entries the iterator yields from the bytes after the header.\<close>

function read_records :: "bytes \<Rightarrow> segment_entry list" where
  "read_records bs =
     (if length bs < 5 then []
      else let t = hd bs; n = unat (u32_from_le (slice bs 1 5)); bs = drop 5 bs in
      if t = 0x01 then (if length bs < n then [] else read_records (drop n bs))
      else case record_from_u8 t of
        Some RtEofMarker \<Rightarrow> []
      | Some RtRootUpdate \<Rightarrow>
          if length bs < n then []
          else (case parse_root_update (take n bs) of
                  Some e \<Rightarrow> e # read_records (drop n bs) | None \<Rightarrow> [])
      | Some RtSnapshotRecord \<Rightarrow>
          if length bs < n then []
          else (case parse_snapshot_record (take n bs) of
                  Some e \<Rightarrow> e # read_records (drop n bs) | None \<Rightarrow> [])
      | None \<Rightarrow> if length bs < n then [] else read_records (drop n bs))"
  by pat_completeness auto
termination
  by (relation "measure length") auto

declare read_records.simps [simp del]

subsection \<open>Replay\<close>

type_synonym seg_dir = "(rstring \<times> bytes) list"

definition starts_with :: "rstring \<Rightarrow> rstring \<Rightarrow> bool" where
  "starts_with p s \<longleftrightarrow> take (length p) s = p"

definition ends_with :: "rstring \<Rightarrow> rstring \<Rightarrow> bool" where
  "ends_with p s \<longleftrightarrow> length p \<le> length s \<and> drop (length s - length p) s = p"

definition is_segment_name :: "rstring \<Rightarrow> bool" where
  "is_segment_name name \<longleftrightarrow> starts_with (str ''segment-'') name \<and> ends_with (str ''.seg'') name"

definition replay_entry ::
  "segment_entry \<Rightarrow> digest224 option \<times> snapshot_entry list \<Rightarrow> digest224 option \<times> snapshot_entry list" where
  "replay_entry e s =
     (case e of
        RootUpdate root \<Rightarrow> (Some root, snd s)
      | SnapshotRecord _ _ _ _ \<Rightarrow>
          (case as_snapshot_entry e of None \<Rightarrow> s | Some snap \<Rightarrow> (fst s, snd s @ [snap])))"

fun replay_files ::
  "seg_dir \<Rightarrow> digest224 option \<times> snapshot_entry list \<Rightarrow>
   io_error + (digest224 option \<times> snapshot_entry list)" where
  "replay_files [] s = Ok s"
| "replay_files ((name, f) # rest) s =
     (if length f < 16 then replay_files rest s
      else case reader_open f of
        Err e \<Rightarrow> Err e
      | Ok body \<Rightarrow> replay_files rest (fold replay_entry (read_records body) s))"

definition load_store_from_segments ::
  "seg_dir \<Rightarrow> io_error + (digest224 option \<times> snapshot_entry list)" where
  "load_store_from_segments dir =
     replay_files (sort_key fst (filter (\<lambda>(name, _). is_segment_name name) dir)) (None, [])"

subsection \<open>The stream of a writer\<close>

text \<open>Everything a writer has accepted, in the file or still in the buffer, and the bytes of a record.\<close>

definition sw_written :: "segment_writer \<Rightarrow> bytes" where
  "sw_written w = sw_file w @ sw_buffer w"

definition enc_record :: "segment_entry \<Rightarrow> bytes" where
  "enc_record e = concat (record_parts e)"

definition eof_record :: bytes where
  "eof_record = concat eof_parts"

lemma enc_record_eq:
  "enc_record e = record_byte (entry_record_type e) # u32_to_le (of_nat (length (payload_bytes e))) @ payload_bytes e"
  by (simp add: enc_record_def record_parts_def Let_def)

lemma eof_record_eq: "eof_record = record_byte RtEofMarker # u32_to_le 0"
  by (simp add: eof_record_def eof_parts_def)

text \<open>Whatever happens, an operation adds a prefix of its bytes to the stream; when it succeeds, all of them.\<close>

definition extends :: "bytes \<Rightarrow> segment_writer \<Rightarrow> writer_result \<Rightarrow> bool" where
  "extends bs w q \<longleftrightarrow> (case q of (r, b, w') \<Rightarrow> sw_synced w' = sw_synced w \<and>
     (\<exists>k \<le> length bs. sw_written w' = sw_written w @ take k bs \<and> (r = Ok () \<longrightarrow> k = length bs)))"

lemma accepted_le [simp]: "accepted b bs \<le> length bs"
  by (simp add: accepted_def split: option.split)

lemma accepted_None [simp]: "accepted None bs = length bs"
  by (simp add: accepted_def)

lemma flush_buf_extends: "extends [] w (flush_buf b w)"
  by (simp add: extends_def flush_buf_def Let_def sw_written_def)

lemma flush_buf_Ok: "flush_buf b w = (Ok u, b', w') \<Longrightarrow> sw_file w' = sw_written w \<and> sw_buffer w' = [] \<and> sw_synced w' = sw_synced w"
  using accepted_le [of b "sw_buffer w"] by (auto simp: flush_buf_def Let_def sw_written_def split: if_splits)

lemma flush_buf_None: "flush_buf None w = (Ok (), None, w\<lparr>sw_file := sw_written w, sw_buffer := []\<rparr>)"
  by (simp add: flush_buf_def sw_written_def)

lemma extends_push: "extends bs w (Ok (), b, w\<lparr>sw_buffer := sw_buffer w @ bs\<rparr>)"
  by (auto simp: extends_def sw_written_def intro!: exI [of _ "length bs"])

lemma extends_file: "sw_buffer w = [] \<Longrightarrow> extends bs w (file_write_all b bs w)"
  by (auto simp: extends_def file_write_all_def Let_def sw_written_def intro!: exI [of _ "accepted b bs"])

lemma extends_cong: "extends bs w q \<Longrightarrow> sw_written w = sw_written w' \<Longrightarrow> sw_synced w = sw_synced w' \<Longrightarrow> extends bs w' q"
  by (simp add: extends_def)

lemma write_all_extends: "extends bs w (write_all b bs w)"
proof (cases "length bs > buf_capacity - length (sw_buffer w)")
  case True
  obtain r b1 w1 where f: "flush_buf b w = (r, b1, w1)" by (metis surj_pair)
  have same: "sw_written w1 = sw_written w" "sw_synced w1 = sw_synced w" using flush_buf_extends [of w b] f by (simp_all add: extends_def)
  show ?thesis
  proof (cases r)
    case (Inl e)
    then show ?thesis using True f same by (auto simp: write_all_def Let_def extends_def intro!: exI [of _ 0])
  next
    case (Inr u)
    then have "sw_buffer w1 = []" using flush_buf_Ok f by blast
    then have "extends bs w1 (if length bs \<ge> buf_capacity then file_write_all b1 bs w1 else (Ok (), b1, w1\<lparr>sw_buffer := sw_buffer w1 @ bs\<rparr>))"
      using extends_file [of w1 bs b1] extends_push [of bs w1 b1] by simp
    from extends_cong [OF this same] show ?thesis using True f Inr by (simp add: write_all_def Let_def)
  qed
next
  case False
  have "sw_buffer w = []" if "\<not> length bs < buf_capacity - length (sw_buffer w)" "length bs \<ge> buf_capacity"
    using False that by (cases "sw_buffer w") (auto simp: buf_capacity_def)
  then show ?thesis using False extends_push extends_file by (auto simp: write_all_def Let_def)
qed

lemma extendsE:
  assumes "extends bs w (r, b, w')"
  obtains k where "k \<le> length bs" "sw_written w' = sw_written w @ take k bs" "sw_synced w' = sw_synced w" "r = Ok () \<Longrightarrow> k = length bs"
  using assms unfolding extends_def by auto

lemma extends_Ok: "extends bs w (Ok u, b, w') \<Longrightarrow> sw_written w' = sw_written w @ bs \<and> sw_synced w' = sw_synced w"
  by (auto simp: extends_def)

lemma extends_Err:
  assumes "extends bs w (Err e, b, w')"
  shows "extends (bs @ cs) w (Err e, b', w')"
proof -
  from assms obtain k where "k \<le> length bs" "sw_written w' = sw_written w @ take k bs" "sw_synced w' = sw_synced w"
    by (rule extendsE)
  then show ?thesis by (auto simp: extends_def intro!: exI [of _ k])
qed

lemma extends_append:
  assumes "extends bs w (Ok u, b, w1)" "extends cs w1 (r, b', w')"
  shows "extends (bs @ cs) w (r, b', w')"
proof -
  from assms(2) obtain k where "k \<le> length cs" "sw_written w' = sw_written w1 @ take k cs" "sw_synced w' = sw_synced w1"
    "r = Ok () \<Longrightarrow> k = length cs" by (rule extendsE) (rule that)
  with extends_Ok [OF assms(1)] show ?thesis by (auto simp: extends_def intro!: exI [of _ "length bs + k"])
qed

lemma write_parts_extends: "extends (concat ps) w (write_parts b ps w)"
proof (induction ps arbitrary: b w)
  case (Cons bs ps)
  obtain r b1 w1 where q: "write_all b bs w = (r, b1, w1)" by (metis surj_pair)
  obtain r2 b2 w2 where q2: "write_parts b1 ps w1 = (r2, b2, w2)" by (metis surj_pair)
  show ?case
  proof (cases r)
    case (Inl e)
    then show ?thesis using extends_Err write_all_extends [of bs w b] q by simp
  next
    case (Inr u)
    then show ?thesis using extends_append [OF _ Cons.IH [of w1 b1, unfolded q2]] write_all_extends [of bs w b] q q2 by simp
  qed
qed (simp add: extends_def)

lemma write_entry_extends: "extends (enc_record e) w (write_entry b e w)"
  by (simp add: write_entry_def enc_record_def write_parts_extends)

lemma write_entry_Ok: "write_entry b e w = (Ok u, b', w') \<Longrightarrow> sw_written w' = sw_written w @ enc_record e \<and> sw_synced w' = sw_synced w"
  using extends_Ok [of "enc_record e" w] write_entry_extends [of e w b] by simp

text \<open>A successful sync leaves nothing in the buffer.\<close>

lemma writer_sync_Ok:
  "writer_sync b fail w = (Ok u, b', w') \<Longrightarrow> sw_file w' = sw_written w \<and> sw_buffer w' = [] \<and> sw_synced w' = length (sw_written w)"
  by (auto simp: writer_sync_def split: prod.splits sum.splits if_splits dest!: flush_buf_Ok)

lemma writer_sync_None: "writer_sync None False w = (Ok (), None, w\<lparr>sw_file := sw_written w, sw_buffer := [], sw_synced := length (sw_written w)\<rparr>)"
  by (simp add: writer_sync_def flush_buf_None)

lemma writer_close_Ok:
  assumes "writer_close b fail w = (Ok u, b', w')"
  shows "sw_file w' = sw_written w @ eof_record" "sw_buffer w' = []" "sw_synced w' = length (sw_file w')"
proof -
  obtain r b1 w1 where q: "write_parts b eof_parts w = (r, b1, w1)" by (metis surj_pair)
  have "r = Ok ()" using assms q by (cases r) (simp_all add: writer_close_def)
  then have "sw_written w1 = sw_written w @ eof_record"
    using extends_Ok [of eof_record w] write_parts_extends [of eof_parts w b] q by (simp add: eof_record_def)
  then show "sw_file w' = sw_written w @ eof_record" "sw_buffer w' = []" "sw_synced w' = length (sw_file w')"
    using writer_sync_Ok [of b1 fail w1] assms q \<open>r = Ok ()\<close> by (simp_all add: writer_close_def)
qed

text \<open>Without faults everything succeeds.\<close>

lemma write_all_None: "fst (write_all None bs w) = Ok () \<and> fst (snd (write_all None bs w)) = None"
  by (simp add: write_all_def Let_def flush_buf_None file_write_all_def)

lemma write_parts_None: "fst (write_parts None ps w) = Ok () \<and> fst (snd (write_parts None ps w)) = None"
proof (induction ps arbitrary: w)
  case (Cons bs ps)
  obtain w1 where "write_all None bs w = (Ok (), None, w1)" using write_all_None [of bs w] by (metis prod.collapse)
  then show ?case using Cons.IH [of w1] by simp
qed simp

lemma write_entry_None:
  obtains w' where "write_entry None e w = (Ok (), None, w')" "sw_written w' = sw_written w @ enc_record e" "sw_synced w' = sw_synced w"
proof -
  obtain w' where "write_entry None e w = (Ok (), None, w')" using write_parts_None [of "record_parts e" w] by (metis prod.collapse write_entry_def)
  with write_entry_Ok [OF this] that show thesis by blast
qed

lemma writer_close_None:
  obtains w' where "writer_close None False w = (Ok (), None, w')" "sw_file w' = sw_written w @ eof_record" "sw_buffer w' = []"
proof -
  obtain w1 where "write_parts None eof_parts w = (Ok (), None, w1)" using write_parts_None [of eof_parts w] by (metis prod.collapse)
  then obtain w' where "writer_close None False w = (Ok (), None, w')" by (simp add: writer_close_def writer_sync_None)
  with writer_close_Ok [OF this] that show thesis by blast
qed

lemma writer_drop_synced: "sw_buffer w = [] \<Longrightarrow> writer_drop b w = sw_file w"
  by (simp add: writer_drop_def flush_buf_def Let_def)

lemma writer_drop_None: "writer_drop None w = sw_written w"
  by (simp add: writer_drop_def flush_buf_None)

lemma sw_written_new [simp]: "sw_written (writer_new i) = header_to_bytes (header_new i)" "sw_synced (writer_new i) = 0"
  by (simp_all add: writer_new_def sw_written_def)

subsection \<open>Records survive a round trip\<close>

text \<open>
  A record the format can hold; Rust strings are valid UTF-8. The format stores an absent name as
  the empty name, so an empty name reads back as absent (\<open>norm_entry\<close>).
\<close>

fun entry_fits :: "segment_entry \<Rightarrow> bool" where
  "entry_fits (RootUpdate root) \<longleftrightarrow> True"
| "entry_fits (SnapshotRecord version root created_at name) \<longleftrightarrow>
     (case name of None \<Rightarrow> True | Some n \<Rightarrow> utf8_valid n \<and> length n < 4294967248)"

fun norm_entry :: "segment_entry \<Rightarrow> segment_entry" where
  "norm_entry (RootUpdate root) = RootUpdate root"
| "norm_entry (SnapshotRecord version root created_at name) =
     SnapshotRecord version root created_at (if name = Some [] then None else name)"

lemma length_payload:
  "length (payload_bytes (RootUpdate r)) = 28"
  "length (payload_bytes (SnapshotRecord v r c name)) = 48 + length (case name of Some n \<Rightarrow> n | None \<Rightarrow> [])"
  by (simp_all add: Let_def)

lemma payload_fits: "entry_fits e \<Longrightarrow> length (payload_bytes e) < 4294967296"
  by (cases e) (auto simp: length_payload split: option.splits)

lemma length_enc_record: "length (enc_record e) = 5 + length (payload_bytes e)"
  by (simp add: enc_record_eq)

lemma parse_payload_root: "parse_root_update (payload_bytes (RootUpdate r)) = Some (RootUpdate r)"
  by (simp add: parse_root_update_def slice_appends)

lemma parse_payload_snapshot:
  assumes "entry_fits (SnapshotRecord v r c name)"
  shows "parse_snapshot_record (payload_bytes (SnapshotRecord v r c name)) =
    Some (norm_entry (SnapshotRecord v r c name))"
proof -
  define nb where "nb = (case name of Some n \<Rightarrow> n | None \<Rightarrow> [])"
  have nb: "utf8_valid nb" "length nb < 4294967296"
    using assms by (auto simp: nb_def split: option.splits)
  have "unat (u32_from_le (u32_to_le (of_nat (length nb)))) = length nb"
    using nb(2) by (intro unat_u32_le_length) simp
  then have "parse_snapshot_record (payload_bytes (SnapshotRecord v r c name)) =
      Some (SnapshotRecord v r c (if nb = [] then None else Some nb))"
    using nb by (simp add: parse_snapshot_record_def flip: nb_def) (simp add: Let_def slice_appends)
  moreover have "(if nb = [] then None else Some nb) = (if name = Some [] then None else name)"
    by (auto simp: nb_def split: option.splits)
  ultimately show ?thesis by simp
qed

lemma record_from_u8_byte [simp]: "record_from_u8 (record_byte t) = Some t"
  by (cases t) (simp_all add: record_from_u8_def)

lemma record_byte_not_legacy: "record_byte t \<noteq> 1"
  by (cases t) simp_all

lemma enc_record_frame:
  assumes "entry_fits e"
  shows "hd (enc_record e @ bs) = record_byte (entry_record_type e)"
    and "unat (u32_from_le (slice (enc_record e @ bs) 1 5)) = length (payload_bytes e)"
    and "drop 5 (enc_record e @ bs) = payload_bytes e @ bs"
proof -
  show "unat (u32_from_le (slice (enc_record e @ bs) 1 5)) = length (payload_bytes e)"
    using payload_fits [OF assms]
    by (simp add: enc_record_eq slice_def unat_of_nat)
qed (simp_all add: enc_record_eq)

lemma read_short: "length bs < 5 \<Longrightarrow> read_records bs = []"
  by (simp add: read_records.simps [of bs])

lemma read_step:
  assumes "\<not> length bs < 5" "hd bs = t" "unat (u32_from_le (slice bs 1 5)) = n" "drop 5 bs = r"
  shows "read_records bs =
     (if t = 1 then (if length r < n then [] else read_records (drop n r))
      else case record_from_u8 t of
        Some RtEofMarker \<Rightarrow> []
      | Some RtRootUpdate \<Rightarrow>
          if length r < n then []
          else (case parse_root_update (take n r) of Some e \<Rightarrow> e # read_records (drop n r) | None \<Rightarrow> [])
      | Some RtSnapshotRecord \<Rightarrow>
          if length r < n then []
          else (case parse_snapshot_record (take n r) of Some e \<Rightarrow> e # read_records (drop n r) | None \<Rightarrow> [])
      | None \<Rightarrow> if length r < n then [] else read_records (drop n r))"
  by (rule trans [OF read_records.simps]) (simp only: assms if_False Let_def)

lemma read_framed:
  assumes "5 \<le> length bs" "hd bs = record_byte t" "unat (u32_from_le (slice bs 1 5)) = n" "drop 5 bs = r"
  shows "read_records bs = (case t of
      RtEofMarker \<Rightarrow> []
    | RtRootUpdate \<Rightarrow> (if length r < n then [] else case parse_root_update (take n r) of
        Some e \<Rightarrow> e # read_records (drop n r) | None \<Rightarrow> [])
    | RtSnapshotRecord \<Rightarrow> (if length r < n then [] else case parse_snapshot_record (take n r) of
        Some e \<Rightarrow> e # read_records (drop n r) | None \<Rightarrow> []))"
proof -
  have "\<not> length bs < 5" using assms(1) by simp
  then show ?thesis
    by (simp add: read_step [OF _ assms(2-4)] record_byte_not_legacy split: record_type.splits)
qed

lemma read_enc_record:
  assumes "entry_fits e"
  shows "read_records (enc_record e @ bs) = norm_entry e # read_records bs"
proof -
  have "5 \<le> length (enc_record e @ bs)" by (simp add: length_enc_record)
  note read = read_framed [OF this enc_record_frame [OF assms]]
  show ?thesis
  proof (cases e)
    case (RootUpdate r)
    then show ?thesis using parse_payload_root [of r] read by (simp del: payload_bytes.simps)
  next
    case (SnapshotRecord v r c name)
    then show ?thesis
      using parse_payload_snapshot [of v r c name] assms read by (simp del: payload_bytes.simps)
  qed
qed

lemma read_truncated_record:
  assumes "entry_fits e" "n < length (enc_record e)"
  shows "read_records (take n (enc_record e)) = []"
proof (cases "n < 5")
  case False
  let ?bs = "take n (enc_record e)"
  have n: "n < 5 + length (payload_bytes e)" using assms(2) by (simp add: length_enc_record)
  have frame: "5 \<le> length ?bs" "hd ?bs = record_byte (entry_record_type e)"
    "unat (u32_from_le (slice ?bs 1 5)) = length (payload_bytes e)"
    and short: "length (drop 5 ?bs) < length (payload_bytes e)"
    using enc_record_frame [OF assms(1), of "[]"] False n assms(2)
    by (auto simp: hd_take slice_def drop_take min_def length_enc_record)
  show ?thesis
    using read_framed [OF frame refl] short by (cases e) simp_all
qed (simp add: read_short)

lemma read_eof: "read_records (eof_record @ bs) = []"
proof -
  have "5 \<le> length (eof_record @ bs)" "hd (eof_record @ bs) = record_byte RtEofMarker"
    by (simp_all add: eof_record_eq)
  from read_framed [OF this refl refl] show ?thesis by simp
qed

lemma read_nothing [simp]: "read_records [] = []"
  by (simp add: read_short)

text \<open>The entries whose records are complete within the first \<open>n\<close> bytes of the log.\<close>

fun complete_entries :: "nat \<Rightarrow> segment_entry list \<Rightarrow> segment_entry list" where
  "complete_entries n [] = []"
| "complete_entries n (e # es) =
     (if length (enc_record e) \<le> n then e # complete_entries (n - length (enc_record e)) es else [])"

lemma complete_entries_prefix: "\<exists>k. complete_entries n es = take k es"
proof (induction n es rule: complete_entries.induct)
  case (2 n e es)
  then show ?case by (metis complete_entries.simps(2) take_0 take_Suc_Cons)
qed simp

lemma complete_entries_all:
  "length (concat (map enc_record es)) \<le> n \<Longrightarrow> complete_entries n (es @ fs) = es @ complete_entries (n - length (concat (map enc_record es))) fs"
  by (induction es arbitrary: n) auto

lemma read_log_prefix:
  "\<forall>e \<in> set es. entry_fits e \<Longrightarrow>
   read_records (take n (concat (map enc_record es))) = map norm_entry (complete_entries n es)"
proof (induction es arbitrary: n)
  case (Cons e es)
  then have fits: "entry_fits e" by simp
  show ?case
  proof (cases "length (enc_record e) \<le> n")
    case True
    then have "take n (enc_record e @ concat (map enc_record es)) =
        enc_record e @ take (n - length (enc_record e)) (concat (map enc_record es))"
      by simp
    with Cons True show ?thesis by (simp add: read_enc_record [OF fits])
  next
    case False
    then show ?thesis by (simp add: read_truncated_record [OF fits])
  qed
qed simp

lemma read_log:
  assumes "\<forall>e \<in> set es. entry_fits e"
  shows "read_records (concat (map enc_record es)) = map norm_entry es"
    and "read_records (concat (map enc_record es) @ eof_record @ bs) = map norm_entry es"
proof -
  show "read_records (concat (map enc_record es)) = map norm_entry es"
    using read_log_prefix [OF assms, of "length (concat (map enc_record es))"]
      complete_entries_all [of es "length (concat (map enc_record es))" "[]"] by simp
  show "read_records (concat (map enc_record es) @ eof_record @ bs) = map norm_entry es"
    using assms by (induction es) (simp_all add: read_enc_record read_eof)
qed

end
