(* ===== verification/Decimal.thy ===== *)
theory Decimal
  imports Prelude
begin

section \<open>Decimal numerals in names\<close>

text \<open>
  Rust's \<^verbatim>\<open>{}\<close> and \<^verbatim>\<open>{:0w}\<close> formatting of unsigned integers and \<^verbatim>\<open>str::parse::<u64>\<close>, as the
  segment file names and snapshot references use them.
\<close>

fun dec_digits :: "nat \<Rightarrow> rstring" where
  "dec_digits n = (if n < 10 then [of_nat (48 + n)] else dec_digits (n div 10) @ [of_nat (48 + n mod 10)])"

declare dec_digits.simps [simp del]

definition fmt_padded :: "nat \<Rightarrow> nat \<Rightarrow> rstring" where
  "fmt_padded w n = replicate (w - length (dec_digits n)) 48 @ dec_digits n"

primrec dec_val :: "nat \<Rightarrow> rstring \<Rightarrow> nat option" where
  "dec_val acc [] = Some acc"
| "dec_val acc (c # cs) =
     (if 48 \<le> c \<and> c \<le> 57 then dec_val (acc * 10 + (unat c - 48)) cs else None)"

text \<open>An optional leading \<^verbatim>\<open>+\<close>, at least one digit, and a value that fits 64 bits.\<close>

definition parse_u64 :: "rstring \<Rightarrow> u64 option" where
  "parse_u64 s =
     (let ds = (case s of [] \<Rightarrow> [] | c # r \<Rightarrow> if c = 43 \<and> r \<noteq> [] then r else s) in
      if ds = [] then None
      else case dec_val 0 ds of
        None \<Rightarrow> None
      | Some v \<Rightarrow> if v < 18446744073709551616 then Some (of_nat v) else None)"

lemma unat_digit: "d < 10 \<Longrightarrow> unat (of_nat (48 + d) :: byte) = 48 + d"
  by (simp only: unat_of_nat) simp

lemma digit_range: "d < 10 \<Longrightarrow> 48 \<le> (of_nat (48 + d) :: byte) \<and> (of_nat (48 + d) :: byte) \<le> 57"
  using unat_digit [of d] by (simp only: word_le_nat_alt) simp

lemma dec_val_append: "dec_val acc (xs @ ys) = (case dec_val acc xs of None \<Rightarrow> None | Some a \<Rightarrow> dec_val a ys)"
  by (induction xs arbitrary: acc) auto

lemma dec_val_digit: "d < 10 \<Longrightarrow> dec_val acc [of_nat (48 + d)] = Some (acc * 10 + d)"
  using digit_range [of d] unat_digit [of d] by simp

lemma dec_val_digits: "dec_val 0 (dec_digits n) = Some n"
proof (induction n rule: dec_digits.induct)
  case (1 n)
  show ?case
  proof (cases "n < 10")
    case True
    then show ?thesis using dec_val_digit [of n 0] by (simp add: dec_digits.simps [of n] del: dec_val.simps)
  next
    case False
    with 1 have "dec_val 0 (dec_digits (n div 10)) = Some (n div 10)" by simp
    then show ?thesis
      using False dec_val_digit [of "n mod 10" "n div 10"]
      by (simp add: dec_digits.simps [of n] dec_val_append del: dec_val.simps)
  qed
qed

lemma dec_val_zeros: "dec_val 0 (replicate k 48 @ ds) = dec_val 0 ds"
  by (induction k) simp_all

lemma dec_digits_nonempty [simp]: "dec_digits n \<noteq> []"
  by (subst dec_digits.simps) simp

lemma dec_digits_range: "c \<in> set (dec_digits n) \<Longrightarrow> 48 \<le> c \<and> c \<le> 57"
proof (induction n rule: dec_digits.induct)
  case (1 n)
  show ?case
  proof (cases "n < 10")
    case True
    with "1.prems" show ?thesis using digit_range [of n] by (simp add: dec_digits.simps [of n])
  next
    case False
    with "1.prems" have "c \<in> set (dec_digits (n div 10)) \<or> c = of_nat (48 + n mod 10)"
      by (auto simp: dec_digits.simps [of n])
    with "1.IH" False digit_range [of "n mod 10"] show ?thesis by auto
  qed
qed

lemma parse_u64_padded:
  assumes "n < 2 ^ 64"
  shows "parse_u64 (fmt_padded w n) = Some (of_nat n)"
proof -
  have "48 \<le> c \<and> c \<le> 57" if "c \<in> set (fmt_padded w n)" for c
    using that dec_digits_range by (auto simp: fmt_padded_def)
  moreover have ne: "fmt_padded w n \<noteq> []" by (simp add: fmt_padded_def)
  ultimately have "48 \<le> hd (fmt_padded w n)" by simp
  then have "hd (fmt_padded w n) \<noteq> 43" by auto
  with ne have "parse_u64 (fmt_padded w n) =
      (case dec_val 0 (fmt_padded w n) of None \<Rightarrow> None
       | Some v \<Rightarrow> if v < 18446744073709551616 then Some (of_nat v) else None)"
    by (cases "fmt_padded w n") (simp_all add: parse_u64_def del: dec_val.simps)
  then show ?thesis using assms by (simp add: fmt_padded_def dec_val_zeros dec_val_digits)
qed

subsection \<open>Zero-padded names sort like numbers, as long as they fit the width\<close>

primrec fixed_digits :: "nat \<Rightarrow> nat \<Rightarrow> rstring" where
  "fixed_digits 0 n = []"
| "fixed_digits (Suc w) n = fixed_digits w (n div 10) @ [of_nat (48 + n mod 10)]"

lemma length_fixed_digits [simp]: "length (fixed_digits w n) = w"
  by (induction w arbitrary: n) simp_all

lemma fixed_digits_0: "fixed_digits w 0 = replicate w 48"
  by (induction w) (simp_all add: replicate_append_same)

lemma length_dec_digits: "n < 10 ^ w \<Longrightarrow> 0 < w \<Longrightarrow> length (dec_digits n) \<le> w"
proof (induction n arbitrary: w rule: dec_digits.induct)
  case (1 n)
  show ?case
  proof (cases "n < 10")
    case True
    then show ?thesis using "1.prems" by (simp add: dec_digits.simps [of n])
  next
    case False
    from "1.prems" obtain v where w: "w = Suc v" by (cases w) auto
    with "1.prems" False have "n div 10 < 10 ^ v" "0 < v"
      by (cases v; simp add: less_mult_imp_div_less mult.commute)+
    with "1.IH" [OF False] w show ?thesis using False by (simp add: dec_digits.simps [of n])
  qed
qed

lemma fmt_padded_fixed: "0 < w \<Longrightarrow> n < 10 ^ w \<Longrightarrow> fmt_padded w n = fixed_digits w n"
proof (induction w arbitrary: n)
  case (Suc w)
  show ?case
  proof (cases "n < 10")
    case True
    then show ?thesis by (simp add: fmt_padded_def dec_digits.simps [of n] fixed_digits_0)
  next
    case False
    with Suc.prems have "n div 10 < 10 ^ w" "0 < w"
      by (cases w; simp add: less_mult_imp_div_less mult.commute)+
    with Suc.IH have "fmt_padded w (n div 10) = fixed_digits w (n div 10)" by simp
    moreover have "fmt_padded (Suc w) n = fmt_padded w (n div 10) @ [of_nat (48 + n mod 10)]"
      using False by (simp add: fmt_padded_def dec_digits.simps [of n])
    ultimately show ?thesis by simp
  qed
qed simp

lemma list_less_append_last:
  "length xs = length ys \<Longrightarrow> (xs @ [x] < ys @ [y]) \<longleftrightarrow> xs < ys \<or> xs = ys \<and> x < (y :: 'a::linorder)"
  by (induction xs ys rule: list_induct2) auto

lemma list_less_append_tail:
  "length xs = length ys \<Longrightarrow> xs < ys \<Longrightarrow> xs @ zs < ys @ (zs' :: 'a::linorder list)"
  by (induction xs ys rule: list_induct2) auto

lemma list_less_append_head: "p @ xs < p @ ys \<longleftrightarrow> xs < (ys :: 'a::linorder list)"
  by (induction p) auto

lemma digit_less: "d < e \<Longrightarrow> e < 10 \<Longrightarrow> (of_nat (48 + d) :: byte) < of_nat (48 + e)"
  using unat_digit [of d] unat_digit [of e] by (simp only: word_less_nat_alt)

lemma fixed_digits_mono: "a < b \<Longrightarrow> b < 10 ^ w \<Longrightarrow> fixed_digits w a < fixed_digits w b"
proof (induction w arbitrary: a b)
  case (Suc w)
  have le: "a div 10 \<le> b div 10" using Suc.prems by (intro div_le_mono) simp
  have b: "b div 10 < 10 ^ w" using Suc.prems by (simp add: less_mult_imp_div_less mult.commute)
  show ?case
  proof (cases "a div 10 = b div 10")
    case True
    with Suc.prems have "a mod 10 < b mod 10" by (metis add_less_cancel_left div_mult_mod_eq)
    then have "(of_nat (48 + a mod 10) :: byte) < of_nat (48 + b mod 10)" by (intro digit_less) simp_all
    with True show ?thesis by (simp only: fixed_digits.simps list_less_append_last length_fixed_digits) simp
  next
    case False
    with le b Suc.IH have "fixed_digits w (a div 10) < fixed_digits w (b div 10)" by simp
    then show ?thesis by (simp only: fixed_digits.simps list_less_append_last length_fixed_digits) simp
  qed
qed simp

lemma fmt_padded_mono: "0 < w \<Longrightarrow> a < b \<Longrightarrow> b < 10 ^ w \<Longrightarrow> fmt_padded w a < fmt_padded w b"
  by (simp add: fmt_padded_fixed fixed_digits_mono)

lemma length_fmt_padded: "0 < w \<Longrightarrow> n < 10 ^ w \<Longrightarrow> length (fmt_padded w n) = w"
  by (simp add: fmt_padded_fixed)

end
