(* ===== verification/Wal.thy ===== *)
theory Wal
  imports Segment Decimal
begin

section \<open>Write-ahead log strategies\<close>

text \<open>
  \<^verbatim>\<open>crates/metadata/src/wal\<close>: the \<^verbatim>\<open>WalStrategy\<close> trait and its four implementations. What may fail
  during a call is an argument: how many bytes the disk still accepts, and whether the sync fails.
  The durability contract of the trait is the locale \<open>wal_strategy\<close>, interpreted on the per-operation,
  flush-on-fsync and periodic strategies; \<open>sync_wal_strategy\<close> is the stronger contract that every
  logged entry is durable on return, which the per-operation strategy keeps.
\<close>

datatype wal_entry =
    WalRootUpdate digest224
  | WalSnapshot u64 digest224 u64 "rstring option"

primrec wal_entry_to_segment :: "wal_entry \<Rightarrow> segment_entry" where
  "wal_entry_to_segment (WalRootUpdate root) = RootUpdate root"
| "wal_entry_to_segment (WalSnapshot version root created_at name) =
     SnapshotRecord version root created_at name"

datatype wal_config = CfgPerOp | CfgFlushOnFsync | CfgPeriodic u64 | CfgNoWal

record wal_fault =
  wf_budget :: "nat option"
  wf_sync :: bool

definition no_fault :: wal_fault where
  "no_fault = \<lparr>wf_budget = None, wf_sync = False\<rparr>"

type_synonym 'w wal_result = "(io_error + unit) \<times> 'w"

subsection \<open>\<^verbatim>\<open>PerOpWal\<close>\<close>

text \<open>The result of a writer without the budget, which ends with the call.\<close>

definition end_call :: "writer_result \<Rightarrow> segment_writer wal_result" where
  "end_call q = (fst q, snd (snd q))"

definition per_op_log :: "wal_fault \<Rightarrow> wal_entry \<Rightarrow> segment_writer \<Rightarrow> segment_writer wal_result" where
  "per_op_log F entry w =
     (case write_entry (wf_budget F) (wal_entry_to_segment entry) w of
        (Err e, budget, w) \<Rightarrow> (Err e, w)
      | (Ok _, budget, w) \<Rightarrow> end_call (writer_sync budget (wf_sync F) w))"

definition per_op_flush :: "wal_fault \<Rightarrow> segment_writer \<Rightarrow> segment_writer wal_result" where
  "per_op_flush F w = end_call (writer_sync (wf_budget F) (wf_sync F) w)"

definition per_op_shutdown :: "wal_fault \<Rightarrow> segment_writer \<Rightarrow> segment_writer wal_result" where
  "per_op_shutdown F w = end_call (writer_sync (wf_budget F) (wf_sync F) w)"

subsection \<open>\<^verbatim>\<open>FlushOnFsyncWal\<close> and \<^verbatim>\<open>PeriodicWal\<close>\<close>

record buffered_wal =
  bw_buffer :: "wal_entry list"
  bw_writer :: segment_writer

fun write_entries :: "nat option \<Rightarrow> wal_entry list \<Rightarrow> segment_writer \<Rightarrow> writer_result" where
  "write_entries budget [] w = (Ok (), budget, w)"
| "write_entries budget (entry # rest) w =
     (case write_entry budget (wal_entry_to_segment entry) w of
        (Err e, budget, w) \<Rightarrow> (Err e, budget, w)
      | (Ok _, budget, w) \<Rightarrow> write_entries budget rest w)"

definition fof_new :: "u64 \<Rightarrow> buffered_wal" where
  "fof_new segment_id = \<lparr>bw_buffer = [], bw_writer = writer_new segment_id\<rparr>"

definition fof_log :: "wal_fault \<Rightarrow> wal_entry \<Rightarrow> buffered_wal \<Rightarrow> buffered_wal wal_result" where
  "fof_log F entry w = (Ok (), w\<lparr>bw_buffer := bw_buffer w @ [entry]\<rparr>)"

text \<open>
  \<^verbatim>\<open>buffer.drain(..)\<close> empties the vector of entries also when the loop leaves early with an error; what was
  drained before is in the stream of the writer.
\<close>

definition fof_flush :: "wal_fault \<Rightarrow> buffered_wal \<Rightarrow> buffered_wal wal_result" where
  "fof_flush F w =
     (case write_entries (wf_budget F) (bw_buffer w) (bw_writer w) of
        (Err e, budget, sw) \<Rightarrow> (Err e, \<lparr>bw_buffer = [], bw_writer = sw\<rparr>)
      | (Ok _, budget, sw) \<Rightarrow>
          (case writer_sync budget (wf_sync F) sw of (r, _, sw) \<Rightarrow> (r, \<lparr>bw_buffer = [], bw_writer = sw\<rparr>)))"

definition fof_shutdown :: "wal_fault \<Rightarrow> buffered_wal \<Rightarrow> buffered_wal wal_result" where
  "fof_shutdown F w = fof_flush F w"

definition periodic_new :: "u64 \<Rightarrow> buffered_wal" where
  "periodic_new segment_id = \<lparr>bw_buffer = [], bw_writer = writer_new segment_id\<rparr>"

definition periodic_log :: "wal_fault \<Rightarrow> wal_entry \<Rightarrow> buffered_wal \<Rightarrow> buffered_wal wal_result" where
  "periodic_log F entry w = (Ok (), w\<lparr>bw_buffer := bw_buffer w @ [entry]\<rparr>)"

definition periodic_flush :: "wal_fault \<Rightarrow> buffered_wal \<Rightarrow> buffered_wal wal_result" where
  "periodic_flush F w =
     (case write_entries (wf_budget F) (bw_buffer w) (bw_writer w) of
        (Err e, budget, sw) \<Rightarrow> (Err e, \<lparr>bw_buffer = [], bw_writer = sw\<rparr>)
      | (Ok _, budget, sw) \<Rightarrow>
          (case writer_sync budget (wf_sync F) sw of (r, _, sw) \<Rightarrow> (r, \<lparr>bw_buffer = [], bw_writer = sw\<rparr>)))"

definition periodic_shutdown :: "wal_fault \<Rightarrow> buffered_wal \<Rightarrow> buffered_wal wal_result" where
  "periodic_shutdown F w = periodic_flush F w"

subsection \<open>Dynamic dispatch\<close>

datatype wal = PerOpWal segment_writer | FlushOnFsyncWal buffered_wal | PeriodicWal buffered_wal | NoWal

definition map_wal :: "('w \<Rightarrow> wal) \<Rightarrow> 'w wal_result \<Rightarrow> wal wal_result" where
  "map_wal C r = (fst r, C (snd r))"

primrec log_mutation :: "wal_fault \<Rightarrow> wal_entry \<Rightarrow> wal \<Rightarrow> wal wal_result" where
  "log_mutation F e (PerOpWal w) = map_wal PerOpWal (per_op_log F e w)"
| "log_mutation F e (FlushOnFsyncWal w) = map_wal FlushOnFsyncWal (fof_log F e w)"
| "log_mutation F e (PeriodicWal w) = map_wal PeriodicWal (periodic_log F e w)"
| "log_mutation F e NoWal = (Ok (), NoWal)"

primrec flush_and_sync :: "wal_fault \<Rightarrow> wal \<Rightarrow> wal wal_result" where
  "flush_and_sync F (PerOpWal w) = map_wal PerOpWal (per_op_flush F w)"
| "flush_and_sync F (FlushOnFsyncWal w) = map_wal FlushOnFsyncWal (fof_flush F w)"
| "flush_and_sync F (PeriodicWal w) = map_wal PeriodicWal (periodic_flush F w)"
| "flush_and_sync F NoWal = (Ok (), NoWal)"

primrec shutdown :: "wal_fault \<Rightarrow> wal \<Rightarrow> wal wal_result" where
  "shutdown F (PerOpWal w) = map_wal PerOpWal (per_op_shutdown F w)"
| "shutdown F (FlushOnFsyncWal w) = map_wal FlushOnFsyncWal (fof_shutdown F w)"
| "shutdown F (PeriodicWal w) = map_wal PeriodicWal (periodic_shutdown F w)"
| "shutdown F NoWal = (Ok (), NoWal)"

definition segment_file_name :: "nat \<Rightarrow> u64 \<Rightarrow> rstring" where
  "segment_file_name w segment_id = str ''segment-'' @ fmt_padded w (unat segment_id) @ str ''.seg''"

text \<open>The path below \<^verbatim>\<open>segments/\<close> and the log; the file is created (truncated) by the writer.\<close>

definition create_wal :: "wal_config \<Rightarrow> u64 \<Rightarrow> rstring option \<times> wal" where
  "create_wal config segment_id =
     (let seg_path = segment_file_name 6 segment_id in
      case config of
        CfgPerOp \<Rightarrow> (Some seg_path, PerOpWal (writer_new segment_id))
      | CfgFlushOnFsync \<Rightarrow> (Some seg_path, FlushOnFsyncWal (fof_new segment_id))
      | CfgPeriodic _ \<Rightarrow> (Some seg_path, PeriodicWal (periodic_new segment_id))
      | CfgNoWal \<Rightarrow> (None, NoWal))"

subsection \<open>The durability contract\<close>

text \<open>What replay reads from one segment file.\<close>

definition segment_entries :: "bytes \<Rightarrow> segment_entry list" where
  "segment_entries f =
     (if length f < 16 then [] else case reader_open f of Err _ \<Rightarrow> [] | Ok body \<Rightarrow> read_records body)"

text \<open>A run of a log: entries are logged and flushes happen in any order.\<close>

datatype wal_step = LogStep wal_entry | FlushStep

fun logged :: "wal_step list \<Rightarrow> wal_entry list" where
  "logged [] = []"
| "logged (LogStep e # steps) = e # logged steps"
| "logged (FlushStep # steps) = logged steps"

text \<open>How many entries were logged before the last flush.\<close>

definition flushed :: "wal_step list \<Rightarrow> nat" where
  "flushed steps = length (logged (rev (dropWhile (\<lambda>st. st \<noteq> FlushStep) (rev steps))))"

lemma logged_append [simp]: "logged (xs @ ys) = logged xs @ logged ys"
  by (induction xs rule: logged.induct) simp_all

lemma flushed_simps [simp]:
  "flushed [] = 0" "flushed (steps @ [LogStep e]) = flushed steps" "flushed (steps @ [FlushStep]) = length (logged steps)"
  by (simp_all add: flushed_def)

text \<open>
  \<open>holds w es d\<close>: the log \<open>w\<close> has accepted the entries \<open>es\<close>, and the first \<open>d\<close> of them are durable.
  Without faults, logging appends, flushing makes everything durable, and whatever a crash leaves
  in the file replays to a prefix of the entries that has all the durable ones.
\<close>

locale wal_strategy =
  fixes log :: "wal_fault \<Rightarrow> wal_entry \<Rightarrow> 'w \<Rightarrow> 'w wal_result"
    and flush :: "wal_fault \<Rightarrow> 'w \<Rightarrow> 'w wal_result"
    and stop :: "wal_fault \<Rightarrow> 'w \<Rightarrow> 'w wal_result"
    and seg :: "'w \<Rightarrow> segment_writer"
    and holds :: "'w \<Rightarrow> segment_entry list \<Rightarrow> nat \<Rightarrow> bool"
  assumes log_holds: "holds w es d \<Longrightarrow> fst (log no_fault e w) = Ok () \<and>
      (\<exists>d' \<ge> d. holds (snd (log no_fault e w)) (es @ [wal_entry_to_segment e]) d')"
    and flush_holds: "holds w es d \<Longrightarrow> fst (flush no_fault w) = Ok () \<and>
      holds (snd (flush no_fault w)) es (length es)"
    and stop_holds: "holds w es d \<Longrightarrow> fst (stop no_fault w) = Ok () \<and>
      holds (snd (stop no_fault w)) es (length es)"
    and crash_replay: "holds w es d \<Longrightarrow> \<forall>e \<in> set es. entry_fits e \<Longrightarrow> crash_image (seg w) f \<Longrightarrow>
      \<exists>k \<ge> d. segment_entries f = map norm_entry (take k es)"
begin

text \<open>Whatever is logged and flushed in between, the entries before the last flush are durable.\<close>

lemma steps_hold:
  assumes "holds w [] 0"
  shows "\<exists>d \<ge> flushed steps. holds (fold (\<lambda>st w. case st of LogStep e \<Rightarrow> snd (log no_fault e w) | FlushStep \<Rightarrow> snd (flush no_fault w)) steps w)
    (map wal_entry_to_segment (logged steps)) d"
proof (induction steps rule: rev_induct)
  case (snoc st steps)
  then obtain d where d: "d \<ge> flushed steps"
    "holds (fold (\<lambda>st w. case st of LogStep e \<Rightarrow> snd (log no_fault e w) | FlushStep \<Rightarrow> snd (flush no_fault w)) steps w)
      (map wal_entry_to_segment (logged steps)) d" by blast
  show ?case
  proof (cases st)
    case (LogStep e)
    with log_holds [OF d(2), of e] d(1) show ?thesis by (auto intro: le_trans)
  next
    case FlushStep
    with flush_holds [OF d(2)] show ?thesis by (auto intro!: exI [of _ "length (logged steps)"])
  qed
qed (use assms in auto)

lemma steps_durable:
  assumes "holds w [] 0" and "\<forall>e \<in> set (logged steps). entry_fits (wal_entry_to_segment e)"
    and "crash_image (seg (fold (\<lambda>st w. case st of LogStep e \<Rightarrow> snd (log no_fault e w) | FlushStep \<Rightarrow> snd (flush no_fault w)) steps w)) f"
  shows "\<exists>k \<ge> flushed steps. segment_entries f = map norm_entry (take k (map wal_entry_to_segment (logged steps)))"
proof -
  obtain d where d: "d \<ge> flushed steps"
    "holds (fold (\<lambda>st w. case st of LogStep e \<Rightarrow> snd (log no_fault e w) | FlushStep \<Rightarrow> snd (flush no_fault w)) steps w)
      (map wal_entry_to_segment (logged steps)) d" using steps_hold [OF assms(1)] by blast
  have "\<forall>e \<in> set (map wal_entry_to_segment (logged steps)). entry_fits e" using assms(2) by auto
  from crash_replay [OF d(2) this assms(3)] d(1) show ?thesis by (meson le_trans)
qed

end

locale sync_wal_strategy = wal_strategy +
  assumes log_durable: "holds w es (length es) \<Longrightarrow>
    holds (snd (log no_fault e w)) (es @ [wal_entry_to_segment e]) (Suc (length es))"
begin

lemma logs_durable:
  "holds w es (length es) \<Longrightarrow> holds (fold (\<lambda>e w. snd (log no_fault e w)) xs w)
     (es @ map wal_entry_to_segment xs) (length es + length xs)"
proof (induction xs arbitrary: w es)
  case (Cons x xs)
  from Cons.IH [of "snd (log no_fault x w)" "es @ [wal_entry_to_segment x]"] log_durable [OF Cons.prems, of x]
  show ?case by simp
qed simp

end

subsection \<open>The strategies keep the contract\<close>

definition segment_header_bytes :: "u64 \<Rightarrow> bytes" where
  "segment_header_bytes segment_id = header_to_bytes (header_new segment_id)"

definition writer_holds :: "segment_writer \<Rightarrow> segment_entry list \<Rightarrow> nat \<Rightarrow> bool" where
  "writer_holds w es d \<longleftrightarrow>
     (\<exists>segment_id. sw_written w = segment_header_bytes segment_id @ concat (map enc_record es)) \<and>
     d \<le> length es \<and> (d = 0 \<or> 16 + length (concat (map enc_record (take d es))) \<le> sw_synced w) \<and>
     sw_synced w \<le> length (sw_file w)"

definition buffered_holds :: "buffered_wal \<Rightarrow> segment_entry list \<Rightarrow> nat \<Rightarrow> bool" where
  "buffered_holds w es d \<longleftrightarrow>
     (\<exists>ps. es = ps @ map wal_entry_to_segment (bw_buffer w) \<and> writer_holds (bw_writer w) ps d)"

lemma length_segment_header [simp]: "length (segment_header_bytes i) = 16"
  by (simp add: segment_header_bytes_def header_to_bytes_def header_new_def SEGMENT_MAGIC_def)

lemma header_roundtrip: "header_from_bytes (segment_header_bytes i) = Some (header_new i)"
  by (simp add: segment_header_bytes_def header_from_bytes_def header_to_bytes_def header_new_def
      slice_appends SEGMENT_MAGIC_def) (simp add: slice_def)

lemma reader_open_segment: "reader_open (segment_header_bytes i @ bs) = Ok bs"
  by (simp add: reader_open_def header_roundtrip)

lemma segment_entries_body: "segment_entries (segment_header_bytes i @ bs) = read_records bs"
  by (simp add: segment_entries_def reader_open_segment)

lemma write_entries_extends: "extends (concat (map (enc_record \<circ> wal_entry_to_segment) es)) w (write_entries b es w)"
proof (induction es arbitrary: b w)
  case (Cons e es)
  obtain r b1 w1 where q: "write_entry b (wal_entry_to_segment e) w = (r, b1, w1)" by (metis surj_pair)
  obtain r2 b2 w2 where q2: "write_entries b1 es w1 = (r2, b2, w2)" by (metis surj_pair)
  note first = write_entry_extends [of "wal_entry_to_segment e" w b, unfolded q]
  show ?case
  proof (cases r)
    case (Inl f)
    then show ?thesis using extends_Err first q by simp
  next
    case (Inr u)
    then show ?thesis using extends_append [OF _ Cons.IH [of w1 b1, unfolded q2]] first q q2 by simp
  qed
qed (simp add: extends_def)

lemma write_entries_None:
  obtains w' where "write_entries None es w = (Ok (), None, w')"
    "sw_written w' = sw_written w @ concat (map (enc_record \<circ> wal_entry_to_segment) es)" "sw_synced w' = sw_synced w"
proof -
  have "\<exists>w'. write_entries None es w = (Ok (), None, w')"
  proof (induction es arbitrary: w)
    case (Cons e es)
    obtain w1 where "write_entry None (wal_entry_to_segment e) w = (Ok (), None, w1)" by (rule write_entry_None)
    then show ?case using Cons.IH [of w1] by simp
  qed simp
  then obtain w' where run: "write_entries None es w = (Ok (), None, w')" by blast
  with extends_Ok [OF write_entries_extends [of es w None, unfolded run]] that show thesis by blast
qed

text \<open>The effect of the calls without faults on the stream.\<close>

definition synced :: "segment_writer \<Rightarrow> bytes \<Rightarrow> bool" where
  "synced w bs \<longleftrightarrow> sw_file w = bs \<and> sw_buffer w = [] \<and> sw_synced w = length bs"

lemma synced_written: "synced w bs \<Longrightarrow> sw_written w = bs \<and> sw_synced w = length bs"
  by (simp add: synced_def sw_written_def)

lemma per_op_log_ok:
  obtains w' where "per_op_log no_fault e w = (Ok (), w')" "synced w' (sw_written w @ enc_record (wal_entry_to_segment e))"
proof -
  obtain w1 where "write_entry None (wal_entry_to_segment e) w = (Ok (), None, w1)"
    "sw_written w1 = sw_written w @ enc_record (wal_entry_to_segment e)" by (rule write_entry_None)
  then have "\<exists>w'. per_op_log no_fault e w = (Ok (), w') \<and> synced w' (sw_written w @ enc_record (wal_entry_to_segment e))"
    by (simp add: per_op_log_def no_fault_def writer_sync_None end_call_def synced_def)
  with that show thesis by blast
qed

lemma per_op_flush_ok:
  "\<exists>w'. per_op_flush no_fault w = (Ok (), w') \<and> synced w' (sw_written w)"
  "\<exists>w'. per_op_shutdown no_fault w = (Ok (), w') \<and> synced w' (sw_written w)"
  by (simp_all add: per_op_flush_def per_op_shutdown_def no_fault_def writer_sync_None end_call_def synced_def)

lemma fof_flush_ok:
  obtains w' where "fof_flush no_fault w = (Ok (), w')" "bw_buffer w' = []"
    "synced (bw_writer w') (sw_written (bw_writer w) @ concat (map (enc_record \<circ> wal_entry_to_segment) (bw_buffer w)))"
proof -
  obtain w1 where "write_entries None (bw_buffer w) (bw_writer w) = (Ok (), None, w1)"
    "sw_written w1 = sw_written (bw_writer w) @ concat (map (enc_record \<circ> wal_entry_to_segment) (bw_buffer w))"
    by (rule write_entries_None)
  then have "\<exists>w'. fof_flush no_fault w = (Ok (), w') \<and> bw_buffer w' = [] \<and>
      synced (bw_writer w') (sw_written (bw_writer w) @ concat (map (enc_record \<circ> wal_entry_to_segment) (bw_buffer w)))"
    by (simp add: fof_flush_def no_fault_def writer_sync_None synced_def)
  with that show thesis by blast
qed

lemma writer_holds_synced:
  assumes "writer_holds w es d" "synced w' (sw_written w @ concat (map enc_record xs))"
  shows "writer_holds w' (es @ xs) (length (es @ xs))"
proof -
  obtain i where "sw_written w = segment_header_bytes i @ concat (map enc_record es)"
    using assms(1) unfolding writer_holds_def by blast
  then have w': "sw_written w' = segment_header_bytes i @ concat (map enc_record (es @ xs))"
    "sw_synced w' = length (sw_written w')" "sw_synced w' = length (sw_file w')"
    using assms(2) by (simp_all add: synced_def sw_written_def)
  have "16 + length (concat (map enc_record (take (length (es @ xs)) (es @ xs)))) = length (sw_written w')"
    unfolding w'(1) by simp
  with w' show ?thesis unfolding writer_holds_def by (intro conjI exI [of _ i]) simp_all
qed

lemma writer_holds_new: "writer_holds (writer_new i) [] 0"
  by (auto simp: writer_holds_def segment_header_bytes_def)

text \<open>What is in the file when nothing is lost, and what is there after the writer is dropped.\<close>

lemma writer_holds_file: "writer_holds w es d \<Longrightarrow> crash_image w (sw_file w)"
  by (auto simp: writer_holds_def crash_image_def)

lemma writer_holds_flush_buf:
  assumes "writer_holds w es d"
  shows "writer_holds (snd (snd (flush_buf b w))) es d"
proof -
  obtain r b' w' where q: "flush_buf b w = (r, b', w')" by (metis surj_pair)
  have "sw_written w' = sw_written w" "sw_synced w' = sw_synced w"
    using flush_buf_extends [of w b] q by (simp_all add: extends_def)
  moreover have "length (sw_file w) \<le> length (sw_file w')" using q by (auto simp: flush_buf_def Let_def)
  ultimately show ?thesis using assms q by (simp add: writer_holds_def)
qed

lemma writer_holds_sync:
  assumes "writer_holds w es d"
  shows "writer_holds (snd (snd (writer_sync b fail w))) es d"
proof -
  obtain r b' w' where q: "flush_buf b w = (r, b', w')" by (metis surj_pair)
  obtain f buf s where fields: "w' = \<lparr>sw_file = f, sw_buffer = buf, sw_synced = s\<rparr>" by (cases w')
  have "writer_holds w' es d" using writer_holds_flush_buf [OF assms, of b] q by simp
  moreover from this have "writer_holds (w'\<lparr>sw_synced := length (sw_file w')\<rparr>) es d"
    unfolding writer_holds_def sw_written_def fields segment_writer.simps
    by (blast intro: le_trans order_refl)
  ultimately show ?thesis using q by (cases r) (simp_all add: writer_sync_def)
qed

lemma writer_holds_weaken:
  assumes "writer_holds w es d" "d' \<le> d"
  shows "writer_holds w es d'"
proof -
  have "take d es = take d' es @ take (d - d') (drop d' es)"
    using assms(2) by (metis le_add_diff_inverse take_add)
  then have "length (concat (map enc_record (take d' es))) \<le> length (concat (map enc_record (take d es)))"
    by simp
  with assms show ?thesis by (auto simp: writer_holds_def)
qed

lemma writer_crash_replay:
  assumes "writer_holds w es d" "\<forall>e \<in> set es. entry_fits e" "crash_image w f"
  shows "\<exists>k \<ge> d. segment_entries f = map norm_entry (take k es)"
proof -
  from assms(1) obtain i where written: "sw_written w = segment_header_bytes i @ concat (map enc_record es)"
    and d: "d \<le> length es" "d = 0 \<or> 16 + length (concat (map enc_record (take d es))) \<le> sw_synced w"
    by (auto simp: writer_holds_def)
  from assms(3) obtain n where "sw_synced w \<le> n" "f = take n (sw_written w)"
    by (auto simp: crash_image_def sw_written_def)
  with written d have f: "f = take n (segment_header_bytes i @ concat (map enc_record es))"
    and n: "d = 0 \<or> 16 + length (concat (map enc_record (take d es))) \<le> n" by auto
  show ?thesis
  proof (cases "n < 16")
    case True
    then have "d = 0" using n by simp
    moreover have "segment_entries f = []" using True f by (simp add: segment_entries_def)
    ultimately show ?thesis by (intro exI [of _ 0]) simp
  next
    case False
    then have "f = segment_header_bytes i @ take (n - 16) (concat (map enc_record es))" by (simp add: f)
    then have read: "segment_entries f = map norm_entry (complete_entries (n - 16) es)"
      using read_log_prefix [OF assms(2)] by (simp only: segment_entries_body)
    have "length (concat (map enc_record (take d es))) \<le> n - 16" using n by auto
    from complete_entries_all [OF this, of "drop d es"]
    have "\<exists>k. complete_entries (n - 16) es = take k es \<and> d \<le> k"
      using complete_entries_prefix [of "n - 16 - length (concat (map enc_record (take d es)))" "drop d es"]
      by (metis append_take_drop_id le_add1 take_add)
    with read show ?thesis by metis
  qed
qed

lemma buffered_holds_cases:
  assumes "buffered_holds w es d"
  obtains ps where "es = ps @ map wal_entry_to_segment (bw_buffer w)" "writer_holds (bw_writer w) ps d"
  using assms by (auto simp: buffered_holds_def)

lemma buffered_log_holds:
  "buffered_holds w es d \<Longrightarrow> buffered_holds (w\<lparr>bw_buffer := bw_buffer w @ [e]\<rparr>) (es @ [wal_entry_to_segment e]) d"
  by (auto simp: buffered_holds_def)

lemma buffered_flush_holds:
  assumes "buffered_holds w es d"
  shows "fst (fof_flush no_fault w) = Ok ()" "buffered_holds (snd (fof_flush no_fault w)) es (length es)"
proof -
  obtain ps where ps: "es = ps @ map wal_entry_to_segment (bw_buffer w)" "writer_holds (bw_writer w) ps d"
    using assms by (rule buffered_holds_cases)
  obtain w' where run: "fof_flush no_fault w = (Ok (), w')" "bw_buffer w' = []"
    "synced (bw_writer w') (sw_written (bw_writer w) @ concat (map (enc_record \<circ> wal_entry_to_segment) (bw_buffer w)))"
    by (rule fof_flush_ok)
  have "writer_holds (bw_writer w') es (length es)"
    using writer_holds_synced [OF ps(2), of "bw_writer w'" "map wal_entry_to_segment (bw_buffer w)"] run(3) ps(1) by simp
  then show "fst (fof_flush no_fault w) = Ok ()" "buffered_holds (snd (fof_flush no_fault w)) es (length es)"
    using run(1,2) by (simp_all add: buffered_holds_def)
qed

lemma periodic_flush_fof: "periodic_flush = fof_flush"
  by (simp add: fun_eq_iff periodic_flush_def fof_flush_def)

lemma buffered_crash_replay:
  assumes "buffered_holds w es d" "\<forall>e \<in> set es. entry_fits e" "crash_image (bw_writer w) f"
  shows "\<exists>k \<ge> d. segment_entries f = map norm_entry (take k es)"
proof -
  obtain ps where ps: "es = ps @ map wal_entry_to_segment (bw_buffer w)" "writer_holds (bw_writer w) ps d"
    using assms(1) by (rule buffered_holds_cases)
  have d: "d \<le> length ps" using ps(2) by (simp add: writer_holds_def)
  from writer_crash_replay [OF ps(2) _ assms(3)] assms(2) ps(1) obtain k where
    k: "k \<ge> d" "segment_entries f = map norm_entry (take k ps)" by auto
  have "take (min k (length ps)) es = take k ps" using ps(1) by (simp add: min_def)
  with k d show ?thesis by (metis min.bounded_iff)
qed

interpretation per_op: sync_wal_strategy per_op_log per_op_flush per_op_shutdown "\<lambda>w. w" writer_holds
proof unfold_locales
  fix w es d e f
  have log: "fst (per_op_log no_fault e w) = Ok () \<and>
      writer_holds (snd (per_op_log no_fault e w)) (es @ [wal_entry_to_segment e]) (Suc (length es))"
    if "writer_holds w es d" for d
  proof -
    obtain w' where "per_op_log no_fault e w = (Ok (), w')" "synced w' (sw_written w @ enc_record (wal_entry_to_segment e))"
      by (rule per_op_log_ok)
    then show ?thesis using writer_holds_synced [OF that, of w' "[wal_entry_to_segment e]"] by simp
  qed
  show "fst (per_op_log no_fault e w) = Ok () \<and>
      (\<exists>d' \<ge> d. writer_holds (snd (per_op_log no_fault e w)) (es @ [wal_entry_to_segment e]) d')"
    if "writer_holds w es d"
    using log [OF that] that by (auto simp: writer_holds_def intro!: exI [of _ "Suc (length es)"])
  show "writer_holds (snd (per_op_log no_fault e w)) (es @ [wal_entry_to_segment e]) (Suc (length es))"
    if "writer_holds w es (length es)"
    using log [OF that] by blast
  show "fst (per_op_flush no_fault w) = Ok () \<and> writer_holds (snd (per_op_flush no_fault w)) es (length es)"
    if "writer_holds w es d"
    using writer_holds_synced [OF that, of _ "[]"] per_op_flush_ok(1) [of w] by auto
  show "fst (per_op_shutdown no_fault w) = Ok () \<and> writer_holds (snd (per_op_shutdown no_fault w)) es (length es)"
    if "writer_holds w es d"
    using writer_holds_synced [OF that, of _ "[]"] per_op_flush_ok(2) [of w] by auto
qed (rule writer_crash_replay)

interpretation fof: wal_strategy fof_log fof_flush fof_shutdown bw_writer buffered_holds
proof unfold_locales
  fix w es d e f
  assume h: "buffered_holds w es d"
  show "fst (fof_log no_fault e w) = Ok () \<and>
      (\<exists>d' \<ge> d. buffered_holds (snd (fof_log no_fault e w)) (es @ [wal_entry_to_segment e]) d')"
    using buffered_log_holds [OF h] by (auto simp: fof_log_def)
  show "fst (fof_flush no_fault w) = Ok () \<and> buffered_holds (snd (fof_flush no_fault w)) es (length es)"
    using buffered_flush_holds [OF h] by simp
  show "fst (fof_shutdown no_fault w) = Ok () \<and> buffered_holds (snd (fof_shutdown no_fault w)) es (length es)"
    using buffered_flush_holds [OF h] by (simp add: fof_shutdown_def)
qed (rule buffered_crash_replay)

interpretation periodic: wal_strategy periodic_log periodic_flush periodic_shutdown bw_writer buffered_holds
proof unfold_locales
  fix w es d e f
  assume h: "buffered_holds w es d"
  show "fst (periodic_log no_fault e w) = Ok () \<and>
      (\<exists>d' \<ge> d. buffered_holds (snd (periodic_log no_fault e w)) (es @ [wal_entry_to_segment e]) d')"
    using buffered_log_holds [OF h] by (auto simp: periodic_log_def)
  show "fst (periodic_flush no_fault w) = Ok () \<and> buffered_holds (snd (periodic_flush no_fault w)) es (length es)"
    using buffered_flush_holds [OF h] by (simp add: periodic_flush_fof)
  show "fst (periodic_shutdown no_fault w) = Ok () \<and> buffered_holds (snd (periodic_shutdown no_fault w)) es (length es)"
    using buffered_flush_holds [OF h] by (simp add: periodic_shutdown_def periodic_flush_fof)
qed (rule buffered_crash_replay)

text \<open>The same contract behind the dynamic dispatch that the store uses; \<^verbatim>\<open>NoWal\<close> makes no promise.\<close>

primrec wal_file :: "wal \<Rightarrow> segment_writer" where
  "wal_file (PerOpWal w) = w"
| "wal_file (FlushOnFsyncWal w) = bw_writer w"
| "wal_file (PeriodicWal w) = bw_writer w"
| "wal_file NoWal = \<lparr>sw_file = [], sw_buffer = [], sw_synced = 0\<rparr>"

primrec wal_holds :: "wal \<Rightarrow> segment_entry list \<Rightarrow> nat \<Rightarrow> bool" where
  "wal_holds (PerOpWal w) = writer_holds w"
| "wal_holds (FlushOnFsyncWal w) = buffered_holds w"
| "wal_holds (PeriodicWal w) = buffered_holds w"
| "wal_holds NoWal = (\<lambda>es d. False)"

interpretation dyn: wal_strategy log_mutation flush_and_sync shutdown wal_file wal_holds
proof unfold_locales
  fix w es d e f
  assume h: "wal_holds w es d"
  show "fst (log_mutation no_fault e w) = Ok () \<and>
      (\<exists>d' \<ge> d. wal_holds (snd (log_mutation no_fault e w)) (es @ [wal_entry_to_segment e]) d')"
    using h by (cases w) (simp_all add: map_wal_def per_op.log_holds fof.log_holds periodic.log_holds)
  show "fst (flush_and_sync no_fault w) = Ok () \<and> wal_holds (snd (flush_and_sync no_fault w)) es (length es)"
    using h by (cases w) (simp_all add: map_wal_def per_op.flush_holds fof.flush_holds periodic.flush_holds)
  show "fst (shutdown no_fault w) = Ok () \<and> wal_holds (snd (shutdown no_fault w)) es (length es)"
    using h by (cases w) (simp_all add: map_wal_def per_op.stop_holds fof.stop_holds periodic.stop_holds)
  show "\<exists>k \<ge> d. segment_entries f = map norm_entry (take k es)"
    if "\<forall>e \<in> set es. entry_fits e" "crash_image (wal_file w) f"
    using h that by (cases w)
      (simp_all add: per_op.crash_replay fof.crash_replay periodic.crash_replay)
qed

lemma create_wal_holds: "config \<noteq> CfgNoWal \<Longrightarrow> wal_holds (snd (create_wal config i)) [] 0"
  by (cases config) (auto simp: create_wal_def buffered_holds_def writer_holds_new fof_new_def periodic_new_def)

text \<open>The file itself, and the file after the log is dropped, replay like what a crash leaves.\<close>

lemma wal_holds_file: "wal_holds w es d \<Longrightarrow> crash_image (wal_file w) (sw_file (wal_file w))"
  by (cases w) (auto simp: buffered_holds_def dest: writer_holds_file)

lemma wal_drop_image:
  assumes "wal_holds w es d"
  obtains w' where "wal_holds w' es d" "crash_image (wal_file w') (writer_drop b (wal_file w))"
proof (cases w)
  case (PerOpWal v)
  show ?thesis using assms writer_holds_file [OF writer_holds_flush_buf] writer_holds_flush_buf
    by (intro that [of "PerOpWal (snd (snd (flush_buf b v)))"]) (auto simp: PerOpWal writer_drop_def)
next
  case (FlushOnFsyncWal v)
  then obtain ps where "es = ps @ map wal_entry_to_segment (bw_buffer v)" "writer_holds (bw_writer v) ps d"
    using assms by (auto simp: buffered_holds_def)
  then show ?thesis using writer_holds_file [OF writer_holds_flush_buf] writer_holds_flush_buf
    by (intro that [of "FlushOnFsyncWal (v\<lparr>bw_writer := snd (snd (flush_buf b (bw_writer v)))\<rparr>)"])
      (auto simp: FlushOnFsyncWal writer_drop_def buffered_holds_def)
next
  case (PeriodicWal v)
  then obtain ps where "es = ps @ map wal_entry_to_segment (bw_buffer v)" "writer_holds (bw_writer v) ps d"
    using assms by (auto simp: buffered_holds_def)
  then show ?thesis using writer_holds_file [OF writer_holds_flush_buf] writer_holds_flush_buf
    by (intro that [of "PeriodicWal (v\<lparr>bw_writer := snd (snd (flush_buf b (bw_writer v)))\<rparr>)"])
      (auto simp: PeriodicWal writer_drop_def buffered_holds_def)
qed (use assms in simp)

subsection \<open>A disk that accepts nothing\<close>

text \<open>Nothing reaches the file, and the stream grows as long as it fits the buffer.\<close>

lemma write_all_full:
  assumes "length (sw_buffer w) \<le> buf_capacity" "write_all (Some 0) bs w = (r, b, w')"
  shows "b = Some 0" "sw_file w' = sw_file w" "length (sw_buffer w') \<le> buf_capacity"
    "length (sw_buffer w) + length bs \<le> buf_capacity \<Longrightarrow> sw_buffer w \<noteq> [] \<or> length bs < buf_capacity \<Longrightarrow> r = Ok ()"
proof -
  have flush: "flush_buf (Some 0) w = (if sw_buffer w = [] then Ok () else Err IoError, Some 0, w)"
    by (simp add: flush_buf_def accepted_def)
  have cold: "file_write_all (Some 0) bs w = (if bs = [] then Ok () else Err IoError, Some 0, w)"
    by (simp add: file_write_all_def accepted_def)
  show "b = Some 0" "sw_file w' = sw_file w" "length (sw_buffer w') \<le> buf_capacity"
    using assms by (auto simp: write_all_def Let_def flush cold split: if_splits)
  assume "length (sw_buffer w) + length bs \<le> buf_capacity" "sw_buffer w \<noteq> [] \<or> length bs < buf_capacity"
  then show "r = Ok ()" using assms
    by (auto simp: write_all_def Let_def flush cold simp flip: length_greater_0_conv split: if_splits)
qed

lemma write_parts_full:
  assumes "length (sw_buffer w) \<le> buf_capacity" "write_parts (Some 0) ps w = (r, b, w')"
  shows "b = Some 0 \<and> sw_file w' = sw_file w \<and> length (sw_buffer w') \<le> buf_capacity"
  using assms
proof (induction ps arbitrary: w)
  case (Cons bs ps)
  obtain r1 b1 w1 where q: "write_all (Some 0) bs w = (r1, b1, w1)" by (metis surj_pair)
  note full = write_all_full [OF Cons.prems(1) q]
  show ?case
  proof (cases r1)
    case (Inl e)
    then show ?thesis using Cons.prems(2) q full by simp
  next
    case (Inr u)
    then show ?thesis using Cons.prems(2) q full Cons.IH [OF full(3)] by simp
  qed
qed simp

lemma write_entry_full:
  assumes "length (sw_buffer w) \<le> buf_capacity" "write_entry (Some 0) e w = (r, b, w')"
  shows "b = Some 0" "sw_file w' = sw_file w" "length (sw_buffer w') \<le> buf_capacity"
    "length (sw_buffer w) + length (enc_record e) \<le> buf_capacity \<Longrightarrow> r = Ok ()"
proof -
  show "b = Some 0" "sw_file w' = sw_file w" "length (sw_buffer w') \<le> buf_capacity"
    using write_parts_full [OF assms(1) assms(2) [unfolded write_entry_def]] by simp_all
  assume fits: "length (sw_buffer w) + length (enc_record e) \<le> buf_capacity"
  let ?t = "[record_byte (entry_record_type e)]" and ?n = "u32_to_le (of_nat (length (payload_bytes e)))" and ?p = "payload_bytes e"
  have cap: "buf_capacity = 8192" by (simp add: buf_capacity_def)
  have step: "\<exists>w'. write_all (Some 0) bs v = (Ok (), Some 0, w') \<and> sw_buffer w' = sw_buffer v @ bs"
    if v: "length (sw_buffer v) + length bs \<le> buf_capacity" "sw_buffer v \<noteq> [] \<or> length bs < buf_capacity" for v bs
  proof -
    obtain r b w' where q: "write_all (Some 0) bs v = (r, b, w')" by (metis surj_pair)
    have le: "length (sw_buffer v) \<le> buf_capacity" using v(1) by simp
    note full = write_all_full [OF le q]
    have "r = Ok ()" using full(4) v by blast
    then show ?thesis using full(1,2) q extends_Ok [of bs v "()" b w'] write_all_extends [of bs v "Some 0"] by (simp add: sw_written_def)
  qed
  obtain w1 where w1: "write_all (Some 0) ?t w = (Ok (), Some 0, w1)" "sw_buffer w1 = sw_buffer w @ ?t"
    using step [of w ?t] fits by (auto simp: enc_record_eq cap)
  obtain w2 where w2: "write_all (Some 0) ?n w1 = (Ok (), Some 0, w2)" "sw_buffer w2 = sw_buffer w @ ?t @ ?n"
    using step [of w1 ?n] fits w1(2) by (auto simp: enc_record_eq)
  obtain w3 where "write_all (Some 0) ?p w2 = (Ok (), Some 0, w3)"
    using step [of w2 ?p] fits w2(2) by (auto simp: enc_record_eq)
  with w1(1) w2(1) assms(2) show "r = Ok ()" by (simp add: write_entry_def record_parts_def Let_def)
qed

lemma write_entries_full:
  assumes "length (sw_buffer w) \<le> buf_capacity" "write_entries (Some 0) es w = (r, b, w')"
  shows "b = Some 0 \<and> sw_file w' = sw_file w \<and> length (sw_buffer w') \<le> buf_capacity \<and>
    (length (sw_buffer w) + length (concat (map (enc_record \<circ> wal_entry_to_segment) es)) \<le> buf_capacity \<longrightarrow> r = Ok ())"
  using assms
proof (induction es arbitrary: w)
  case (Cons e es)
  obtain r1 b1 w1 where q: "write_entry (Some 0) (wal_entry_to_segment e) w = (r1, b1, w1)" by (metis surj_pair)
  note full = write_entry_full [OF Cons.prems(1) q]
  show ?case
  proof (cases r1)
    case (Inl f)
    then show ?thesis using Cons.prems(2) q full by auto
  next
    case (Inr u)
    have "sw_buffer w1 = sw_buffer w @ enc_record (wal_entry_to_segment e)"
      using write_entry_Ok [OF q [unfolded Inr]] full(2) by (simp add: sw_written_def)
    then show ?thesis using Cons.prems(2) q full Cons.IH [OF full(3)] Inr by auto
  qed
qed simp

lemma complete_entries_less: "n < length (concat (map enc_record es)) \<Longrightarrow> length (complete_entries n es) < length es"
  by (induction n es rule: complete_entries.induct) auto

text \<open>What a flush leaves of the stream, and what the next one without faults makes of it.\<close>

lemma fof_flush_stream:
  assumes "fof_flush F w = (r, w1)"
  shows "bw_buffer w1 = [] \<and> (\<exists>b w' b'. write_entries (wf_budget F) (bw_buffer w) (bw_writer w) = (b, b', w') \<and> sw_written (bw_writer w1) = sw_written w')"
proof -
  obtain r1 b1 v where q: "write_entries (wf_budget F) (bw_buffer w) (bw_writer w) = (r1, b1, v)" by (metis surj_pair)
  obtain r2 b2 v2 where q2: "flush_buf b1 v = (r2, b2, v2)" by (metis surj_pair)
  have "sw_written v2 = sw_written v" using flush_buf_extends [of v b1] q2 by (simp add: extends_def)
  then show ?thesis using assms q q2
    by (auto simp: fof_flush_def writer_sync_def sw_written_def split: sum.splits if_splits)
qed

lemma failed_flush_stream:
  assumes "length (sw_buffer (bw_writer w)) \<le> buf_capacity" "fof_flush \<lparr>wf_budget = Some 0, wf_sync = s\<rparr> w = (r, w1)"
  defines "pending \<equiv> concat (map (enc_record \<circ> wal_entry_to_segment) (bw_buffer w))"
  obtains k where "sw_written (bw_writer w1) = sw_written (bw_writer w) @ take k pending" "k \<le> length pending"
    "k = length pending \<longleftrightarrow> length (sw_buffer (bw_writer w)) + length pending \<le> buf_capacity"
proof -
  obtain r1 b1 v where q: "write_entries (Some 0) (bw_buffer w) (bw_writer w) = (r1, b1, v)" by (metis surj_pair)
  have v: "sw_written (bw_writer w1) = sw_written v" using fof_flush_stream [OF assms(2)] q by auto
  obtain k where k: "k \<le> length pending" "sw_written v = sw_written (bw_writer w) @ take k pending" "r1 = Ok () \<Longrightarrow> k = length pending"
    using write_entries_extends [of "bw_buffer w" "bw_writer w" "Some 0"] unfolding q pending_def [symmetric] by (rule extendsE) blast
  note full = write_entries_full [OF assms(1) q]
  have "sw_buffer v = sw_buffer (bw_writer w) @ take k pending" using k(2) full by (simp add: sw_written_def)
  then have "length (sw_buffer (bw_writer w)) + k \<le> buf_capacity" using full k(1) by (metis length_append length_take min.absorb2)
  with full k(3) have "k = length pending \<longleftrightarrow> length (sw_buffer (bw_writer w)) + length pending \<le> buf_capacity"
    unfolding pending_def by blast
  with k v show thesis by (intro that) auto
qed

lemma buffered_no_pending: "bw_buffer w = [] \<Longrightarrow> buffered_holds w es d \<longleftrightarrow> writer_holds (bw_writer w) es d"
  by (auto simp: buffered_holds_def)

text \<open>A synced stream that stops inside the entries replays to fewer of them.\<close>

lemma cut_replay:
  assumes "\<forall>e \<in> set es. entry_fits e" "n < length (concat (map enc_record es))"
  shows "length (segment_entries (segment_header_bytes i @ take n (concat (map enc_record es)))) < length es"
  using read_log_prefix [OF assms(1)] complete_entries_less [OF assms(2)] by (simp add: segment_entries_body)

lemma crash_image_synced: "synced w bs \<Longrightarrow> crash_image w f \<longleftrightarrow> f = bs"
  by (auto simp: synced_def crash_image_def)

subsection \<open>Properties\<close>

text \<open>
  C10. Durability of the write-ahead log, when no write or sync fails: for every strategy that logs
  (all but \<^verbatim>\<open>no-wal\<close>), log entries and flush in any order on a fresh log. Whatever a crash then leaves of the
  segment file (any prefix of it with at least the synced part), replaying it returns a prefix of what
  was logged, in order and with no torn record, and that prefix has every entry logged before the last
  flush.
\<close>

theorem wal_flush_durable:
  assumes "config \<noteq> CfgNoWal"
    and "w = fold (\<lambda>st w. case st of LogStep e \<Rightarrow> snd (log_mutation no_fault e w) | FlushStep \<Rightarrow> snd (flush_and_sync no_fault w))
      steps (snd (create_wal config segment_id))"
    and "\<forall>e \<in> set (logged steps). entry_fits (wal_entry_to_segment e)"
    and "crash_image (wal_file w) f"
  shows "\<exists>k \<ge> flushed steps. segment_entries f = map norm_entry (take k (map wal_entry_to_segment (logged steps)))"
  using dyn.steps_durable [OF create_wal_holds [OF assms(1)] assms(3)] assms(2,4) by simp

theorem wal_flush_durable_witness:
  "\<exists>w f. w = fold (\<lambda>st w. case st of LogStep e \<Rightarrow> snd (log_mutation no_fault e w) | FlushStep \<Rightarrow> snd (flush_and_sync no_fault w))
       [LogStep (WalRootUpdate (Digest224 1 0 0 0 0 0 0)), FlushStep, LogStep (WalRootUpdate (Digest224 2 0 0 0 0 0 0)), FlushStep,
        LogStep (WalRootUpdate (Digest224 3 0 0 0 0 0 0))] (snd (create_wal CfgFlushOnFsync 1)) \<and>
     crash_image (wal_file w) f \<and>
     (\<exists>k \<ge> 2. segment_entries f = map norm_entry (take k
        [RootUpdate (Digest224 1 0 0 0 0 0 0), RootUpdate (Digest224 2 0 0 0 0 0 0), RootUpdate (Digest224 3 0 0 0 0 0 0)]))"
proof -
  let ?e1 = "WalRootUpdate (Digest224 1 0 0 0 0 0 0)" and ?e2 = "WalRootUpdate (Digest224 2 0 0 0 0 0 0)"
    and ?e3 = "WalRootUpdate (Digest224 3 0 0 0 0 0 0)"
  let ?steps = "[LogStep ?e1, FlushStep, LogStep ?e2, FlushStep, LogStep ?e3]"
  let ?w = "fold (\<lambda>st w. case st of LogStep e \<Rightarrow> snd (log_mutation no_fault e w) | FlushStep \<Rightarrow> snd (flush_and_sync no_fault w))
      ?steps (snd (create_wal CfgFlushOnFsync 1))"
  let ?v = "snd (fof_log no_fault ?e2 (snd (fof_flush no_fault (snd (fof_log no_fault ?e1 (fof_new 1))))))"
  obtain w' bs where flush: "fof_flush no_fault ?v = (Ok (), w')" "synced (bw_writer w') bs" by (rule fof_flush_ok)
  have w: "wal_file ?w = bw_writer w'"
    using flush(1) by (simp add: create_wal_def map_wal_def fof_log_def)
  have image: "crash_image (wal_file ?w) bs" unfolding w crash_image_synced [OF flush(2)] by (rule refl)
  have steps: "logged ?steps = [?e1, ?e2, ?e3]" "flushed ?steps = 2" by (simp_all add: flushed_def)
  have "\<exists>k \<ge> flushed ?steps. segment_entries bs = map norm_entry (take k (map wal_entry_to_segment (logged ?steps)))"
    by (rule wal_flush_durable [OF _ refl _ image]) (simp_all add: steps)
  with image show ?thesis unfolding steps by (intro exI [of _ ?w] exI [of _ bs]) simp
qed



text \<open>
  C40. What a failed flush loses: let the disk be full during one flush of the flush-on-fsync strategy
  (it accepts no byte) and let the next flush run without faults. The next flush reports success. All
  entries logged so far replay from the file it leaves exactly when the records of the pending entries
  fitted what was left of the 8 KiB buffer of the writer; otherwise the first flush has drained them
  without writing all of them, and the log stays incomplete although the later flush succeeded.
\<close>

theorem failed_flush_replay:
  assumes "buffered_holds w es d" and fits: "\<forall>e \<in> set es. entry_fits e"
    and "length (sw_buffer (bw_writer w)) \<le> 8192"
    and "fof_flush \<lparr>wf_budget = Some 0, wf_sync = s\<rparr> w = (r, w1)" and "fof_flush no_fault w1 = (r2, w2)"
    and "crash_image (bw_writer w2) f"
  shows "r2 = Ok () \<and> (segment_entries f = map norm_entry es \<longleftrightarrow>
    length (sw_buffer (bw_writer w)) + length (concat (map (enc_record \<circ> wal_entry_to_segment) (bw_buffer w))) \<le> 8192)"
proof -
  let ?pending = "concat (map (enc_record \<circ> wal_entry_to_segment) (bw_buffer w))"
  have cap: "buf_capacity = 8192" by (simp add: buf_capacity_def)
  obtain ps where es: "es = ps @ map wal_entry_to_segment (bw_buffer w)" and ps: "writer_holds (bw_writer w) ps d"
    using assms(1) by (rule buffered_holds_cases)
  obtain i where written: "sw_written (bw_writer w) = segment_header_bytes i @ concat (map enc_record ps)"
    using ps by (auto simp: writer_holds_def)
  obtain k where k: "sw_written (bw_writer w1) = sw_written (bw_writer w) @ take k ?pending" "k \<le> length ?pending"
    "k = length ?pending \<longleftrightarrow> length (sw_buffer (bw_writer w)) + length ?pending \<le> 8192"
    using failed_flush_stream [OF assms(3) [folded cap] assms(4)] unfolding cap by blast
  have "bw_buffer w1 = []" using fof_flush_stream [OF assms(4)] by simp
  then have r2: "r2 = Ok ()" and "synced (bw_writer w2) (sw_written (bw_writer w1))"
    using fof_flush_ok [of w1] assms(5) by auto
  then have f: "f = segment_header_bytes i @ take (length (concat (map enc_record ps)) + k) (concat (map enc_record es))"
    using assms(6) by (simp add: crash_image_synced k(1) written es)
  have "segment_entries f = map norm_entry es \<longleftrightarrow> k = length ?pending"
  proof
    assume "k = length ?pending"
    then show "segment_entries f = map norm_entry es"
      using read_log [OF fits] f by (simp add: segment_entries_body es)
  next
    assume all: "segment_entries f = map norm_entry es"
    show "k = length ?pending"
    proof (rule ccontr)
      assume "k \<noteq> length ?pending"
      with k(2) have "length (concat (map enc_record ps)) + k < length (concat (map enc_record es))" by (simp add: es)
      from cut_replay [OF fits this, of i] all f show False by simp
    qed
  qed
  with r2 k(3) show ?thesis by simp
qed

theorem failed_flush_replay_witness:
  "\<exists>f. crash_image (bw_writer (snd (fof_flush no_fault (snd (fof_flush \<lparr>wf_budget = Some 0, wf_sync = False\<rparr>
        (fof_new 1\<lparr>bw_buffer := replicate 300 (WalRootUpdate (Digest224 1 0 0 0 0 0 0))\<rparr>)))))) f \<and>
     segment_entries f \<noteq> replicate 300 (RootUpdate (Digest224 1 0 0 0 0 0 0))"
proof -
  let ?e = "WalRootUpdate (Digest224 1 0 0 0 0 0 0)" and ?es = "replicate 300 (RootUpdate (Digest224 1 0 0 0 0 0 0))"
  let ?w = "fof_new 1\<lparr>bw_buffer := replicate 300 ?e\<rparr>"
  obtain r w1 where q: "fof_flush \<lparr>wf_budget = Some 0, wf_sync = False\<rparr> ?w = (r, w1)" by (metis surj_pair)
  obtain w2 bs where q2: "fof_flush no_fault w1 = (Ok (), w2)" "synced (bw_writer w2) bs" by (rule fof_flush_ok)
  have image: "crash_image (bw_writer w2) bs" using q2(2) by (simp add: crash_image_synced)
  have holds: "buffered_holds ?w ?es 0"
    using writer_holds_new by (auto simp: buffered_holds_def fof_new_def)
  have buffer: "length (sw_buffer (bw_writer ?w)) = 16"
    by (simp add: fof_new_def writer_new_def flip: segment_header_bytes_def)
  have pending: "length (concat (map (enc_record \<circ> wal_entry_to_segment) (bw_buffer ?w))) = 9900"
    by (simp add: length_concat length_enc_record sum_list_replicate)
  have "segment_entries bs \<noteq> map norm_entry ?es"
    using failed_flush_replay [OF holds _ _ q q2(1) image] buffer pending by simp
  then have "segment_entries bs \<noteq> ?es" by simp
  with image q q2(1) show ?thesis by auto
qed

end
