(* ===== verification/Recovery.thy ===== *)
theory Recovery
  imports Wal
begin

section \<open>Recovery, compaction and garbage collection of segments\<close>

text \<open>
  Replay of the segment directory at mount, the compaction of one segment
  (\<^verbatim>\<open>segment/compaction.rs\<close>) and the garbage collector (\<^verbatim>\<open>gc/mod.rs\<close>) that compacts every segment of
  the directory. A directory is the list of its files in the order the listing returns them.
\<close>

fun dir_put :: "rstring \<Rightarrow> bytes \<Rightarrow> seg_dir \<Rightarrow> seg_dir" where
  "dir_put n f [] = [(n, f)]"
| "dir_put n f ((n', f') # dir) = (if n' = n then (n, f) # dir else (n', f') # dir_put n f dir)"

definition dir_del :: "rstring \<Rightarrow> seg_dir \<Rightarrow> seg_dir" where
  "dir_del n dir = filter (\<lambda>(n', _). n' \<noteq> n) dir"

subsection \<open>Compaction\<close>

record compaction_result =
  entries_kept :: nat
  entries_removed :: nat

definition kept :: "nat \<Rightarrow> compaction_result" where
  "kept n = \<lparr>entries_kept = n, entries_removed = 0\<rparr>"

fun compact_loop ::
  "nat option \<Rightarrow> segment_entry list \<Rightarrow> nat \<Rightarrow> segment_writer \<Rightarrow> (io_error + nat) \<times> nat option \<times> segment_writer" where
  "compact_loop budget [] n w = (Ok n, budget, w)"
| "compact_loop budget (entry # rest) n w =
     (case write_entry budget entry w of
        (Err e, budget, w) \<Rightarrow> (Err e, budget, w)
      | (Ok _, budget, w) \<Rightarrow> compact_loop budget rest (Suc n) w)"

definition compact_name :: "u64 \<Rightarrow> rstring" where
  "compact_name output_segment_id = segment_file_name 3 output_segment_id"

definition tmp_name :: "u64 \<Rightarrow> rstring" where
  "tmp_name output_segment_id = compact_name output_segment_id @ str ''.tmp''"

text \<open>
  \<open>F\<close>: the faults of the writer; \<open>rename_fails\<close>: the final rename fails. A failure drops the writer and
  leaves under the temporary name what reached the file.
\<close>

definition compact_segment ::
  "wal_fault \<Rightarrow> bool \<Rightarrow> rstring \<Rightarrow> u64 \<Rightarrow> seg_dir \<Rightarrow> (io_error + compaction_result) \<times> seg_dir" where
  "compact_segment F rename_fails segment_path output_segment_id dir =
     (case map_of dir segment_path of
        None \<Rightarrow> (Err IoError, dir)
      | Some f \<Rightarrow>
          (case reader_open f of
             Err e \<Rightarrow> (Err e, dir)
           | Ok body \<Rightarrow>
               let input_entries = read_records body;
                   (r, budget, w) = compact_loop (wf_budget F) input_entries 0 (writer_new output_segment_id)
               in case r of
                 Err e \<Rightarrow> (Err e, dir_put (tmp_name output_segment_id) (writer_drop budget w) dir)
               | Ok n \<Rightarrow>
                   (case writer_close budget (wf_sync F) w of
                      (Err e, budget, w) \<Rightarrow> (Err e, dir_put (tmp_name output_segment_id) (writer_drop budget w) dir)
                    | (Ok _, budget, w) \<Rightarrow>
                        if rename_fails
                        then (Err IoError, dir_put (tmp_name output_segment_id) (writer_drop budget w) dir)
                        else (Ok (kept n),
                              dir_put (compact_name output_segment_id) (writer_drop budget w)
                                (dir_del (tmp_name output_segment_id) dir)))))"

subsection \<open>Garbage collection\<close>

record gc_stats =
  entries_scanned :: nat
  gc_entries_removed :: nat
  segments_compacted :: nat

definition gc_stats_default :: gc_stats where
  "gc_stats_default = \<lparr>entries_scanned = 0, gc_entries_removed = 0, segments_compacted = 0\<rparr>"

text \<open>\<^verbatim>\<open>Path::extension\<close>: a file whose whole name is \<^verbatim>\<open>.seg\<close> has none.\<close>

definition has_seg_extension :: "rstring \<Rightarrow> bool" where
  "has_seg_extension name \<longleftrightarrow> ends_with (str ''.seg'') name \<and> 4 < length name"

definition parse_segment_id :: "rstring \<Rightarrow> u64 option" where
  "parse_segment_id name =
     (let stem = take (length name - 4) name in
      if starts_with (str ''segment-'') stem then parse_u64 (drop 8 stem) else None)"

definition compact_id :: "rstring \<Rightarrow> u64" where
  "compact_id name = (case parse_segment_id name of Some i \<Rightarrow> i | None \<Rightarrow> 0) + 100000"

fun gc_loop ::
  "(rstring \<Rightarrow> wal_fault \<times> bool) \<Rightarrow> rstring list \<Rightarrow> gc_stats \<Rightarrow> seg_dir \<Rightarrow> (io_error + gc_stats) \<times> seg_dir" where
  "gc_loop F [] stats dir = (Ok stats, dir)"
| "gc_loop F (seg_path # rest) stats dir =
     (case compact_segment (fst (F seg_path)) (snd (F seg_path)) seg_path (compact_id seg_path) dir of
        (Err e, dir) \<Rightarrow> (Err e, dir)
      | (Ok result, dir) \<Rightarrow>
          gc_loop F rest
            \<lparr>entries_scanned = entries_scanned stats + (entries_kept result + entries_removed result),
             gc_entries_removed = gc_entries_removed stats + entries_removed result,
             segments_compacted = segments_compacted stats + 1\<rparr> dir)"

text \<open>\<open>F\<close> gives the faults met while compacting each file; a missing directory is an empty one.\<close>

definition run_gc_inner :: "(rstring \<Rightarrow> wal_fault \<times> bool) \<Rightarrow> seg_dir \<Rightarrow> (io_error + gc_stats) \<times> seg_dir" where
  "run_gc_inner F dir =
     gc_loop F (filter has_seg_extension (map fst dir)) gc_stats_default dir"

subsection \<open>Replay in terms of entries\<close>

lemma replay_files_entries:
  "\<forall>(n, f) \<in> set fs. length f < 16 \<or> (\<exists>body. reader_open f = Ok body) \<Longrightarrow>
   replay_files fs s = Ok (fold replay_entry (concat (map (segment_entries \<circ> snd) fs)) s)"
proof (induction fs arbitrary: s)
  case (Cons nf fs)
  obtain n f where nf: "nf = (n, f)" by (cases nf)
  show ?case
  proof (cases "length f < 16")
    case True
    with Cons nf show ?thesis by (simp add: segment_entries_def)
  next
    case False
    with Cons.prems nf obtain body where "reader_open f = Ok body" by auto
    with Cons False nf show ?thesis by (simp add: segment_entries_def)
  qed
qed simp

definition last_root :: "segment_entry list \<Rightarrow> digest224 option" where
  "last_root es = fold (\<lambda>e r. case e of RootUpdate d \<Rightarrow> Some d | _ \<Rightarrow> r) es None"

definition snapshots_of :: "segment_entry list \<Rightarrow> snapshot_entry list" where
  "snapshots_of es = List.map_filter as_snapshot_entry es"

lemma last_root_Nil [simp]: "last_root [] = None"
  and snapshots_of_append [simp]: "snapshots_of (es @ fs) = snapshots_of es @ snapshots_of fs"
  by (simp_all add: last_root_def snapshots_of_def map_filter_def)

lemma last_root_snoc:
  "last_root (es @ [e]) = (case e of RootUpdate d \<Rightarrow> Some d | SnapshotRecord _ _ _ _ \<Rightarrow> last_root es)"
  by (simp add: last_root_def split: segment_entry.split)

lemma last_root_acc:
  "fold (\<lambda>e r. case e of RootUpdate d \<Rightarrow> Some d | _ \<Rightarrow> r) es r0 =
     (case last_root es of None \<Rightarrow> r0 | Some r \<Rightarrow> Some r)"
  by (induction es rule: rev_induct) (simp_all add: last_root_snoc split: segment_entry.split)

lemma last_root_append:
  "last_root (es @ fs) = (case last_root fs of None \<Rightarrow> last_root es | Some r \<Rightarrow> Some r)"
  by (induction fs rule: rev_induct)
    (simp_all add: last_root_snoc split: segment_entry.split flip: append_assoc)

lemma replay_entries:
  "fold replay_entry es s =
     (case last_root es of None \<Rightarrow> fst s | Some r \<Rightarrow> Some r, snd s @ snapshots_of es)"
proof -
  have "fold replay_entry es s =
      (fold (\<lambda>e r. case e of RootUpdate d \<Rightarrow> Some d | _ \<Rightarrow> r) es (fst s), snd s @ snapshots_of es)"
  proof (induction es arbitrary: s)
    case (Cons e es)
    then show ?case by (cases e) (simp_all add: replay_entry_def snapshots_of_def map_filter_def)
  qed (simp add: snapshots_of_def map_filter_def)
  then show ?thesis by (simp add: last_root_acc)
qed

subsection \<open>What replay returns\<close>

definition openable :: "bytes \<Rightarrow> bool" where
  "openable f \<longleftrightarrow> length f < 16 \<or> (\<exists>body. reader_open f = Ok body)"

definition dir_entries :: "seg_dir \<Rightarrow> segment_entry list" where
  "dir_entries fs = concat (map (segment_entries \<circ> snd) fs)"

lemma load_sorted:
  assumes "mset dir = mset fs" "sorted (map fst fs)" "distinct (map fst fs)"
    and "\<forall>(n, f) \<in> set fs. is_segment_name n \<and> openable f"
  shows "load_store_from_segments dir = Ok (last_root (dir_entries fs), snapshots_of (dir_entries fs))"
proof -
  have set_eq: "set dir = set fs" using assms(1) by (metis set_mset_mset)
  have all: "filter (\<lambda>(n, _). is_segment_name n) dir = dir"
    by (rule filter_True) (use assms(4) set_eq in blast)
  have "inj_on fst (set dir)" unfolding set_eq using assms(3) by (simp only: distinct_map)
  then have "sort_key fst dir = fs" by (rule sort_key_inj_key_eq [OF assms(1) _ assms(2)])
  note sorted = this
  have "\<forall>(n, f) \<in> set fs. length f < 16 \<or> (\<exists>body. reader_open f = Ok body)"
    using assms(4) unfolding openable_def by blast
  note replay = replay_files_entries [OF this, of "(None, [])"]
  have "load_store_from_segments dir = Ok (fold replay_entry (dir_entries fs) (None, []))"
    unfolding load_store_from_segments_def all sorted replay dir_entries_def ..
  then show ?thesis by (simp add: replay_entries split: option.splits)
qed

subsection \<open>Compaction keeps the entries\<close>

lemma parse_root_fits: "parse_root_update p = Some e \<Longrightarrow> entry_fits e \<and> norm_entry e = e"
  by (auto simp: parse_root_update_def split: if_splits)

lemma parse_snapshot_fits:
  assumes "parse_snapshot_record p = Some e" "length p < 4294967296"
  shows "entry_fits e \<and> norm_entry e = e"
proof -
  define k where "k = unat (u32_from_le (slice p 44 48))"
  define v r c where "v = u64_from_le (slice p 0 8)" "r = digest_from_le (slice p 8 36)"
    "c = u64_from_le (slice p 36 44)"
  have p: "48 + k \<le> length p" and e: "if k = 0 then e = SnapshotRecord v r c None
      else \<exists>name. from_utf8 (slice p 48 (48 + k)) = Some name \<and> e = SnapshotRecord v r c (Some name)"
    using assms(1) unfolding parse_snapshot_record_def Let_def k_def v_r_c_def
    by (simp_all split: if_splits option.splits)
  show ?thesis
  proof (cases "k = 0")
    case False
    with e obtain name where name: "from_utf8 (slice p 48 (48 + k)) = Some name"
      "e = SnapshotRecord v r c (Some name)" by auto
    then have "utf8_valid name" "length name = k"
      using p by (auto dest!: from_utf8_SomeD)
    with False p assms(2) name(2) show ?thesis by auto
  qed (use e in simp)
qed

lemma read_records_cases:
  "read_records bs = [] \<or> (\<exists>r. length r < length bs \<and> read_records bs = read_records r) \<or>
   (\<exists>e p r. length r < length bs \<and> length p < 4294967296 \<and> read_records bs = e # read_records r \<and>
      (parse_root_update p = Some e \<or> parse_snapshot_record p = Some e))"
proof (cases "length bs < 5")
  case False
  obtain t n r where t: "hd bs = t" and n: "unat (u32_from_le (slice bs 1 5)) = n" and r: "drop 5 bs = r"
    by blast
  note step = read_step [OF False t n r]
  have len: "length (drop n r) < length bs" using False r by auto
  have p: "length (take n r) < 4294967296"
    using unat_u32_less [of "u32_from_le (slice bs 1 5)"] n by simp
  have "read_records bs = [] \<or> read_records bs = read_records (drop n r) \<or>
      (\<exists>e. read_records bs = e # read_records (drop n r) \<and>
         (parse_root_update (take n r) = Some e \<or> parse_snapshot_record (take n r) = Some e))"
  proof (cases "record_from_u8 t")
    case (Some rt)
    then show ?thesis
      using step by (cases rt; cases "parse_root_update (take n r)"; cases "parse_snapshot_record (take n r)")
        (simp_all del: drop_drop)
  qed (use step in simp)
  with len p show ?thesis by blast
qed (simp add: read_short)

lemma read_records_fit: "e \<in> set (read_records bs) \<Longrightarrow> entry_fits e \<and> norm_entry e = e"
proof (induction "length bs" arbitrary: bs rule: less_induct)
  case less
  from read_records_cases [of bs] show ?case
  proof (elim disjE exE conjE)
    fix r assume r: "length r < length bs" "read_records bs = read_records r"
    then show ?thesis using less.hyps [OF r(1)] less.prems by simp
  next
    fix x p r
    assume r: "length r < length bs" "read_records bs = x # read_records r" and p: "length p < 4294967296"
      "parse_root_update p = Some x"
    then show ?thesis using less.hyps [OF r(1)] less.prems parse_root_fits [OF p(2)] by auto
  next
    fix x p r
    assume r: "length r < length bs" "read_records bs = x # read_records r" and p: "length p < 4294967296"
      "parse_snapshot_record p = Some x"
    then show ?thesis using less.hyps [OF r(1)] less.prems parse_snapshot_fits [OF p(2,1)] by auto
  qed (use less.prems in simp)
qed

lemma compact_loop_written:
  "compact_loop b es n w = (Ok m, b', w') \<Longrightarrow>
   sw_written w' = sw_written w @ concat (map enc_record es) \<and> m = n + length es"
proof (induction b es n w rule: compact_loop.induct)
  case (2 b e es n w)
  obtain r b1 w1 where w1: "write_entry b e w = (r, b1, w1)" by (metis surj_pair)
  with "2.prems" obtain u where r: "r = Ok u" by (cases r) auto
  have "sw_written w1 = sw_written w @ enc_record e" using write_entry_Ok [OF w1 [unfolded r]] by simp
  with "2.IH" [OF w1 [symmetric] r refl] "2.prems" w1 r show ?case by simp
qed simp

lemma compact_loop_None: "\<exists>m w'. compact_loop None es n w = (Ok m, None, w')"
proof (induction es arbitrary: n w)
  case (Cons e es)
  obtain w1 where "write_entry None e w = (Ok (), None, w1)" by (rule write_entry_None)
  with Cons.IH show ?case by simp
qed simp

definition compacted :: "u64 \<Rightarrow> bytes \<Rightarrow> bytes" where
  "compacted i f = segment_header_bytes i @ concat (map enc_record (segment_entries f)) @ eof_record"

text \<open>A compaction either fails or writes the complete copy, whatever faults it meets.\<close>

lemma compact_segment_cases:
  assumes "compact_segment F rf name i dir = (r, dir')"
  shows "(\<exists>e. r = Err e \<and> (dir' = dir \<or> (\<exists>g. dir' = dir_put (tmp_name i) g dir))) \<or>
    (\<exists>f. map_of dir name = Some f \<and> 16 \<le> length f \<and> r = Ok (kept (length (segment_entries f))) \<and>
       dir' = dir_put (compact_name i) (compacted i f) (dir_del (tmp_name i) dir))"
proof (cases "\<exists>f body. map_of dir name = Some f \<and> reader_open f = Ok body")
  case True
  then obtain f body where f: "map_of dir name = Some f" "reader_open f = Ok body" by blast
  then have len: "16 \<le> length f" by (auto simp: reader_open_def split: if_splits)
  then have es: "segment_entries f = read_records body" using f by (simp add: segment_entries_def)
  obtain rl b w where loop: "compact_loop (wf_budget F) (read_records body) 0 (writer_new i) = (rl, b, w)"
    by (metis surj_pair)
  note simps = compact_segment_def f loop
  show ?thesis
  proof (cases rl)
    case (Inl e)
    then show ?thesis using assms by (auto simp: simps)
  next
    case (Inr n)
    have w: "sw_written w = segment_header_bytes i @ concat (map enc_record (segment_entries f))"
      "n = length (segment_entries f)"
      using compact_loop_written [of _ _ 0 "writer_new i"] loop Inr es
      by (simp_all add: segment_header_bytes_def)
    obtain rc b2 w2 where close: "writer_close b (wf_sync F) w = (rc, b2, w2)" by (metis surj_pair)
    have "writer_drop b2 w2 = compacted i f" if "rc = Ok u" for u
      using writer_close_Ok [OF close [unfolded that]] w(1) by (simp add: compacted_def writer_drop_synced)
    with assms Inr close f(1) len w(2) show ?thesis
      by (cases rc) (auto simp: simps split: if_splits)
  qed
next
  case False
  then show ?thesis
    using assms by (auto simp: compact_segment_def split: option.splits sum.splits)
qed

lemma compact_segment_Ok:
  assumes "map_of dir name = Some f" "compact_segment F rf name i dir = (Ok res, dir')"
  shows "res = kept (length (segment_entries f)) \<and>
    dir' = dir_put (compact_name i) (compacted i f) (dir_del (tmp_name i) dir)"
  using compact_segment_cases [OF assms(2)] assms(1) by auto

lemma compact_segment_succeeds:
  assumes "map_of dir name = Some f" "16 \<le> length f" "openable f"
  shows "\<exists>res dir'. compact_segment no_fault False name i dir = (Ok res, dir')"
proof -
  obtain body where body: "reader_open f = Ok body" using assms(2,3) by (auto simp: openable_def)
  obtain m w where loop: "compact_loop None (read_records body) 0 (writer_new i) = (Ok m, None, w)"
    using compact_loop_None by blast
  obtain w' where "writer_close None False w = (Ok (), None, w')" by (rule writer_close_None)
  then show ?thesis using assms(1) body loop by (simp add: compact_segment_def no_fault_def)
qed

lemma segment_entries_fit: "e \<in> set (segment_entries f) \<Longrightarrow> entry_fits e \<and> norm_entry e = e"
  using read_records_fit by (auto simp: segment_entries_def split: if_splits sum.splits)

lemma segment_entries_compacted: "segment_entries (compacted i f) = segment_entries f"
proof -
  have "map norm_entry (segment_entries f) = segment_entries f"
    using segment_entries_fit by (intro map_idI) blast
  then show ?thesis
    using read_log(2) [of "segment_entries f" "[]"] segment_entries_fit
    by (simp add: compacted_def segment_entries_body)
qed

lemma openable_compacted: "openable (compacted i f)"
  by (auto simp: openable_def compacted_def reader_open_segment)

subsection \<open>Segment names\<close>

lemma segment_file_name_is: "is_segment_name (segment_file_name w i)"
proof -
  have "length (str ''segment-'') = 8" "length (str ''.seg'') = 4" by (simp_all add: str_def)
  then show ?thesis by (simp add: is_segment_name_def starts_with_def ends_with_def segment_file_name_def)
qed

lemma segment_name_less:
  assumes "0 < w" "unat i < unat j" "unat j < 10 ^ w"
  shows "segment_file_name w i < segment_file_name w j"
proof -
  have "fmt_padded w (unat i) @ str ''.seg'' < fmt_padded w (unat j) @ str ''.seg''"
    using assms by (intro list_less_append_tail fmt_padded_mono) (simp_all add: length_fmt_padded)
  then show ?thesis by (simp add: segment_file_name_def list_less_append_head)
qed

lemma segment_name_inj:
  assumes "0 < w" "unat i < 10 ^ w" "unat j < 10 ^ w" "segment_file_name w i = segment_file_name w j"
  shows "i = j"
proof -
  have "unat i = unat j"
    using segment_name_less [OF assms(1), of i j] segment_name_less [OF assms(1), of j i] assms(2-4)
    by (metis less_irrefl linorder_neqE_nat)
  then show ?thesis by (simp add: word_unat_eq_iff)
qed

lemma segment_name_width:
  assumes "10 ^ 5 \<le> unat i" "unat i < 10 ^ 6"
  shows "segment_file_name 3 i = segment_file_name 6 i"
proof -
  have "\<not> unat i < 10" "\<not> unat i div 10 < 10" "\<not> unat i div 10 div 10 < 10" "\<not> unat i div 10 div 10 div 10 < 10"
    "\<not> unat i div 10 div 10 div 10 div 10 < 10"
    using assms(1) by (simp_all add: div_mult2_eq [symmetric] less_eq_div_iff_mult_less_eq not_less)
  then have "6 \<le> length (dec_digits (unat i))"
    by (simp add: dec_digits.simps [of "unat i"] dec_digits.simps [of "unat i div 10"]
        dec_digits.simps [of "unat i div 10 div 10"] dec_digits.simps [of "unat i div 10 div 10 div 10"]
        dec_digits.simps [of "unat i div 10 div 10 div 10 div 10"] Suc_le_eq)
  then show ?thesis by (simp add: segment_file_name_def fmt_padded_def)
qed

lemma parse_segment_file_name: "parse_segment_id (segment_file_name w i) = Some i"
proof -
  have len: "length (str ''segment-'') = 8" "length (str ''.seg'') = 4" by (simp_all add: str_def)
  have "take (length (segment_file_name w i) - 4) (segment_file_name w i) =
      str ''segment-'' @ fmt_padded w (unat i)"
    using len by (simp add: segment_file_name_def)
  then show ?thesis
    using len parse_u64_padded [of "unat i" w] unat_u64_less [of i]
    by (simp add: parse_segment_id_def starts_with_def Let_def)
qed

lemma segment_name_extension: "has_seg_extension (segment_file_name w i)"
proof -
  have "length (str ''segment-'') = 8" "length (str ''.seg'') = 4" by (simp_all add: str_def)
  then show ?thesis by (simp add: has_seg_extension_def ends_with_def segment_file_name_def)
qed

lemma tmp_name_not_segment: "tmp_name i \<noteq> segment_file_name w j"
proof
  assume "tmp_name i = segment_file_name w j"
  then have "last (tmp_name i) = last (segment_file_name w j)" by simp
  then show False by (simp add: tmp_name_def segment_file_name_def str_def)
qed

subsection \<open>A garbage collection run\<close>

lemma dir_put_fresh: "n \<notin> fst ` set dir \<Longrightarrow> dir_put n f dir = dir @ [(n, f)]"
  by (induction dir) auto

lemma dir_del_fresh: "n \<notin> fst ` set dir \<Longrightarrow> dir_del n dir = dir"
  unfolding dir_del_def by (rule filter_True) force

definition seg_file :: "u64 \<times> bytes \<Rightarrow> rstring \<times> bytes" where
  "seg_file p = (segment_file_name 6 (fst p), snd p)"

definition gc_file :: "u64 \<times> bytes \<Rightarrow> rstring \<times> bytes" where
  "gc_file p = (segment_file_name 6 (fst p + 100000), compacted (fst p + 100000) (snd p))"

lemma unat_gc_id: "unat i < 100000 \<Longrightarrow> unat (i + 100000 :: u64) = unat i + 100000"
  by (subst unat_add_lem [THEN iffD1]) simp_all

text \<open>The segments of a store whose ids are small enough for the collector's output ids.\<close>

definition gc_input :: "(u64 \<times> bytes) list \<Rightarrow> bool" where
  "gc_input ps \<longleftrightarrow> distinct (map fst ps) \<and>
     (\<forall>(i, f) \<in> set ps. unat i < 100000 \<and> 16 \<le> length f \<and> openable f)"

lemma gc_names_distinct:
  assumes "gc_input ps"
  shows "distinct (map fst (map seg_file ps @ map gc_file ps))"
proof -
  have small: "unat i < 100000" if "(i, f) \<in> set ps" for i f
    using assms that by (auto simp: gc_input_def)
  have ids: "distinct (map fst ps @ map (\<lambda>p. fst p + 100000) ps)"
  proof -
    have "i \<noteq> j + 100000" if "i \<in> set (map fst ps)" "j \<in> set (map fst ps)" for i j
      using that small unat_gc_id [of j] by fastforce
    moreover have "distinct (map (\<lambda>p. fst p + 100000) ps)"
      using assms by (auto simp: gc_input_def distinct_map inj_on_def)
    ultimately show ?thesis using assms by (auto simp: gc_input_def)
  qed
  have "unat i < 10 ^ 6" if "i \<in> set (map fst ps @ map (\<lambda>p. fst p + 100000) ps)" for i
    using that small unat_gc_id by fastforce
  then have "inj_on (segment_file_name 6) (set (map fst ps @ map (\<lambda>p. fst p + 100000) ps))"
    by (intro inj_onI segment_name_inj [of 6]) simp_all
  with ids have "distinct (map (segment_file_name 6) (map fst ps @ map (\<lambda>p. fst p + 100000) ps))"
    by (simp only: distinct_map)
  then show ?thesis by (simp add: seg_file_def gc_file_def comp_def)
qed

lemma compact_seg_file:
  assumes "map_of dir (segment_file_name 6 i) = Some f" "unat i < 100000"
    and fresh: "tmp_name (i + 100000) \<notin> fst ` set dir" "segment_file_name 6 (i + 100000) \<notin> fst ` set dir"
    and run: "compact_segment F rf (segment_file_name 6 i) (compact_id (segment_file_name 6 i)) dir = (Ok res, dir')"
  shows "res = kept (length (segment_entries f)) \<and> dir' = dir @ [gc_file (i, f)]"
proof -
  have id: "compact_id (segment_file_name 6 i) = i + 100000"
    by (simp add: compact_id_def parse_segment_file_name)
  have name: "compact_name (i + 100000) = segment_file_name 6 (i + 100000)"
    using assms(2) by (simp add: compact_name_def segment_name_width unat_gc_id)
  have "dir_del (tmp_name (i + 100000)) dir = dir"
    by (rule dir_del_fresh) (rule fresh(1))
  then show ?thesis
    using compact_segment_Ok [OF assms(1) run] fresh(2) by (simp add: id name dir_put_fresh gc_file_def)
qed

text \<open>
  Whatever faults a run meets, when it reports success it has copied every segment; without faults it
  succeeds.
\<close>

lemma gc_loop_files:
  assumes "gc_input (done @ todo)"
  shows "case gc_loop F (map (fst \<circ> seg_file) todo) stats (map seg_file (done @ todo) @ map gc_file done) of
      (Ok stats', dir') \<Rightarrow> dir' = map seg_file (done @ todo) @ map gc_file (done @ todo) \<and>
        gc_entries_removed stats' = gc_entries_removed stats \<and>
        segments_compacted stats' = segments_compacted stats + length todo
    | (Err e, dir') \<Rightarrow> F \<noteq> (\<lambda>_. (no_fault, False))"
  using assms
proof (induction todo arbitrary: "done" stats)
  case (Cons p todo)
  obtain i f where p: "p = (i, f)" by (cases p)
  let ?dir = "map seg_file (done @ p # todo) @ map gc_file done"
  have pf: "unat i < 100000" "16 \<le> length f" "openable f"
    using Cons.prems p by (auto simp: gc_input_def)
  have dist: "distinct (map fst (map seg_file (done @ p # todo) @ map gc_file (done @ p # todo)))"
    by (rule gc_names_distinct) (rule Cons.prems)
  have "distinct (map fst ?dir)" using dist by auto
  moreover have "(segment_file_name 6 i, f) \<in> set ?dir" by (simp add: p seg_file_def)
  ultimately have f: "map_of ?dir (segment_file_name 6 i) = Some f" by (rule map_of_is_SomeI)
  have new: "segment_file_name 6 (i + 100000) \<notin> fst ` set ?dir"
  proof -
    have "distinct (map fst ?dir @ fst (gc_file p) # map (fst \<circ> gc_file) todo)" using dist by simp
    then have "fst (gc_file p) \<notin> set (map fst ?dir)"
      by (metis IntI distinct_append empty_iff list.set_intros(1))
    then have "fst (gc_file p) \<notin> fst ` set ?dir" by (simp only: set_map not_False_eq_True)
    moreover have "fst (gc_file p) = segment_file_name 6 (i + 100000)" by (simp add: p gc_file_def)
    ultimately show ?thesis by simp
  qed
  have tmp: "tmp_name (i + 100000) \<notin> fst ` set ?dir"
    by (auto simp: seg_file_def gc_file_def tmp_name_not_segment)
  have name: "fst (seg_file p) = segment_file_name 6 i" by (simp add: p seg_file_def)
  obtain r dir1 where run: "compact_segment (fst (F (fst (seg_file p)))) (snd (F (fst (seg_file p))))
      (fst (seg_file p)) (compact_id (fst (seg_file p))) ?dir = (r, dir1)" by (metis surj_pair)
  show ?case
  proof (cases r)
    case (Inl e)
    have "F \<noteq> (\<lambda>_. (no_fault, False))"
    proof
      assume "F = (\<lambda>_. (no_fault, False))"
      with run Inl compact_segment_succeeds [OF f pf(2,3), of "compact_id (segment_file_name 6 i)"] show False
        by (simp add: name)
    qed
    then show ?thesis using run Inl by (simp add: comp_def)
  next
    case (Inr res)
    let ?done = "done @ [p]"
    have res: "res = kept (length (segment_entries f))" and dir1: "dir1 = map seg_file (?done @ todo) @ map gc_file ?done"
      using compact_seg_file [OF f pf(1) tmp new run [unfolded Inr name]] by (simp_all add: p)
    let ?stats = "\<lparr>entries_scanned = entries_scanned stats + length (segment_entries f),
        gc_entries_removed = gc_entries_removed stats, segments_compacted = segments_compacted stats + 1\<rparr>"
    have eq: "gc_loop F (map (fst \<circ> seg_file) (p # todo)) stats ?dir =
        gc_loop F (map (fst \<circ> seg_file) todo) ?stats (map seg_file (?done @ todo) @ map gc_file ?done)"
      using run Inr res dir1 by (simp add: kept_def)
    have "gc_input (?done @ todo)" using Cons.prems by simp
    from Cons.IH [OF this, of ?stats] show ?thesis unfolding eq
      by (auto simp: comp_def split: prod.splits sum.splits)
  qed
qed simp

lemma run_gc_files:
  assumes "gc_input ps"
  shows "case run_gc_inner F (map seg_file ps) of
      (Ok stats, dir') \<Rightarrow> dir' = map seg_file ps @ map gc_file ps \<and>
        gc_entries_removed stats = 0 \<and> segments_compacted stats = length ps
    | (Err e, dir') \<Rightarrow> F \<noteq> (\<lambda>_. (no_fault, False))"
proof -
  have "filter has_seg_extension (map fst (map seg_file ps)) = map (fst \<circ> seg_file) ps"
    by (auto simp: seg_file_def segment_name_extension intro!: filter_True)
  then show ?thesis
    using gc_loop_files [of "[]" ps F gc_stats_default] assms
    by (auto simp: run_gc_inner_def gc_stats_default_def split: prod.splits sum.splits)
qed

lemma seg_files_sorted:
  assumes "gc_input ps"
  defines "qs \<equiv> sort_key fst ps"
  shows "sorted (map fst (map seg_file qs @ map gc_file qs))" "gc_input qs"
    and "mset (map seg_file ps @ map gc_file ps) = mset (map seg_file qs @ map gc_file qs)"
proof -
  have mset: "mset qs = mset ps" by (simp add: qs_def)
  then have set_eq: "set qs = set ps" by (metis set_mset_mset)
  have "distinct (map fst qs)"
    using assms(1) by (simp add: qs_def gc_input_def distinct_map)
  then show gc: "gc_input qs" using assms(1) by (simp add: gc_input_def set_eq)
  then have small: "unat i < 100000" if "i \<in> set (map fst qs)" for i
    using that by (auto simp: gc_input_def)
  have ids: "sorted_wrt (<) (map fst qs)"
    using gc by (simp add: qs_def gc_input_def strict_sorted_iff)
  let ?R = "\<lambda>i j :: u64. unat i < unat j \<and> unat j < 200000"
  have less: "segment_file_name 6 i < segment_file_name 6 j" if "?R i j" for i j
    using that by (intro segment_name_less) simp_all
  have 1: "sorted_wrt ?R (map fst qs)"
  proof (rule sorted_wrt_mono_rel [OF _ ids])
    fix i j assume "j \<in> set (map fst qs)" "i < j"
    then show "?R i j" using small [of j] by (simp add: word_less_nat_alt)
  qed
  have 2: "sorted_wrt ?R (map (\<lambda>p. fst p + 100000) qs)"
    unfolding sorted_wrt_map
  proof (rule sorted_wrt_mono_rel [OF _ ids [unfolded sorted_wrt_map]])
    fix p q assume "p \<in> set qs" "q \<in> set qs" "fst p < fst q"
    then show "?R (fst p + 100000) (fst q + 100000)"
      using small [of "fst p"] small [of "fst q"] by (simp add: word_less_nat_alt unat_gc_id)
  qed
  have 3: "?R i j" if "i \<in> set (map fst qs)" "j \<in> set (map (\<lambda>p. fst p + 100000) qs)" for i j
  proof -
    from that(2) obtain p where "p \<in> set qs" "j = fst p + 100000" by auto
    then show ?thesis using small [of "fst p"] small [OF that(1)] by (simp add: unat_gc_id)
  qed
  have "sorted_wrt ?R (map fst qs @ map (\<lambda>p. fst p + 100000) qs)"
    unfolding sorted_wrt_append using 1 2 3 by blast
  then have "sorted_wrt (\<lambda>i j. segment_file_name 6 i < segment_file_name 6 j)
      (map fst qs @ map (\<lambda>p. fst p + 100000) qs)"
    by (rule sorted_wrt_mono_rel [rotated]) (rule less)
  then have "sorted_wrt (<) (map (segment_file_name 6) (map fst qs @ map (\<lambda>p. fst p + 100000) qs))"
    by (simp only: sorted_wrt_map)
  then have "sorted_wrt (<) (map fst (map seg_file qs @ map gc_file qs))"
    by (simp add: seg_file_def gc_file_def comp_def)
  then show "sorted (map fst (map seg_file qs @ map gc_file qs))" by (rule strict_sorted_imp_sorted)
  show "mset (map seg_file ps @ map gc_file ps) = mset (map seg_file qs @ map gc_file qs)"
    by (simp add: mset)
qed

lemma gc_load:
  assumes "gc_input ps"
  defines "E \<equiv> dir_entries (map seg_file (sort_key fst ps))"
  shows "load_store_from_segments (map seg_file ps) = Ok (last_root E, snapshots_of E)"
    and "load_store_from_segments (map seg_file ps @ map gc_file ps) =
      Ok (last_root E, snapshots_of E @ snapshots_of E)"
proof -
  let ?qs = "sort_key fst ps"
  note qs = seg_files_sorted [OF assms(1)]
  have segs: "\<forall>(n, f) \<in> set (map seg_file ?qs @ map gc_file ?qs). is_segment_name n \<and> openable f"
    using qs(2) by (auto simp: gc_input_def seg_file_def gc_file_def segment_file_name_is openable_compacted)
  have dist: "distinct (map fst (map seg_file ?qs @ map gc_file ?qs))" by (rule gc_names_distinct [OF qs(2)])
  show "load_store_from_segments (map seg_file ps) = Ok (last_root E, snapshots_of E)"
    unfolding E_def
    by (rule load_sorted) (use qs dist segs in \<open>auto simp: sorted_append\<close>)
  have "dir_entries (map seg_file ?qs @ map gc_file ?qs) = E @ E"
    by (simp add: E_def dir_entries_def comp_def seg_file_def gc_file_def segment_entries_compacted)
  then show "load_store_from_segments (map seg_file ps @ map gc_file ps) =
      Ok (last_root E, snapshots_of E @ snapshots_of E)"
    using load_sorted [OF qs(3,1) dist segs] by (simp add: last_root_append split: option.splits)
qed

subsection \<open>Compaction is atomic\<close>

lemma map_of_dir_put: "map_of (dir_put n f dir) = (map_of dir)(n \<mapsto> f)"
  by (induction n f dir rule: dir_put.induct) (auto simp: fun_eq_iff)

lemma map_of_dir_del: "map_of (dir_del n dir) = (map_of dir)(n := None)"
  by (induction dir) (auto simp: dir_del_def fun_eq_iff)

lemma tmp_name_neq: "tmp_name i \<noteq> compact_name j"
  using tmp_name_not_segment by (simp add: compact_name_def)

subsection \<open>Replay in the order of the ids\<close>

lemma load_by_id:
  assumes "distinct (map fst ps)" and "\<forall>(i, f) \<in> set ps. unat i < 10 ^ 6"
    and open_all: "\<forall>(i, f) \<in> set ps. openable f"
    and E: "E = dir_entries (map seg_file (sort_key fst ps))"
  shows "load_store_from_segments (map seg_file ps) = Ok (last_root E, snapshots_of E)"
proof -
  define qs where "qs = sort_key fst ps"
  have mset: "mset qs = mset ps" and set_eq: "set qs = set ps" by (simp_all add: qs_def)
  have "sorted_wrt (<) (map fst qs)"
    using assms(1) by (simp add: qs_def strict_sorted_iff distinct_map)
  then have "sorted_wrt (\<lambda>p q. segment_file_name 6 (fst p) < segment_file_name 6 (fst q)) qs"
    unfolding sorted_wrt_map
  proof (rule sorted_wrt_mono_rel [rotated])
    fix p q assume "q \<in> set qs" "fst p < fst q"
    then show "segment_file_name 6 (fst p) < segment_file_name 6 (fst q)"
      using assms(2) by (intro segment_name_less) (auto simp: set_eq word_less_nat_alt)
  qed
  then have "sorted_wrt (<) (map fst (map seg_file qs))"
    by (simp add: sorted_wrt_map comp_def seg_file_def)
  then have "sorted (map fst (map seg_file qs))" "distinct (map fst (map seg_file qs))"
    using strict_sorted_iff by blast+
  moreover have "mset (map seg_file ps) = mset (map seg_file qs)" by (simp add: mset)
  moreover have "\<forall>(n, f) \<in> set (map seg_file qs). is_segment_name n \<and> openable f"
    using open_all by (auto simp: set_eq seg_file_def segment_file_name_is)
  ultimately show "load_store_from_segments (map seg_file ps) = Ok (last_root E, snapshots_of E)"
    unfolding E qs_def [symmetric] by (intro load_sorted)
qed

subsection \<open>Properties\<close>

text \<open>
  C12. Recovery of the log of a store: segments with distinct ids below one million, in whatever order
  the directory lists them and whatever a crash cut off their ends, replay in the order of
  their ids; the root is the last root update of the highest segment that has one, and the
  snapshots come back in the order they were taken.
\<close>

theorem recovery_by_segment_id:
  assumes "distinct (map fst ps)" and "\<forall>(i, f) \<in> set ps. unat i < 10 ^ 6"
    and open_all: "\<forall>(i, f) \<in> set ps. openable f"
    and E: "E = dir_entries (map seg_file (sort_key fst ps))"
  shows "load_store_from_segments (map seg_file ps) = Ok (last_root E, snapshots_of E)"
  using assms by (rule load_by_id)

text \<open>Two segments, listed in reverse; the second was cut off inside its only record.\<close>

definition demo_segments :: "(u64 \<times> bytes) list" where
  "demo_segments =
     [(2, segment_header_bytes 2 @ take 20 (enc_record (RootUpdate (Digest224 9 0 0 0 0 0 0)))),
      (1, segment_header_bytes 1 @ enc_record (RootUpdate (Digest224 7 0 0 0 0 0 0)))]"

lemma demo_entries: "dir_entries (map seg_file (sort_key fst demo_segments)) = [RootUpdate (Digest224 7 0 0 0 0 0 0)]"
proof -
  have "sort_key fst demo_segments = rev demo_segments" by (simp add: demo_segments_def word_le_nat_alt)
  moreover have "segment_entries (segment_header_bytes 1 @ enc_record (RootUpdate d)) = [RootUpdate d]" for d
    using read_enc_record [of "RootUpdate d" "[]"] by (simp add: segment_entries_body)
  moreover have "segment_entries (segment_header_bytes 2 @ take 20 (enc_record (RootUpdate d))) = []" for d
    using read_truncated_record [of "RootUpdate d" 20] by (simp add: segment_entries_body length_enc_record)
  ultimately show ?thesis by (simp add: dir_entries_def seg_file_def demo_segments_def)
qed

theorem recovery_by_segment_id_witness:
  "load_store_from_segments (map seg_file demo_segments) = Ok (Some (Digest224 7 0 0 0 0 0 0), [])"
proof -
  have "\<forall>(i, f) \<in> set demo_segments. openable f"
    by (auto simp: demo_segments_def openable_def reader_open_segment)
  moreover have "distinct (map fst demo_segments)" "\<forall>(i, f) \<in> set demo_segments. unat i < 10 ^ 6"
    by (simp_all add: demo_segments_def)
  ultimately show ?thesis
    using recovery_by_segment_id [of demo_segments, OF _ _ _ refl] demo_entries
    by (simp add: last_root_def snapshots_of_def map_filter_def)
qed

text \<open>
  C16. Compaction of a segment is atomic and loses nothing: whatever fails, no segment file other than
  the output changes; on failure the output is as before (only a temporary file that replay ignores
  may remain); on success the output is complete and replays to exactly the entries of the input.
\<close>

theorem compact_segment_atomic:
  assumes "compact_segment F rename_fails name i dir = (r, dir')"
  shows "(\<forall>n. is_segment_name n \<longrightarrow> n \<noteq> compact_name i \<longrightarrow> map_of dir' n = map_of dir n) \<and>
    (case r of
       Err _ \<Rightarrow> map_of dir' (compact_name i) = map_of dir (compact_name i)
     | Ok res \<Rightarrow> (\<exists>f g. map_of dir name = Some f \<and> map_of dir' (compact_name i) = Some g \<and> openable g \<and>
         segment_entries g = segment_entries f \<and> res = kept (length (segment_entries f))))"
proof -
  have tmp: "\<not> is_segment_name (tmp_name i)"
    by (simp add: is_segment_name_def ends_with_def tmp_name_def str_def)
  show ?thesis
    using compact_segment_cases [OF assms] tmp tmp_name_neq [of i i]
    by (auto simp: map_of_dir_put map_of_dir_del segment_entries_compacted openable_compacted)
qed

theorem compact_segment_atomic_witness:
  "\<exists>r dir'. compact_segment \<lparr>wf_budget = Some 7, wf_sync = False\<rparr> False (segment_file_name 6 1) 100001
     (map seg_file demo_segments) = (r, dir') \<and>
   map_of dir' (segment_file_name 6 1) = map_of (map seg_file demo_segments) (segment_file_name 6 1)"
proof -
  obtain r dir' where c: "compact_segment \<lparr>wf_budget = Some 7, wf_sync = False\<rparr> False (segment_file_name 6 1) 100001
     (map seg_file demo_segments) = (r, dir')" by (metis surj_pair)
  have "segment_file_name 6 1 \<noteq> compact_name 100001"
    using segment_name_inj [of 6 1 100001] segment_name_width [of 100001] by (auto simp: compact_name_def)
  with compact_segment_atomic [OF c] c show ?thesis using segment_file_name_is by blast
qed

text \<open>
  C18. A garbage collection run that reports success keeps what recovery returns: for any segments with
  distinct ids below 100000 that all have a valid header (the originals only, so the first collection),
  and whatever writes, syncs and renames fail, if the collector reports success then it has kept every
  entry (its count of removed entries is zero) and recovery finds the same root as before. It adds a
  copy of every segment next to the original, so recovery then reports every snapshot twice. Without
  faults the collector does report success. (A run that fails gives no such promise, see
  \<open>stopped_gc_rolls_back\<close>.)
\<close>

theorem gc_preserves_root:
  assumes "gc_input ps"
  shows "\<exists>root snaps. load_store_from_segments (map seg_file ps) = Ok (root, snaps) \<and>
    (case run_gc_inner F (map seg_file ps) of
       (Ok stats, dir') \<Rightarrow> gc_entries_removed stats = 0 \<and> segments_compacted stats = length ps \<and>
         length dir' = 2 * length ps \<and> load_store_from_segments dir' = Ok (root, snaps @ snaps)
     | (Err e, dir') \<Rightarrow> F \<noteq> (\<lambda>_. (no_fault, False)))"
  using run_gc_files [OF assms, of F] gc_load [OF assms] by (auto split: prod.splits sum.splits)

theorem gc_preserves_root_witness:
  "\<exists>stats dir' root snaps. run_gc_inner (\<lambda>_. (no_fault, False)) (map seg_file demo_segments) = (Ok stats, dir') \<and>
     load_store_from_segments (map seg_file demo_segments) = Ok (root, snaps) \<and>
     load_store_from_segments dir' = Ok (root, snaps @ snaps)"
proof -
  have "gc_input demo_segments"
    by (auto simp: gc_input_def demo_segments_def openable_def reader_open_segment)
  note keeps = gc_preserves_root [OF this, of "\<lambda>_. (no_fault, False)"]
  obtain r dir' where run: "run_gc_inner (\<lambda>_. (no_fault, False)) (map seg_file demo_segments) = (r, dir')"
    by (metis surj_pair)
  with keeps show ?thesis by (cases r) auto
qed

text \<open>
  The collector stops at the first segment that has no complete header, for instance the segment
  of a mount that was killed before its first commit: the run fails and later segments are not
  compacted, although recovery itself skips such a file.
\<close>

theorem gc_fails_on_empty_segment:
  assumes "map fst dir = segment_file_name 6 i # names" and "map_of dir (segment_file_name 6 i) = Some f"
    and "length f < 16"
  shows "run_gc_inner F dir = (Err IoError, dir)"
  using assms by (simp add: run_gc_inner_def segment_name_extension compact_segment_def reader_open_def)

theorem gc_fails_on_empty_segment_witness:
  "run_gc_inner (\<lambda>_. (no_fault, False)) [(segment_file_name 6 1, [])] = (Err IoError, [(segment_file_name 6 1, [])]) \<and>
   load_store_from_segments [(segment_file_name 6 1, [])] = Ok (None, [])"
  using gc_fails_on_empty_segment [of "[(segment_file_name 6 1, [])]" 1 "[]" "[]"]
  by (simp add: load_store_from_segments_def segment_file_name_is)

text \<open>Beyond six digits the names no longer sort by id.\<close>

lemma million_sorts_first: "segment_file_name 6 1000000 < segment_file_name 6 999999"
  by (simp add: segment_file_name_def list_less_append_head fmt_padded_def)
    (simp add: dec_digits.simps)

lemma one_root_segment:
  "segment_entries (segment_header_bytes i @ enc_record (RootUpdate d)) = [RootUpdate d]"
  "openable (segment_header_bytes i @ enc_record (RootUpdate d))"
  using read_enc_record [of "RootUpdate d" "[]"]
  by (simp_all add: segment_entries_body openable_def reader_open_segment)

text \<open>
  A run that stops this way can roll the store back. The directory lists segment 5, then segment 7 of
  a mount that was killed before its header reached the disk, then segment 6 with the newest root. The
  collector copies segment 5 to id 100005, fails on segment 7 and leaves segment 6 alone; the copy sorts
  behind segment 6, so recovery now returns the old root.
\<close>

theorem stopped_gc_rolls_back:
  fixes old_root new_root :: digest224
  defines "seg \<equiv> \<lambda>i root. seg_file (i, segment_header_bytes i @ enc_record (RootUpdate root))"
  defines "dir \<equiv> [seg 5 old_root, seg_file (7, []), seg 6 new_root]"
  shows "load_store_from_segments dir = Ok (Some new_root, [])"
    and "\<exists>dir'. run_gc_inner (\<lambda>_. (no_fault, False)) dir = (Err IoError, dir') \<and>
      load_store_from_segments dir' = Ok (Some old_root, [])"
proof -
  let ?f = "segment_header_bytes 5 @ enc_record (RootUpdate old_root)"
  let ?copy = "gc_file (5, ?f)"
  let ?sorted = "[seg 5 old_root, seg 6 new_root, seg_file (7, [])]"
  have less: "segment_file_name 6 5 < segment_file_name 6 6" "segment_file_name 6 6 < segment_file_name 6 7"
    "segment_file_name 6 7 < segment_file_name 6 100005"
    by (rule segment_name_less; simp)+
  have strict: "sorted_wrt (<) (map fst (?sorted @ [?copy]))"
    using less by (auto simp: seg_def seg_file_def gc_file_def intro: less_trans)
  have sorted: "sorted (map fst (?sorted @ [?copy]))" "distinct (map fst (?sorted @ [?copy]))"
    using strict strict_sorted_iff by blast+
  have short: "segment_entries [] = []" "openable []" by (simp_all add: segment_entries_def openable_def)
  have files: "\<forall>(n, f) \<in> set (?sorted @ [?copy]). is_segment_name n \<and> openable f"
    by (auto simp: seg_def seg_file_def gc_file_def segment_file_name_is one_root_segment openable_compacted short)
  have entries: "dir_entries ?sorted = [RootUpdate old_root, RootUpdate new_root]"
    "dir_entries (?sorted @ [?copy]) = [RootUpdate old_root, RootUpdate new_root, RootUpdate old_root]"
    by (simp_all add: dir_entries_def seg_def seg_file_def gc_file_def segment_entries_compacted one_root_segment short)
  have mset: "mset dir = mset ?sorted" by (simp add: dir_def add_mset_commute)
  show "load_store_from_segments dir = Ok (Some new_root, [])"
    using load_sorted [OF mset] sorted files unfolding entries(1)
    by (simp add: sorted_append last_root_def snapshots_of_def map_filter_def)
  have "mset (dir @ [?copy]) = mset (?sorted @ [?copy])" using mset by simp
  from load_sorted [OF this sorted files]
  have load: "load_store_from_segments (dir @ [?copy]) = Ok (Some old_root, [])"
    unfolding entries(2) by (simp add: last_root_def snapshots_of_def map_filter_def)
  have distinct: "distinct (map fst (dir @ [?copy]))"
    using sorted(2) by (auto simp: dir_def)
  have "map_of dir (segment_file_name 6 5) = Some ?f" by (simp add: dir_def seg_def seg_file_def)
  moreover obtain res dir1 where run: "compact_segment no_fault False (segment_file_name 6 5)
      (compact_id (segment_file_name 6 5)) dir = (Ok res, dir1)"
    using compact_segment_succeeds [OF calculation, of "compact_id (segment_file_name 6 5)"] one_root_segment(2) by auto
  moreover have "segment_file_name 6 (5 + 100000) \<notin> fst ` set dir"
    using distinct by (simp add: gc_file_def)
  moreover have "tmp_name (5 + 100000) \<notin> fst ` set dir"
    by (simp add: dir_def seg_def seg_file_def tmp_name_not_segment)
  ultimately have dir1: "dir1 = dir @ [?copy]"
    using compact_seg_file [of dir 5 ?f no_fault False res dir1] by simp
  have names: "map fst dir = [segment_file_name 6 5, segment_file_name 6 7, segment_file_name 6 6]"
    by (simp add: dir_def seg_def seg_file_def)
  have "map_of (dir @ [?copy]) (segment_file_name 6 7) = Some []"
    using less(1,2) less_trans [OF less(1,2)] by (auto simp: dir_def seg_def seg_file_def)
  then have "compact_segment no_fault False (segment_file_name 6 7) i (dir @ [?copy]) = (Err IoError, dir @ [?copy])" for i
    by (simp add: compact_segment_def reader_open_def)
  then have "run_gc_inner (\<lambda>_. (no_fault, False)) dir = (Err IoError, dir @ [?copy])"
    using run dir1 by (simp add: run_gc_inner_def names segment_name_extension)
  with load show "\<exists>dir'. run_gc_inner (\<lambda>_. (no_fault, False)) dir = (Err IoError, dir') \<and>
      load_store_from_segments dir' = Ok (Some old_root, [])" by blast
qed

text \<open>
  With two intact segments whose ids are 999999 and 1000000, in whatever order the directory lists
  them, replay takes the root recorded in the older segment: the file names are compared as strings.
\<close>

theorem seven_digit_names_misordered:
  "let old = (segment_file_name 6 999999, segment_header_bytes 999999 @ enc_record (RootUpdate old_root));
       new = (segment_file_name 6 1000000, segment_header_bytes 1000000 @ enc_record (RootUpdate new_root))
   in load_store_from_segments [old, new] = Ok (Some old_root, []) \<and>
      load_store_from_segments [new, old] = Ok (Some old_root, [])"
proof -
  define old where "old = (segment_file_name 6 999999, segment_header_bytes 999999 @ enc_record (RootUpdate old_root))"
  define new where "new = (segment_file_name 6 1000000, segment_header_bytes 1000000 @ enc_record (RootUpdate new_root))"
  have "sorted (map fst [new, old])" "distinct (map fst [new, old])"
    using million_sorts_first by (simp_all add: old_def new_def)
  moreover have "\<forall>(n, f) \<in> set [new, old]. is_segment_name n \<and> openable f"
    by (simp add: old_def new_def segment_file_name_is one_root_segment)
  ultimately have "mset dir = mset [new, old] \<Longrightarrow>
      load_store_from_segments dir = Ok (last_root (dir_entries [new, old]), snapshots_of (dir_entries [new, old]))" for dir
    by (intro load_sorted)
  moreover have "dir_entries [new, old] = [RootUpdate new_root, RootUpdate old_root]"
    by (simp add: dir_entries_def old_def new_def one_root_segment)
  ultimately show ?thesis
    unfolding Let_def old_def [symmetric] new_def [symmetric]
    by (simp add: last_root_def snapshots_of_def map_filter_def add_mset_commute)
qed

end
