(* ===== verification/Directory.thy ===== *)
theory Directory
  imports Metadata_Codecs
begin

section \<open>Directories\<close>

text \<open>
  \<^verbatim>\<open>crates/metadata/src/directory.rs\<close>: a directory is an entry list keyed by the digest of each
  name, serialised and stored as one content node; every change stores a new list and yields a
  new digest. Computing a key stores the name, so also lookups and failing operations return the
  storage they leave. \<open>dir_is B io d m\<close> is the abstract view: the node \<open>d\<close> represents the finite map
  \<open>m\<close> from names to inode numbers; each operation is shown to act on that map.
\<close>

record entry_record =
  er_key :: digest224
  er_ino :: u64
  er_name :: rstring

record dir_entry =
  de_name :: rstring
  de_ino :: u64

type_synonym entry_list = "(digest224, entry_record) btree"

definition entry_key :: "('io, 'st) blockset \<Rightarrow> 'io \<Rightarrow> rstring \<Rightarrow> 'io \<times> digest224" where
  "entry_key B io name = push_all B io name"

definition enc_entry :: "entry_record \<Rightarrow> bytes" where
  "enc_entry e = digest_to_le (er_key e) @ u64_to_le (er_ino e) @ enc_prefixed (er_name e)"

definition serialize_entry_list :: "entry_list \<Rightarrow> bytes" where
  "serialize_entry_list entries =
     u32_to_le (of_nat (length entries)) @ concat (map (\<lambda>(_, e). enc_entry e) entries)"

fun entry_list_loop :: "nat \<Rightarrow> bytes \<Rightarrow> entry_list \<Rightarrow> meta_error + entry_list" where
  "entry_list_loop 0 bs m = Ok m"
| "entry_list_loop (Suc n) bs m =
     (if length bs < 28 then Err (Corrupted ''entry list truncated at key'')
      else let key = digest_from_le (take 28 bs); bs = drop 28 bs in
      if length bs < 8 then Err (Corrupted ''entry list truncated at ino'')
      else let i = u64_from_le (take 8 bs); bs = drop 8 bs in
      case dec_prefixed ''entry list truncated at name_len'' ''entry list truncated at name bytes'' bs of
        Err e \<Rightarrow> Err e
      | Ok (name_bytes, bs) \<Rightarrow>
          (case from_utf8 name_bytes of
             None \<Rightarrow> Err (Corrupted ''entry name not utf-8'')
           | Some name \<Rightarrow>
               entry_list_loop n bs (bt_insert key \<lparr>er_key = key, er_ino = i, er_name = name\<rparr> m)))"

definition deserialize_entry_list :: "bytes \<Rightarrow> meta_error + entry_list" where
  "deserialize_entry_list bytes =
     (if bytes = [] then Ok []
      else if length bytes < 4 then Err (Corrupted ''entry list too short'')
      else entry_list_loop (unat (u32_from_le (take 4 bytes))) (drop 4 bytes) [])"

definition intern_entry_list :: "('io, 'st) blockset \<Rightarrow> 'io \<Rightarrow> entry_list \<Rightarrow> 'io \<times> digest224" where
  "intern_entry_list B io entries = push_all B io (serialize_entry_list entries)"

definition load_entry_list :: "('io, 'st) blockset \<Rightarrow> 'io \<Rightarrow> digest224 \<Rightarrow> meta_error + entry_list" where
  "load_entry_list B = load_node B ''missing dir entry list'' deserialize_entry_list"

definition create_dir_entries :: "('io, 'st) blockset \<Rightarrow> 'io \<Rightarrow> u64 \<Rightarrow> u64 \<Rightarrow> 'io \<times> digest224" where
  "create_dir_entries B io self_ino parent_ino =
     (let (io, dot_key) = entry_key B io (str ''.'');
          (io, dotdot_key) = entry_key B io (str ''..'');
          entries = bt_insert dotdot_key \<lparr>er_key = dotdot_key, er_ino = parent_ino, er_name = str ''..''\<rparr>
            (bt_insert dot_key \<lparr>er_key = dot_key, er_ino = self_ino, er_name = str ''.''\<rparr> [])
      in intern_entry_list B io entries)"

definition add_dir_entry ::
  "('io, 'st) blockset \<Rightarrow> 'io \<Rightarrow> digest224 \<Rightarrow> rstring \<Rightarrow> u64 \<Rightarrow> 'io \<times> (meta_error + digest224)" where
  "add_dir_entry B io dir_digest name i =
     (if name = str ''.'' \<or> name = str ''..'' then (io, Err (InvalidName name))
      else case load_entry_list B io dir_digest of
        Err e \<Rightarrow> (io, Err e)
      | Ok entries \<Rightarrow>
          (let (io, key) = entry_key B io name in
           if bt_get entries key \<noteq> None then (io, Err (AlreadyExists i))
           else let (io, d) = intern_entry_list B io
                  (bt_insert key \<lparr>er_key = key, er_ino = i, er_name = name\<rparr> entries)
             in (io, Ok d)))"

definition remove_dir_entry ::
  "('io, 'st) blockset \<Rightarrow> 'io \<Rightarrow> digest224 \<Rightarrow> rstring \<Rightarrow> 'io \<times> (meta_error + digest224)" where
  "remove_dir_entry B io dir_digest name =
     (if name = str ''.'' \<or> name = str ''..'' then (io, Err (InvalidName name))
      else case load_entry_list B io dir_digest of
        Err e \<Rightarrow> (io, Err e)
      | Ok entries \<Rightarrow>
          (let (io, key) = entry_key B io name in
           if bt_get entries key = None then (io, Err (NotFound 0))
           else let (io, d) = intern_entry_list B io (bt_remove key entries) in (io, Ok d)))"

definition lookup_dir_entry ::
  "('io, 'st) blockset \<Rightarrow> 'io \<Rightarrow> digest224 \<Rightarrow> rstring \<Rightarrow> 'io \<times> (meta_error + u64)" where
  "lookup_dir_entry B io dir_digest name =
     (case load_entry_list B io dir_digest of
        Err e \<Rightarrow> (io, Err e)
      | Ok entries \<Rightarrow>
          (let (io, key) = entry_key B io name in
           (io, case bt_get entries key of None \<Rightarrow> Err (NotFound 0) | Some r \<Rightarrow> Ok (er_ino r))))"

definition list_dir_entries ::
  "('io, 'st) blockset \<Rightarrow> 'io \<Rightarrow> digest224 \<Rightarrow> meta_error + dir_entry list" where
  "list_dir_entries B io dir_digest =
     (case load_entry_list B io dir_digest of
        Err e \<Rightarrow> Err e
      | Ok entries \<Rightarrow> Ok (map (\<lambda>(_, r). \<lparr>de_name = er_name r, de_ino = er_ino r\<rparr>) entries))"

subsection \<open>The entry list format\<close>

text \<open>Lists the format can hold.\<close>

definition entries_fit :: "entry_list \<Rightarrow> bool" where
  "entries_fit es \<longleftrightarrow> bt_sorted es \<and> length es < 2 ^ 32 \<and>
     (\<forall>(k, r) \<in> set es. er_key r = k \<and> utf8_valid (er_name r) \<and> length (er_name r) < 2 ^ 32)"

lemma entry_list_loop_enc:
  "\<forall>(k, r) \<in> set es. er_key r = k \<and> utf8_valid (er_name r) \<and> length (er_name r) < 2 ^ 32 \<Longrightarrow>
   entry_list_loop (length es) (concat (map (\<lambda>(_, e). enc_entry e) es)) m =
     Ok (fold (\<lambda>(k, v). bt_insert k v) es m)"
proof (induction es arbitrary: m)
  case (Cons kr es)
  obtain k r where kr: "kr = (k, r)" by (cases kr)
  from Cons.prems kr have r: "er_key r = k" "utf8_valid (er_name r)" "length (er_name r) < 2 ^ 32" by auto
  have rec: "\<lparr>er_key = k, er_ino = er_ino r, er_name = er_name r\<rparr> = r" using r(1) by simp
  from Cons.IH Cons.prems have IH: "entry_list_loop (length es) (concat (map (\<lambda>(_, e). enc_entry e) es)) m' =
      Ok (fold (\<lambda>(k, v). bt_insert k v) es m')" for m'
    by simp
  show ?case
    by (simp add: kr enc_entry_def [of r] r(1,2) rec dec_enc_prefixed [OF r(3)] IH Let_def)
qed simp

lemma deserialize_serialize_entry_list [codec_simps]:
  assumes "entries_fit es"
  shows "deserialize_entry_list (serialize_entry_list es) = Ok es"
proof -
  have "unat (u32_from_le (u32_to_le (of_nat (length es)))) = length es"
    using assms by (intro unat_u32_le_length) (simp add: entries_fit_def)
  moreover have "serialize_entry_list es \<noteq> []"
    by (simp add: serialize_entry_list_def)
  moreover have "fold (\<lambda>(k, v). bt_insert k v) es [] = es"
    using assms bt_of_list_id [of es] by (simp add: entries_fit_def bt_of_list_def)
  ultimately show ?thesis
    using entry_list_loop_enc [of es "[]"] assms
    by (simp add: deserialize_entry_list_def serialize_entry_list_def entries_fit_def)
qed

subsection \<open>Directories as maps from names\<close>

text \<open>
  A well-formed entry list: it fits the format, each key is the digest under which the storage
  holds the entry's name, and no name occurs twice.
\<close>

definition entries_ok :: "('io, 'st) blockset \<Rightarrow> 'io \<Rightarrow> entry_list \<Rightarrow> bool" where
  "entries_ok B io es \<longleftrightarrow> entries_fit es \<and> distinct (map (er_name \<circ> snd) es) \<and>
     (\<forall>(k, r) \<in> set es. storage_get B io k = Some (er_name r))"

definition entry_names :: "entry_list \<Rightarrow> rstring \<rightharpoonup> u64" where
  "entry_names es = map_of (map (\<lambda>(_, r). (er_name r, er_ino r)) es)"

definition dir_is :: "('io, 'st) blockset \<Rightarrow> 'io \<Rightarrow> digest224 \<Rightarrow> (rstring \<rightharpoonup> u64) \<Rightarrow> bool" where
  "dir_is B io d m \<longleftrightarrow> (\<exists>es. storage_get B io d = Some (serialize_entry_list es) \<and>
     entries_ok B io es \<and> m = entry_names es)"

lemma entries_ok_grows:
  "bs_grows B io io' \<Longrightarrow> bs_ok B io' \<Longrightarrow> entries_ok B io es \<Longrightarrow> entries_ok B io' es"
  unfolding entries_ok_def by (auto dest: bs_growsD(2))

lemma dir_is_grows: "bs_grows B io io' \<Longrightarrow> bs_ok B io' \<Longrightarrow> dir_is B io d m \<Longrightarrow> dir_is B io' d m"
  unfolding dir_is_def using bs_growsD(2) entries_ok_grows by metis

lemma entry_names_distinct:
  "distinct (map (er_name \<circ> snd) es) \<Longrightarrow>
   entry_names es n = Some i \<longleftrightarrow> (\<exists>k r. (k, r) \<in> set es \<and> er_name r = n \<and> er_ino r = i)"
  unfolding entry_names_def
  by (subst map_of_eq_Some_iff) (force simp: comp_def split_def)+

lemma entry_names_None:
  "entry_names es n = None \<longleftrightarrow> (\<forall>(k, r) \<in> set es. er_name r \<noteq> n)"
  unfolding entry_names_def by (force simp: map_of_eq_None_iff)

lemma card_entry_names:
  assumes "distinct (map (er_name \<circ> snd) es)"
  shows "card (dom (entry_names es)) = length es"
proof -
  have "dom (entry_names es) = set (map (er_name \<circ> snd) es)"
    unfolding entry_names_def dom_map_of_conv_image_fst by force
  with assms show ?thesis by (metis distinct_card length_map)
qed

lemma load_entries_ok:
  "storage_get B io d = Some (serialize_entry_list es) \<Longrightarrow> entries_ok B io es \<Longrightarrow>
   load_entry_list B io d = Ok es"
  by (simp add: load_entry_list_def load_node_stored entries_ok_def codec_simps)

text \<open>The key of a name finds exactly the entry of that name: equal digests mean equal names.\<close>

lemma entry_key_finds:
  assumes B: "blockset_laws B" and es: "entries_ok B io es"
    and key: "entry_key B io name = (io', k)" and ok: "bs_ok B io'"
  shows "bt_get es k = Some r \<longleftrightarrow> (\<exists>k'. (k', r) \<in> set es \<and> er_name r = name)"
    and "bt_get es k = None \<longleftrightarrow> entry_names es name = None"
    and "map_option er_ino (bt_get es k) = entry_names es name"
    and "(k', r) \<in> set es \<Longrightarrow> k' = k \<longleftrightarrow> er_name r = name"
proof -
  note push = key [unfolded entry_key_def]
  have sorted: "bt_sorted es" using es by (simp add: entries_ok_def entries_fit_def)
  have stored: "storage_get B io k' = Some (er_name r)" if "(k', r) \<in> set es" for k' r
    using es that by (auto simp: entries_ok_def)
  have iff: "bt_get es k = Some r \<longleftrightarrow> (\<exists>k'. (k', r) \<in> set es \<and> er_name r = name)" for r
  proof
    assume "bt_get es k = Some r"
    then have "(k, r) \<in> set es" by (rule map_of_SomeD)
    moreover have "er_name r = name"
      using bs_growsD(2) [OF push_all_grows [OF B push] ok stored [OF calculation]]
        push_all_get [OF B push ok] by simp
    ultimately show "\<exists>k'. (k', r) \<in> set es \<and> er_name r = name" by blast
  next
    assume "\<exists>k'. (k', r) \<in> set es \<and> er_name r = name"
    then obtain k' where k': "(k', r) \<in> set es" "er_name r = name" by blast
    then have "k' = k" using push_all_known [OF B push ok] stored by blast
    with k' sorted show "bt_get es k = Some r" by (simp add: bt_sorted_distinct)
  qed
  then show "bt_get es k = Some r \<longleftrightarrow> (\<exists>k'. (k', r) \<in> set es \<and> er_name r = name)" .
  show "k' = k \<longleftrightarrow> er_name r = name" if in_es: "(k', r) \<in> set es"
  proof
    assume "k' = k"
    with in_es sorted have "bt_get es k = Some r" by (simp add: bt_sorted_distinct)
    then show "er_name r = name" using iff by blast
  next
    assume "er_name r = name"
    then show "k' = k" using push_all_known [OF B push ok] stored [OF in_es] by blast
  qed
  have "bt_get es k = None \<longleftrightarrow> (\<forall>r. \<not> (\<exists>k'. (k', r) \<in> set es \<and> er_name r = name))"
    unfolding iff [symmetric] by (cases "bt_get es k") auto
  then show none: "bt_get es k = None \<longleftrightarrow> entry_names es name = None"
    by (auto simp: entry_names_None)
  have "distinct (map (er_name \<circ> snd) es)" using es by (simp add: entries_ok_def)
  note names = entry_names_distinct [OF this]
  show "map_option er_ino (bt_get es k) = entry_names es name"
  proof (cases "bt_get es k")
    case (Some r)
    then show ?thesis using iff [of r] names [of name "er_ino r"] by auto
  qed (use none in simp)
qed

lemma intern_entries_dir_is:
  assumes "blockset_laws B" "entries_ok B io es" "intern_entry_list B io es = (io', d)" "bs_ok B io'"
  shows "dir_is B io' d (entry_names es)"
proof -
  note push = assms(3) [unfolded intern_entry_list_def]
  show ?thesis unfolding dir_is_def
    using push_all_get [OF assms(1) push assms(4)]
      entries_ok_grows [OF push_all_grows [OF assms(1) push] assms(4,2)] by blast
qed

lemma entries_ok_insert:
  assumes B: "blockset_laws B" and es: "entries_ok B io es" and key: "entry_key B io name = (io', k)"
    and ok: "bs_ok B io'" and new: "entry_names es name = None"
    and name: "utf8_valid name" "length name < 2 ^ 32" and len: "Suc (length es) < 2 ^ 32"
    and r_def: "r = \<lparr>er_key = k, er_ino = i, er_name = name\<rparr>"
  shows "entries_ok B io' (bt_insert k r es)" and "entry_names (bt_insert k r es) = (entry_names es)(name \<mapsto> i)"
proof -
  note push = key [unfolded entry_key_def]
  have r: "er_key r = k" "er_ino r = i" "er_name r = name" using r_def by simp_all
  have es': "entries_ok B io' es" using entries_ok_grows [OF push_all_grows [OF B push] ok es] .
  have none: "bt_get es k = None" using entry_key_finds(2) [OF B es key ok] new by simp
  have sorted: "bt_sorted es" using es by (simp add: entries_ok_def entries_fit_def)
  have perm: "mset (bt_insert k r es) = add_mset (k, r) (mset es)"
    using none by (rule mset_bt_insert)
  have set: "set (bt_insert k r es) = insert (k, r) (set es)"
    using perm by (metis set_mset_add_mset_insert set_mset_mset)
  have "mset (map (er_name \<circ> snd) (bt_insert k r es)) = add_mset name (mset (map (er_name \<circ> snd) es))"
    by (simp add: perm r)
  then have "distinct (map (er_name \<circ> snd) (bt_insert k r es)) \<longleftrightarrow> distinct (name # map (er_name \<circ> snd) es)"
    by (intro mset_eq_imp_distinct_iff) simp
  also have "\<dots>" using es new by (auto simp: entries_ok_def entry_names_None)
  finally have dist: "distinct (map (er_name \<circ> snd) (bt_insert k r es))" .
  have "entries_fit (bt_insert k r es)"
    using es' name len sorted none set
    by (auto simp: entries_ok_def entries_fit_def bt_sorted_insert length_bt_insert r)
  with dist set es' push_all_get [OF B push ok]
  show ok': "entries_ok B io' (bt_insert k r es)" by (auto simp: entries_ok_def r)
  have "distinct (map (er_name \<circ> snd) es)" using es by (simp add: entries_ok_def)
  note names = entry_names_distinct [OF dist] entry_names_distinct [OF this]
  have other: "er_name r' \<noteq> name" if "(k', r') \<in> set es" for k' r'
    using new that by (auto simp: entry_names_None)
  show "entry_names (bt_insert k r es) = (entry_names es)(name \<mapsto> i)"
  proof (rule ext, rule option_eqI)
    fix n j
    show "entry_names (bt_insert k r es) n = Some j \<longleftrightarrow> ((entry_names es)(name \<mapsto> i)) n = Some j"
      unfolding names set fun_upd_apply using r other by (cases "n = name") (auto simp: names)
  qed
qed

lemma entries_ok_remove:
  assumes B: "blockset_laws B" and es: "entries_ok B io es" and key: "entry_key B io name = (io', k)"
    and ok: "bs_ok B io'"
  shows "entries_ok B io' (bt_remove k es)" and "entry_names (bt_remove k es) = (entry_names es)(name := None)"
proof -
  note push = key [unfolded entry_key_def]
  have es': "entries_ok B io' es" using entries_ok_grows [OF push_all_grows [OF B push] ok es] .
  have sorted: "bt_sorted es" using es by (simp add: entries_ok_def entries_fit_def)
  have flt: "bt_remove k es = filter (\<lambda>(k', _). k' \<noteq> k) es" using sorted by (rule bt_remove_filter)
  have dist: "distinct (map (er_name \<circ> snd) es)" using es by (simp add: entries_ok_def)
  then have dist': "distinct (map (er_name \<circ> snd) (bt_remove k es))"
    unfolding flt by (rule distinct_map_filter)
  have len: "length (bt_remove k es) \<le> length es" by (simp add: flt)
  have "length (bt_remove k es) < 2 ^ 32"
    using le_less_trans [OF len] es by (simp add: entries_ok_def entries_fit_def)
  then show "entries_ok B io' (bt_remove k es)"
    using es' dist' bt_sorted_remove [OF sorted, of k]
    by (auto simp: entries_ok_def entries_fit_def flt)
  have key_name: "(k', r) \<in> set es \<Longrightarrow> k' = k \<longleftrightarrow> er_name r = name" for k' r
    by (rule entry_key_finds(4) [OF B es key ok])
  show "entry_names (bt_remove k es) = (entry_names es)(name := None)"
  proof (rule ext, rule option_eqI)
    fix n j
    show "entry_names (bt_remove k es) n = Some j \<longleftrightarrow> ((entry_names es)(name := None)) n = Some j"
      unfolding entry_names_distinct [OF dist'] fun_upd_apply using key_name
      by (cases "n = name") (auto simp: entry_names_distinct [OF dist] flt)
  qed
qed

text \<open>
  The operations on the abstract map. All conclusions are about a storage that is still sound
  after the operation.
\<close>

lemma lookup_dir_entry_correct:
  assumes "blockset_laws B" "dir_is B io d m" "lookup_dir_entry B io d name = (io', res)" "bs_ok B io'"
  shows "bs_grows B io io'" "res = (case m name of None \<Rightarrow> Err (NotFound 0) | Some i \<Rightarrow> Ok i)"
proof -
  obtain es where es: "storage_get B io d = Some (serialize_entry_list es)" "entries_ok B io es" "m = entry_names es"
    using assms(2) by (auto simp: dir_is_def)
  obtain io1 k where key: "entry_key B io name = (io1, k)" by (metis surj_pair)
  have io': "io1 = io'" and res: "res = (case bt_get es k of None \<Rightarrow> Err (NotFound 0) | Some r \<Rightarrow> Ok (er_ino r))"
    using assms(3) by (simp_all add: lookup_dir_entry_def load_entries_ok [OF es(1,2)] key)
  show "bs_grows B io io'" using push_all_grows [OF assms(1)] key io' by (metis entry_key_def)
  show "res = (case m name of None \<Rightarrow> Err (NotFound 0) | Some i \<Rightarrow> Ok i)"
    using entry_key_finds(3) [OF assms(1) es(2) key, symmetric] assms(4) io' es(3) res
    by (cases "bt_get es k") simp_all
qed

lemma add_dir_entry_correct:
  assumes B: "blockset_laws B" and dir: "dir_is B io d m" and add: "add_dir_entry B io d name i = (io', res)"
    and ok: "bs_ok B io'" and name: "utf8_valid name" "length name < 2 ^ 32" and room: "card (dom m) < 2 ^ 32 - 1"
  shows "bs_grows B io io'"
    and "if name \<in> {str ''.'', str ''..''} then res = Err (InvalidName name)
      else if m name \<noteq> None then res = Err (AlreadyExists i)
      else \<exists>d'. res = Ok d' \<and> dir_is B io' d' (m(name \<mapsto> i))"
proof -
  obtain es where es: "storage_get B io d = Some (serialize_entry_list es)" "entries_ok B io es" "m = entry_names es"
    using dir by (auto simp: dir_is_def)
  obtain io1 k where key: "entry_key B io name = (io1, k)" by (metis surj_pair)
  obtain io2 d2 where int: "intern_entry_list B io1
      (bt_insert k \<lparr>er_key = k, er_ino = i, er_name = name\<rparr> es) = (io2, d2)" by (metis surj_pair)
  have g1: "bs_grows B io io1" using push_all_grows [OF B] key by (metis entry_key_def)
  have g2: "bs_grows B io1 io2" using push_all_grows [OF B] int by (metis intern_entry_list_def)
  have cases: "io' = io \<and> res = Err (InvalidName name) \<and> name \<in> {str ''.'', str ''..''} \<or>
    io' = io1 \<and> res = Err (AlreadyExists i) \<and> name \<notin> {str ''.'', str ''..''} \<and> bt_get es k \<noteq> None \<or>
    io' = io2 \<and> res = Ok d2 \<and> name \<notin> {str ''.'', str ''..''} \<and> bt_get es k = None"
    using add by (auto simp: add_dir_entry_def load_entries_ok [OF es(1,2)] key int split: if_splits)
  then show grows: "bs_grows B io io'" using g1 bs_grows_trans [OF g1 g2] by auto
  have len: "Suc (length es) < 2 ^ 32"
    using room card_entry_names [of es] es by (simp add: entries_ok_def)
  from cases show "if name \<in> {str ''.'', str ''..''} then res = Err (InvalidName name)
      else if m name \<noteq> None then res = Err (AlreadyExists i)
      else \<exists>d'. res = Ok d' \<and> dir_is B io' d' (m(name \<mapsto> i))"
  proof (elim disjE conjE)
    assume "io' = io1" "name \<notin> {str ''.'', str ''..''}" "res = Err (AlreadyExists i)" "bt_get es k \<noteq> None"
    then show ?thesis using entry_key_finds(2) [OF B es(2) key] ok es(3) by auto
  next
    assume *: "io' = io2" "name \<notin> {str ''.'', str ''..''}" "res = Ok d2" "bt_get es k = None"
    then have ok1: "bs_ok B io1" using ok bs_growsD(1) [OF g2] by simp
    have new: "entry_names es name = None" using entry_key_finds(2) [OF B es(2) key ok1] * by simp
    note ins = entries_ok_insert [OF B es(2) key ok1 new name len refl, of i]
    show ?thesis
      using intern_entries_dir_is [OF B ins(1) int] ins(2) ok * new es(3) by simp
  qed simp
qed

lemma remove_dir_entry_correct:
  assumes B: "blockset_laws B" and dir: "dir_is B io d m" and rem: "remove_dir_entry B io d name = (io', res)"
    and ok: "bs_ok B io'"
  shows "bs_grows B io io'"
    and "if name \<in> {str ''.'', str ''..''} then res = Err (InvalidName name)
      else if m name = None then res = Err (NotFound 0)
      else \<exists>d'. res = Ok d' \<and> dir_is B io' d' (m(name := None))"
proof -
  obtain es where es: "storage_get B io d = Some (serialize_entry_list es)" "entries_ok B io es" "m = entry_names es"
    using dir by (auto simp: dir_is_def)
  obtain io1 k where key: "entry_key B io name = (io1, k)" by (metis surj_pair)
  obtain io2 d2 where int: "intern_entry_list B io1 (bt_remove k es) = (io2, d2)" by (metis surj_pair)
  have g1: "bs_grows B io io1" using push_all_grows [OF B] key by (metis entry_key_def)
  have g2: "bs_grows B io1 io2" using push_all_grows [OF B] int by (metis intern_entry_list_def)
  have cases: "io' = io \<and> res = Err (InvalidName name) \<and> name \<in> {str ''.'', str ''..''} \<or>
    io' = io1 \<and> res = Err (NotFound 0) \<and> name \<notin> {str ''.'', str ''..''} \<and> bt_get es k = None \<or>
    io' = io2 \<and> res = Ok d2 \<and> name \<notin> {str ''.'', str ''..''} \<and> bt_get es k \<noteq> None"
    using rem by (auto simp: remove_dir_entry_def load_entries_ok [OF es(1,2)] key int split: if_splits)
  then show grows: "bs_grows B io io'" using g1 bs_grows_trans [OF g1 g2] by auto
  from cases show "if name \<in> {str ''.'', str ''..''} then res = Err (InvalidName name)
      else if m name = None then res = Err (NotFound 0)
      else \<exists>d'. res = Ok d' \<and> dir_is B io' d' (m(name := None))"
  proof (elim disjE conjE)
    assume "io' = io1" "name \<notin> {str ''.'', str ''..''}" "res = Err (NotFound 0)" "bt_get es k = None"
    then show ?thesis using entry_key_finds(2) [OF B es(2) key] ok es(3) by auto
  next
    assume *: "io' = io2" "name \<notin> {str ''.'', str ''..''}" "res = Ok d2" "bt_get es k \<noteq> None"
    then have ok1: "bs_ok B io1" using ok bs_growsD(1) [OF g2] by simp
    have "entry_names es name \<noteq> None" using entry_key_finds(2) [OF B es(2) key ok1] * by simp
    moreover note del = entries_ok_remove [OF B es(2) key ok1]
    ultimately show ?thesis
      using intern_entries_dir_is [OF B del(1) int] del(2) ok * es(3) by simp
  qed simp
qed

lemma list_dir_entries_correct:
  assumes "dir_is B io d m"
  shows "\<exists>l. list_dir_entries B io d = Ok l \<and> distinct (map de_name l) \<and>
    map_of (map (\<lambda>e. (de_name e, de_ino e)) l) = m \<and> length l = card (dom m)"
proof -
  obtain es where es: "storage_get B io d = Some (serialize_entry_list es)" "entries_ok B io es" "m = entry_names es"
    using assms by (auto simp: dir_is_def)
  let ?l = "map (\<lambda>(_, r). \<lparr>de_name = er_name r, de_ino = er_ino r\<rparr>) es"
  have "list_dir_entries B io d = Ok ?l" by (simp add: list_dir_entries_def load_entries_ok [OF es(1,2)])
  moreover have names: "map de_name ?l = map (er_name \<circ> snd) es" by (simp add: comp_def split_def)
  have "distinct (map (er_name \<circ> snd) es)" using es(2) by (simp add: entries_ok_def)
  moreover from this have "length ?l = card (dom m)" using card_entry_names [of es] es(3) by simp
  moreover have "map (\<lambda>e. (de_name e, de_ino e)) ?l = map (\<lambda>(_, r). (er_name r, er_ino r)) es"
    by (simp add: comp_def split_def)
  then have "map_of (map (\<lambda>e. (de_name e, de_ino e)) ?l) = m" by (simp only: es(3) entry_names_def)
  ultimately show ?thesis unfolding names [symmetric] by blast
qed

lemma dot_names: "str ''.'' \<noteq> str ''..''" "utf8_valid (str ''.'')" "utf8_valid (str ''..'')"
  by code_simp+

lemma create_dir_entries_correct:
  assumes B: "blockset_laws B" and c: "create_dir_entries B io self parent = (io', d)" and ok: "bs_ok B io'"
  shows "bs_grows B io io'" and "dir_is B io' d [str ''.'' \<mapsto> self, str ''..'' \<mapsto> parent]"
proof -
  obtain io1 k1 where key1: "entry_key B io (str ''.'') = (io1, k1)" by (metis surj_pair)
  obtain io2 k2 where key2: "entry_key B io1 (str ''..'') = (io2, k2)" by (metis surj_pair)
  let ?r1 = "\<lparr>er_key = k1, er_ino = self, er_name = str ''.''\<rparr>"
  let ?r2 = "\<lparr>er_key = k2, er_ino = parent, er_name = str ''..''\<rparr>"
  have int: "intern_entry_list B io2 (bt_insert k2 ?r2 (bt_insert k1 ?r1 [])) = (io', d)"
    using c by (simp add: create_dir_entries_def key1 key2)
  have g1: "bs_grows B io io1" using push_all_grows [OF B] key1 by (metis entry_key_def)
  have g2: "bs_grows B io1 io2" using push_all_grows [OF B] key2 by (metis entry_key_def)
  have g3: "bs_grows B io2 io'" using push_all_grows [OF B] int by (metis intern_entry_list_def)
  show "bs_grows B io io'" using g1 g2 g3 by (blast intro: bs_grows_trans)
  have ok2: "bs_ok B io2" using bs_growsD(1) [OF g3 ok] .
  have ok1: "bs_ok B io1" using bs_growsD(1) [OF g2 ok2] .
  have len: "length (str ''.'') < 2 ^ 32" "length (str ''..'') < 2 ^ 32" by (simp_all add: str_def)
  have e0: "entries_ok B io []" "entry_names [] = Map.empty"
    by (simp_all add: entries_ok_def entries_fit_def entry_names_def)
  note e1 = entries_ok_insert [OF B e0(1) key1 ok1 _ dot_names(2) len(1) _ refl, of self]
  have names1: "entry_names (bt_insert k1 ?r1 []) = [str ''.'' \<mapsto> self]"
    using e1(2) e0(2) by simp
  have ok_1: "entries_ok B io1 (bt_insert k1 ?r1 [])" using e1(1) e0(2) by simp
  note e2 = entries_ok_insert [OF B ok_1 key2 ok2 _ dot_names(3) len(2) _ refl, of parent]
  have "entries_ok B io2 (bt_insert k2 ?r2 (bt_insert k1 ?r1 []))"
    and names2: "entry_names (bt_insert k2 ?r2 (bt_insert k1 ?r1 [])) = [str ''.'' \<mapsto> self, str ''..'' \<mapsto> parent]"
    using e2 names1 dot_names(1) by (simp_all del: bt_insert.simps add: length_bt_insert)
  then show "dir_is B io' d [str ''.'' \<mapsto> self, str ''..'' \<mapsto> parent]"
    using intern_entries_dir_is [OF B _ int ok] by simp
qed

end
