(* ===== verification/Store.thy ===== *)
theory Store
  imports Directory Wal
begin

section \<open>The metadata store\<close>

text \<open>
  \<^verbatim>\<open>DictMetadataStore\<close> of \<^verbatim>\<open>crates/metadata/src/store.rs\<close>: the in-memory maps from inode numbers to
  digests, the reference counts, the counters, the log and the snapshot index, with every operation
  of the \<^verbatim>\<open>MetadataStore\<close> trait and of the inherent implementation. The operations run one at a time:
  each field is guarded by a mutex in the code, and the model takes a call as one step.

  The store is the record \<open>store\<close>; an operation maps it to the new store and a result. Storage
  writes go through the parameter \<open>B\<close>; the faults of the log during a call are the argument \<open>F\<close>.
\<close>

unbundle bit_operations_syntax

record 'io store =
  ds_io :: 'io
  ds_inode_map :: inode_map
  ds_inode_data :: "(u64, digest224) btree"
  ds_dir_data :: "(u64, digest224) btree"
  ds_manifest_data :: "(u64, digest224) btree"
  ds_xattr_data :: "(u64, digest224) btree"
  ds_refcounts :: "(digest224, u64) btree"
  ds_logical_bytes :: u64
  ds_inode_count :: u64
  ds_wal :: "wal option"
  ds_last_root :: "digest224 option"
  ds_by_version :: "(u64, snapshot_entry) btree"
  ds_by_name :: "rstring \<rightharpoonup> u64"

text \<open>
  \<^verbatim>\<open>ds_by_version\<close> is a \<^verbatim>\<open>HashMap\<close> in the code; its contents are kept here in key order, which only
  \<^verbatim>\<open>snapshot_roots\<close> could tell apart: there the iteration order is an argument.
\<close>

definition S_IFDIR :: u32 where
  "S_IFDIR = 0x4000"

definition u64_max :: u64 where
  "u64_max = - 1"

definition saturating_sub :: "u64 \<Rightarrow> u64 \<Rightarrow> u64" where
  "saturating_sub a b = (if a < b then 0 else a - b)"

text \<open>\<^verbatim>\<open>new\<close>; \<open>uid\<close> and \<open>gid\<close> are those of the process.\<close>

definition store_new :: "('io, 'st) blockset \<Rightarrow> u32 \<Rightarrow> u32 \<Rightarrow> 'io \<Rightarrow> 'io store" where
  "store_new B u g io =
     (let (io, root_inode_digest) = intern_inode B io (new_directory 1 u g (S_IFDIR OR 0x1ED));
          (io, root_dir_digest) = create_dir_entries B io 1 1
      in \<lparr>ds_io = io,
          ds_inode_map = im_insert 1 root_inode_digest inode_map_new,
          ds_inode_data = bt_insert 1 root_inode_digest [],
          ds_dir_data = bt_insert 1 root_dir_digest [],
          ds_manifest_data = [], ds_xattr_data = [], ds_refcounts = [],
          ds_logical_bytes = 0, ds_inode_count = 1, ds_wal = None, ds_last_root = None,
          ds_by_version = [], ds_by_name = Map.empty\<rparr>)"

subsection \<open>Reference counts\<close>

definition increment_refcount :: "digest224 \<Rightarrow> 'io store \<Rightarrow> 'io store" where
  "increment_refcount d s =
     (let val = (case bt_get (ds_refcounts s) d of Some v \<Rightarrow> v | None \<Rightarrow> 0) in
      if val = u64_max then s\<lparr>ds_refcounts := bt_insert d val (ds_refcounts s)\<rparr>
      else s\<lparr>ds_refcounts := bt_insert d (val + 1) (ds_refcounts s)\<rparr>)"

definition decrement_refcount :: "digest224 \<Rightarrow> 'io store \<Rightarrow> 'io store" where
  "decrement_refcount d s =
     (case bt_get (ds_refcounts s) d of
        None \<Rightarrow> s
      | Some cnt \<Rightarrow>
          if cnt = u64_max then s
          else if cnt \<le> 1 then s\<lparr>ds_refcounts := bt_remove d (ds_refcounts s)\<rparr>
          else s\<lparr>ds_refcounts := bt_insert d (cnt - 1) (ds_refcounts s)\<rparr>)"

definition get_refcount :: "digest224 \<Rightarrow> 'io store \<Rightarrow> u64" where
  "get_refcount d s = (case bt_get (ds_refcounts s) d of Some v \<Rightarrow> v | None \<Rightarrow> 0)"

definition saturated_refcount_count :: "'io store \<Rightarrow> nat" where
  "saturated_refcount_count s = length (filter (\<lambda>(_, v). v = u64_max) (ds_refcounts s))"

subsection \<open>The log\<close>

definition set_wal :: "wal \<Rightarrow> 'io store \<Rightarrow> 'io store" where
  "set_wal w s = s\<lparr>ds_wal := Some w\<rparr>"

definition flush_wal :: "wal_fault \<Rightarrow> 'io store \<Rightarrow> 'io store \<times> (io_error + unit)" where
  "flush_wal F s =
     (case ds_wal s of
        None \<Rightarrow> (s, Ok ())
      | Some w \<Rightarrow> (let (r, w) = flush_and_sync F w in (s\<lparr>ds_wal := Some w\<rparr>, r)))"

definition shutdown_wal :: "wal_fault \<Rightarrow> 'io store \<Rightarrow> 'io store \<times> (io_error + unit)" where
  "shutdown_wal F s =
     (case ds_wal s of
        None \<Rightarrow> (s, Ok ())
      | Some w \<Rightarrow> (let (r, w) = shutdown F w in (s\<lparr>ds_wal := Some w\<rparr>, r)))"

text \<open>Errors of the log are ignored here.\<close>

definition log_wal_entry :: "wal_fault \<Rightarrow> wal_entry \<Rightarrow> 'io store \<Rightarrow> 'io store" where
  "log_wal_entry F entry s =
     (case ds_wal s of None \<Rightarrow> s | Some w \<Rightarrow> s\<lparr>ds_wal := Some (snd (log_mutation F entry w))\<rparr>)"

definition current_root :: "'io store \<Rightarrow> digest224 option" where
  "current_root s = ds_last_root s"

definition commit_root :: "wal_fault \<Rightarrow> digest224 \<Rightarrow> 'io store \<Rightarrow> 'io store \<times> (meta_error + unit)" where
  "commit_root F root s = (log_wal_entry F (WalRootUpdate root) (s\<lparr>ds_last_root := Some root\<rparr>), Ok ())"

subsection \<open>Inodes\<close>

definition create_inode ::
  "('io, 'st) blockset \<Rightarrow> inode_meta \<Rightarrow> 'io store \<Rightarrow> 'io store \<times> (meta_error + u64)" where
  "create_inode B meta s =
     (let (im, i) = allocate_ino (ds_inode_map s);
          full_meta = meta\<lparr>ino := i\<rparr>;
          (io, digest) = intern_inode B (ds_io s) full_meta;
          s = s\<lparr>ds_io := io, ds_inode_map := im_insert i digest im,
                ds_inode_data := bt_insert i digest (ds_inode_data s)\<rparr>;
          s = (if size full_meta > 0 then s\<lparr>ds_logical_bytes := ds_logical_bytes s + size full_meta\<rparr> else s)
      in (s\<lparr>ds_inode_count := ds_inode_count s + 1\<rparr>, Ok i))"

definition get_inode :: "('io, 'st) blockset \<Rightarrow> u64 \<Rightarrow> 'io store \<Rightarrow> meta_error + inode_meta" where
  "get_inode B i s =
     (case bt_get (ds_inode_data s) i of
        None \<Rightarrow> Err (NotFound i)
      | Some digest \<Rightarrow> load_inode B (ds_io s) digest)"

definition loaded_size :: "meta_error + inode_meta \<Rightarrow> u64" where
  "loaded_size r = (case r of Ok m \<Rightarrow> size m | Err _ \<Rightarrow> 0)"

definition update_inode ::
  "('io, 'st) blockset \<Rightarrow> inode_meta \<Rightarrow> 'io store \<Rightarrow> 'io store \<times> (meta_error + unit)" where
  "update_inode B meta s =
     (case bt_get (ds_inode_data s) (ino meta) of
        None \<Rightarrow> (s, Err (NotFound (ino meta)))
      | Some old_digest \<Rightarrow>
          (let old_size = loaded_size (load_inode B (ds_io s) old_digest);
               (io, new_digest) = intern_inode B (ds_io s) meta;
               s = s\<lparr>ds_io := io, ds_inode_data := bt_insert (ino meta) new_digest (ds_inode_data s),
                     ds_inode_map := im_insert (ino meta) new_digest (ds_inode_map s)\<rparr>;
               new_size = size meta;
               s = (if new_size > old_size
                    then s\<lparr>ds_logical_bytes := ds_logical_bytes s + (new_size - old_size)\<rparr>
                    else if old_size > new_size
                    then s\<lparr>ds_logical_bytes := saturating_sub (ds_logical_bytes s) (old_size - new_size)\<rparr>
                    else s)
           in (s, Ok ())))"

definition delete_inode ::
  "('io, 'st) blockset \<Rightarrow> u64 \<Rightarrow> 'io store \<Rightarrow> 'io store \<times> (meta_error + unit)" where
  "delete_inode B i s =
     (case bt_get (ds_inode_data s) i of
        None \<Rightarrow> (s, Err (NotFound i))
      | Some digest \<Rightarrow>
          (let sz = loaded_size (load_inode B (ds_io s) digest);
               s = s\<lparr>ds_inode_data := bt_remove i (ds_inode_data s),
                     ds_inode_map := im_remove i (ds_inode_map s)\<rparr>;
               s = (if sz > 0 then s\<lparr>ds_logical_bytes := saturating_sub (ds_logical_bytes s) sz\<rparr> else s)
           in (s\<lparr>ds_inode_count := saturating_sub (ds_inode_count s) 1\<rparr>, Ok ())))"

subsection \<open>Directories\<close>

definition is_dir_mode :: "u32 \<Rightarrow> bool" where
  "is_dir_mode m \<longleftrightarrow> m AND S_IFDIR \<noteq> 0"

text \<open>
  The number is allocated before the name is added, so a refused name (invalid or taken) leaves the
  allocator advanced and the new directory's nodes in the storage.
\<close>

definition create_directory ::
  "('io, 'st) blockset \<Rightarrow> u64 \<Rightarrow> rstring \<Rightarrow> inode_meta \<Rightarrow> 'io store \<Rightarrow> 'io store \<times> (meta_error + u64)" where
  "create_directory B parent_ino name meta s =
     (case get_inode B parent_ino s of
        Err e \<Rightarrow> (s, Err e)
      | Ok parent_meta \<Rightarrow>
          if \<not> is_dir_mode (mode parent_meta) then (s, Err (NotADirectory parent_ino))
          else case bt_get (ds_dir_data s) parent_ino of
            None \<Rightarrow> (s, Err (NotADirectory parent_ino))
          | Some parent_dir_digest \<Rightarrow>
              (let (im, i) = allocate_ino (ds_inode_map s);
                   dir_meta = meta\<lparr>ino := i\<rparr>;
                   dir_meta = (if \<not> is_dir_mode (mode dir_meta)
                               then dir_meta\<lparr>mode := mode dir_meta OR S_IFDIR\<rparr> else dir_meta);
                   (io, dir_inode_digest) = intern_inode B (ds_io s) dir_meta;
                   (io, dir_entry_digest) = create_dir_entries B io i parent_ino
               in case add_dir_entry B io parent_dir_digest name i of
                    (io, Err e) \<Rightarrow> (s\<lparr>ds_io := io, ds_inode_map := im\<rparr>, Err e)
                  | (io, Ok new_parent_dir_digest) \<Rightarrow>
                      (let s = s\<lparr>ds_io := io,
                             ds_inode_map := im_insert i dir_inode_digest im,
                             ds_inode_data := bt_insert i dir_inode_digest (ds_inode_data s),
                             ds_dir_data := bt_insert parent_ino new_parent_dir_digest
                               (bt_insert i dir_entry_digest (ds_dir_data s))\<rparr>
                       in case get_inode B parent_ino s of
                            Err e \<Rightarrow> (s, Err e)
                          | Ok parent_meta \<Rightarrow>
                              (case update_inode B (parent_meta\<lparr>nlinks := nlinks parent_meta + 1\<rparr>) s of
                                 (s, Err e) \<Rightarrow> (s, Err e)
                               | (s, Ok _) \<Rightarrow> (s\<lparr>ds_inode_count := ds_inode_count s + 1\<rparr>, Ok i)))))"

definition list_directory :: "('io, 'st) blockset \<Rightarrow> u64 \<Rightarrow> 'io store \<Rightarrow> meta_error + dir_entry list" where
  "list_directory B i s =
     (case bt_get (ds_dir_data s) i of
        None \<Rightarrow> Err (NotADirectory i)
      | Some dir_digest \<Rightarrow> list_dir_entries B (ds_io s) dir_digest)"

text \<open>Computing the key of a name stores it, so a lookup may change the storage.\<close>

definition store_lookup ::
  "('io, 'st) blockset \<Rightarrow> u64 \<Rightarrow> rstring \<Rightarrow> 'io store \<Rightarrow> 'io store \<times> (meta_error + u64)" where
  "store_lookup B parent_ino name s =
     (case bt_get (ds_dir_data s) parent_ino of
        None \<Rightarrow> (s, Err (NotADirectory parent_ino))
      | Some dir_digest \<Rightarrow>
          (let (io, r) = lookup_dir_entry B (ds_io s) dir_digest name
           in (s\<lparr>ds_io := io\<rparr>, case r of Ok i \<Rightarrow> Ok i | Err _ \<Rightarrow> Err (NotFound 0))))"

definition store_link ::
  "('io, 'st) blockset \<Rightarrow> u64 \<Rightarrow> rstring \<Rightarrow> u64 \<Rightarrow> 'io store \<Rightarrow> 'io store \<times> (meta_error + unit)" where
  "store_link B parent_ino name i s =
     (case bt_get (ds_dir_data s) parent_ino of
        None \<Rightarrow> (s, Err (NotADirectory parent_ino))
      | Some dir_digest \<Rightarrow>
          (case add_dir_entry B (ds_io s) dir_digest name i of
             (io, Err e) \<Rightarrow> (s\<lparr>ds_io := io\<rparr>, Err e)
           | (io, Ok new_dir_digest) \<Rightarrow>
               (s\<lparr>ds_io := io, ds_dir_data := bt_insert parent_ino new_dir_digest (ds_dir_data s)\<rparr>, Ok ())))"

definition store_unlink ::
  "('io, 'st) blockset \<Rightarrow> u64 \<Rightarrow> rstring \<Rightarrow> 'io store \<Rightarrow> 'io store \<times> (meta_error + unit)" where
  "store_unlink B parent_ino name s =
     (case bt_get (ds_dir_data s) parent_ino of
        None \<Rightarrow> (s, Err (NotADirectory parent_ino))
      | Some dir_digest \<Rightarrow>
          (case remove_dir_entry B (ds_io s) dir_digest name of
             (io, Err e) \<Rightarrow> (s\<lparr>ds_io := io\<rparr>, Err e)
           | (io, Ok new_dir_digest) \<Rightarrow>
               (s\<lparr>ds_io := io, ds_dir_data := bt_insert parent_ino new_dir_digest (ds_dir_data s)\<rparr>, Ok ())))"

subsection \<open>Manifests and extended attributes\<close>

definition set_manifest ::
  "('io, 'st) blockset \<Rightarrow> u64 \<Rightarrow> digest224 list \<Rightarrow> 'io store \<Rightarrow> 'io store \<times> (meta_error + unit)" where
  "set_manifest B i blocks s =
     (let (io, digest) = intern_manifest B (ds_io s) blocks
      in (s\<lparr>ds_io := io, ds_manifest_data := bt_insert i digest (ds_manifest_data s)\<rparr>, Ok ()))"

definition get_manifest :: "('io, 'st) blockset \<Rightarrow> u64 \<Rightarrow> 'io store \<Rightarrow> meta_error + digest224 list" where
  "get_manifest B i s =
     (case bt_get (ds_manifest_data s) i of
        None \<Rightarrow> Err (NotFound i)
      | Some digest \<Rightarrow> load_manifest B (ds_io s) digest)"

definition set_xattr ::
  "('io, 'st) blockset \<Rightarrow> u64 \<Rightarrow> rstring \<Rightarrow> bytes \<Rightarrow> 'io store \<Rightarrow> 'io store \<times> (meta_error + unit)" where
  "set_xattr B i name val s =
     (case (case bt_get (ds_xattr_data s) i of
              Some digest \<Rightarrow> load_xattrs B (ds_io s) digest
            | None \<Rightarrow> Ok []) of
        Err e \<Rightarrow> (s, Err e)
      | Ok xattrs \<Rightarrow>
          (let (io, new_digest) = intern_xattrs B (ds_io s) (set_xattr_entry name val xattrs)
           in (s\<lparr>ds_io := io, ds_xattr_data := bt_insert i new_digest (ds_xattr_data s)\<rparr>, Ok ())))"

definition get_xattr :: "('io, 'st) blockset \<Rightarrow> u64 \<Rightarrow> rstring \<Rightarrow> 'io store \<Rightarrow> meta_error + bytes" where
  "get_xattr B i name s =
     (case bt_get (ds_xattr_data s) i of
        None \<Rightarrow> Err (NotFound i)
      | Some digest \<Rightarrow>
          (case load_xattrs B (ds_io s) digest of
             Err e \<Rightarrow> Err e
           | Ok xattrs \<Rightarrow>
               (case get_xattr_entry xattrs name of None \<Rightarrow> Err (NotFound i) | Some v \<Rightarrow> Ok v)))"

definition list_xattrs :: "('io, 'st) blockset \<Rightarrow> u64 \<Rightarrow> 'io store \<Rightarrow> meta_error + rstring list" where
  "list_xattrs B i s =
     (case bt_get (ds_xattr_data s) i of
        None \<Rightarrow> Ok []
      | Some digest \<Rightarrow>
          (case load_xattrs B (ds_io s) digest of Err e \<Rightarrow> Err e | Ok xattrs \<Rightarrow> Ok (list_xattr_names xattrs)))"

definition remove_xattr ::
  "('io, 'st) blockset \<Rightarrow> u64 \<Rightarrow> rstring \<Rightarrow> 'io store \<Rightarrow> 'io store \<times> (meta_error + unit)" where
  "remove_xattr B i name s =
     (case bt_get (ds_xattr_data s) i of
        None \<Rightarrow> (s, Err (NotFound i))
      | Some digest \<Rightarrow>
          (case load_xattrs B (ds_io s) digest of
             Err e \<Rightarrow> (s, Err e)
           | Ok xattrs \<Rightarrow>
               (let (kept, removed) = remove_xattr_entry name xattrs in
                if \<not> removed then (s, Err (NotFound i))
                else let (io, new_digest) = intern_xattrs B (ds_io s) kept
                  in (s\<lparr>ds_io := io, ds_xattr_data := bt_insert i new_digest (ds_xattr_data s)\<rparr>, Ok ()))))"

definition root_ino :: u64 where
  "root_ino = 1"

subsection \<open>Commit\<close>

definition intern_u64_digest_map ::
  "('io, 'st) blockset \<Rightarrow> 'io \<Rightarrow> (u64, digest224) btree \<Rightarrow> 'io \<times> digest224" where
  "intern_u64_digest_map B io m =
     push_all B io (u64_to_le (of_nat (length m)) @ concat (map enc_ino_digest m))"

definition enc_digest_count :: "digest224 \<times> u64 \<Rightarrow> bytes" where
  "enc_digest_count r = digest_to_le (fst r) @ u64_to_le (snd r)"

definition intern_digest224_u64_map ::
  "('io, 'st) blockset \<Rightarrow> 'io \<Rightarrow> (digest224, u64) btree \<Rightarrow> 'io \<times> digest224" where
  "intern_digest224_u64_map B io m =
     push_all B io (u64_to_le (of_nat (length m)) @ concat (map enc_digest_count m))"

definition root_record ::
  "digest224 \<Rightarrow> u64 \<Rightarrow> digest224 \<Rightarrow> digest224 \<Rightarrow> digest224 \<Rightarrow> digest224 \<Rightarrow> digest224 \<Rightarrow> bytes" where
  "root_record inode_map_digest next_ino inode_data_digest dir_data_digest manifest_data_digest
     xattr_data_digest refcount_data_digest =
     digest_to_le inode_map_digest @ u64_to_le 1 @ u64_to_le next_ino @
     digest_to_le inode_data_digest @ digest_to_le dir_data_digest @
     digest_to_le manifest_data_digest @ digest_to_le xattr_data_digest @
     digest_to_le refcount_data_digest"

definition commit ::
  "('io, 'st) blockset \<Rightarrow> wal_fault \<Rightarrow> 'io store \<Rightarrow> 'io store \<times> (meta_error + digest224)" where
  "commit B F s =
     (let (io, inode_map_digest) = intern_inode_map B (ds_io s) (ds_inode_map s);
          next_ino = im_next_ino (ds_inode_map s);
          (io, inode_data_digest) = intern_u64_digest_map B io (ds_inode_data s);
          (io, dir_data_digest) = intern_u64_digest_map B io (ds_dir_data s);
          (io, manifest_data_digest) = intern_u64_digest_map B io (ds_manifest_data s);
          (io, xattr_data_digest) = intern_u64_digest_map B io (ds_xattr_data s);
          (io, refcount_data_digest) = intern_digest224_u64_map B io (ds_refcounts s);
          (io, root_digest) = push_all B io
            (root_record inode_map_digest next_ino inode_data_digest dir_data_digest
               manifest_data_digest xattr_data_digest refcount_data_digest);
          s = s\<lparr>ds_io := io, ds_last_root := Some root_digest\<rparr>
      in (log_wal_entry F (WalRootUpdate root_digest) s, Ok root_digest))"

subsection \<open>Reconstruction from a root\<close>

text \<open>
  The expected length \<^verbatim>\<open>8 + count * 36\<close> is computed in 64 bits. When it wraps around to the
  actual length, the loop reads past the end of the buffer and the program panics; \<open>Panic\<close> is that
  outcome, \<open>Fault e\<close> an error \<open>e\<close> that is returned.
\<close>

datatype load_fault = Fault meta_error | Panic

fun record_loop :: "(bytes \<Rightarrow> 'k::linorder \<times> 'v) \<Rightarrow> nat \<Rightarrow> bytes \<Rightarrow> ('k, 'v) btree \<Rightarrow> load_fault + ('k, 'v) btree" where
  "record_loop dec 0 bs m = Ok m"
| "record_loop dec (Suc n) bs m =
     (if length bs < 36 then Err Panic
      else let (k, v) = dec (take 36 bs) in record_loop dec n (drop 36 bs) (bt_insert k v m))"

definition decode_record_map ::
  "string \<Rightarrow> string \<Rightarrow> (bytes \<Rightarrow> 'k::linorder \<times> 'v) \<Rightarrow> bytes \<Rightarrow> load_fault + ('k, 'v) btree" where
  "decode_record_map short wrong dec bytes =
     (if length bytes < 8 then Err (Fault (Corrupted short))
      else let cnt = u64_from_le (take 8 bytes);
               expected = 8 + cnt * 36
      in if length bytes \<noteq> unat expected then Err (Fault (Corrupted wrong))
         else record_loop dec (unat cnt) (drop 8 bytes) [])"

definition load_u64_digest_map ::
  "('io, 'st) blockset \<Rightarrow> 'io \<Rightarrow> digest224 \<Rightarrow> load_fault + (u64, digest224) btree" where
  "load_u64_digest_map B io key =
     (case storage_get B io key of
        None \<Rightarrow> Err (Fault (Corrupted ''missing u64-digest map node''))
      | Some bytes \<Rightarrow> decode_record_map ''u64-digest map: expected at least 8 bytes''
          ''u64-digest map: wrong number of bytes'' dec_ino_digest bytes)"

definition dec_digest_count :: "bytes \<Rightarrow> digest224 \<times> u64" where
  "dec_digest_count bs = (digest_from_le (slice bs 0 28), u64_from_le (slice bs 28 36))"

definition load_digest224_u64_map ::
  "('io, 'st) blockset \<Rightarrow> 'io \<Rightarrow> digest224 \<Rightarrow> load_fault + (digest224, u64) btree" where
  "load_digest224_u64_map B io key =
     (case storage_get B io key of
        None \<Rightarrow> Err (Fault (Corrupted ''missing digest224-u64 map node''))
      | Some bytes \<Rightarrow> decode_record_map ''digest224-u64 map: expected at least 8 bytes''
          ''digest224-u64 map: wrong number of bytes'' dec_digest_count bytes)"

definition parse_digest224 :: "bytes \<Rightarrow> digest224" where
  "parse_digest224 bs = digest_from_le bs"

text \<open>Both root formats: 156 bytes without reference counts, 184 bytes with them.\<close>

definition load_from_root ::
  "('io, 'st) blockset \<Rightarrow> 'io \<Rightarrow> digest224 \<Rightarrow> load_fault + 'io store" where
  "load_from_root B io root =
     (case storage_get B io root of
        None \<Rightarrow> Err (Fault (Corrupted ''missing root node''))
      | Some bytes \<Rightarrow>
          if length bytes \<noteq> 156 \<and> length bytes \<noteq> 184
          then Err (Fault (Corrupted ''root record: expected 156 or 184 bytes''))
          else let has_refcounts = (length bytes = 184);
                   inode_map_digest = parse_digest224 (slice bytes 0 28);
                   root_dir_ino = u64_from_le (slice bytes 28 36);
                   next_ino = u64_from_le (slice bytes 36 44);
                   inode_data_digest = parse_digest224 (slice bytes 44 72);
                   dir_data_digest = parse_digest224 (slice bytes 72 100);
                   manifest_data_digest = parse_digest224 (slice bytes 100 128);
                   xattr_data_digest = parse_digest224 (slice bytes 128 156);
                   refcount_data_digest_opt =
                     (if has_refcounts then Some (parse_digest224 (slice bytes 156 184)) else None)
          in case load_inode_map B io inode_map_digest of Err e \<Rightarrow> Err (Fault e) | Ok im \<Rightarrow>
             (case load_u64_digest_map B io inode_data_digest of Err e \<Rightarrow> Err e | Ok inode_data \<Rightarrow>
             (case load_u64_digest_map B io dir_data_digest of Err e \<Rightarrow> Err e | Ok dir_data \<Rightarrow>
             (case load_u64_digest_map B io manifest_data_digest of Err e \<Rightarrow> Err e | Ok manifest_data \<Rightarrow>
             (case load_u64_digest_map B io xattr_data_digest of Err e \<Rightarrow> Err e | Ok xattr_data \<Rightarrow>
             (case (case refcount_data_digest_opt of
                      Some rc_digest \<Rightarrow> load_digest224_u64_map B io rc_digest
                    | None \<Rightarrow> Ok []) of Err e \<Rightarrow> Err e | Ok rc \<Rightarrow>
              if bt_get inode_data root_dir_ino = None
              then Err (Fault (Corrupted ''root dir ino not found in inode_data after reload''))
              else Ok \<lparr>ds_io = io, ds_inode_map = set_next_ino next_ino im,
                       ds_inode_data = inode_data, ds_dir_data = dir_data,
                       ds_manifest_data = manifest_data, ds_xattr_data = xattr_data,
                       ds_refcounts = rc,
                       ds_logical_bytes =
                         sum_list (map (\<lambda>(_, d). loaded_size (load_inode B io d)) inode_data),
                       ds_inode_count = of_nat (length inode_data),
                       ds_wal = None, ds_last_root = Some root,
                       ds_by_version = [], ds_by_name = Map.empty\<rparr>))))))"

subsection \<open>Snapshots\<close>

definition set_snapshots :: "snapshot_entry list \<Rightarrow> 'io store \<Rightarrow> 'io store" where
  "set_snapshots snapshots s =
     s\<lparr>ds_by_version := bt_of_list (map (\<lambda>e. (se_version e, e)) snapshots),
       ds_by_name := map_of (rev (List.map_filter
         (\<lambda>e. map_option (\<lambda>n. (n, se_version e)) (se_name e)) snapshots))\<rparr>"

definition next_version :: "'io store \<Rightarrow> u64" where
  "next_version s = fold (\<lambda>(v, _) m. max v m) (ds_by_version s) 0 + 1"

text \<open>\<open>now\<close> is the clock in seconds; \<open>F\<close> and \<open>F'\<close> are the faults of the two log writes.\<close>

definition create_snapshot ::
  "('io, 'st) blockset \<Rightarrow> wal_fault \<Rightarrow> wal_fault \<Rightarrow> u64 \<Rightarrow> rstring option \<Rightarrow> 'io store \<Rightarrow>
   'io store \<times> (meta_error + snapshot_entry)" where
  "create_snapshot B F F' now name s =
     (case commit B F s of
        (s, Err e) \<Rightarrow> (s, Err e)
      | (s, Ok root) \<Rightarrow>
          (let version = next_version s;
               entry = \<lparr>se_version = version, se_name = name, se_root = root, se_created_at = now\<rparr>;
               s = log_wal_entry F' (WalSnapshot version root now name) s;
               s = s\<lparr>ds_by_version := bt_insert version entry (ds_by_version s)\<rparr>;
               s = (case name of None \<Rightarrow> s | Some n \<Rightarrow> s\<lparr>ds_by_name := hm_insert n version (ds_by_name s)\<rparr>)
           in (s, Ok entry)))"

definition list_snapshots :: "'io store \<Rightarrow> snapshot_entry list" where
  "list_snapshots s = sort_key se_version (map snd (ds_by_version s))"

definition find_snapshot :: "rstring \<Rightarrow> 'io store \<Rightarrow> snapshot_entry option" where
  "find_snapshot reference s =
     (case parse_u64 reference of
        Some version \<Rightarrow> bt_get (ds_by_version s) version
      | None \<Rightarrow>
          (case ds_by_name s reference of
             None \<Rightarrow> None
           | Some version \<Rightarrow> bt_get (ds_by_version s) version))"

definition snapshot_roots ::
  "((u64, snapshot_entry) btree \<Rightarrow> (u64 \<times> snapshot_entry) list) \<Rightarrow> 'io store \<Rightarrow> digest224 list" where
  "snapshot_roots iter s =
     map (se_root \<circ> snd) (iter (ds_by_version s)) @
     (case current_root s of None \<Rightarrow> [] | Some root \<Rightarrow> [root])"

end
