(* ===== verification/Filesystem.thy ===== *)
theory Filesystem
  imports Store
begin

section \<open>The file system layer\<close>

text \<open>
  \<^verbatim>\<open>SliceFsFilesystem\<close> of \<^verbatim>\<open>crates/slicefs-cli/src/filesystem.rs\<close>: open file handles with their two
  write modes, and the operations behind the FUSE callbacks. The state is the record \<open>fs\<close>; \<^verbatim>\<open>meta\<close>
  and \<^verbatim>\<open>io\<close> of the source share one storage, which is \<open>ds_io\<close> of \<open>fs_meta\<close>. An operation maps the
  state to the new state and a result; \<open>Panicked\<close> is a Rust panic. The clock is the argument \<open>now\<close>
  (seconds and nanoseconds), the host file system's answers to \<^verbatim>\<open>statvfs\<close> are arguments of
  \<^verbatim>\<open>compute_statfs\<close>, and \<open>iter\<close> is the iteration order of the \<^verbatim>\<open>HashMap\<close> of open files. Calls run one
  at a time; memory allocation succeeds. Constants of \<^verbatim>\<open>libc\<close> are those of Linux.
\<close>

unbundle bit_operations_syntax

definition S_IFMT :: u32 where
  "S_IFMT = 0xF000"

definition S_IFREG :: u32 where
  "S_IFREG = 0x8000"

definition S_IFLNK :: u32 where
  "S_IFLNK = 0xA000"

datatype 'st write_mode =
    Streaming 'st u64 \<comment> \<open>the hash state and \<^verbatim>\<open>next_expected_offset\<close>\<close>
  | Buffered bytes

record 'st open_file_state =
  of_ino :: u64
  of_write_mode :: "'st write_mode"
  of_byte_count :: u64
  of_cas_committed :: bool
  of_last_committed_root :: "digest224 option"

record ('io, 'st) fs =
  fs_meta :: "'io store"
  fs_open_files :: "(u64, 'st open_file_state) btree"
  fs_next_fh :: u64
  fs_store_path :: "rstring option"
  fs_auto_snapshot :: bool

definition fs_new :: "'io store \<Rightarrow> rstring option \<Rightarrow> ('io, 'st) fs" where
  "fs_new meta store_path =
     \<lparr>fs_meta = meta, fs_open_files = [], fs_next_fh = 0, fs_store_path = store_path, fs_auto_snapshot = False\<rparr>"

definition set_auto_snapshot :: "bool \<Rightarrow> ('io, 'st) fs \<Rightarrow> ('io, 'st) fs" where
  "set_auto_snapshot enabled s = s\<lparr>fs_auto_snapshot := enabled\<rparr>"

subsection \<open>Attributes and error codes\<close>

datatype errno =
  ENOENT | EEXIST | ENOTDIR | EISDIR | ENOTEMPTY | EINVAL | EIO | EBADF | ENOSYS | EPERM | ENODATA

datatype file_type = Directory | Symlink | RegularFile

definition mode_kind :: "u32 \<Rightarrow> file_type" where
  "mode_kind m =
     (if m AND S_IFMT = S_IFDIR then Directory else if m AND S_IFMT = S_IFLNK then Symlink else RegularFile)"

text \<open>Times are nanoseconds relative to the epoch.\<close>

record file_attr =
  at_ino :: u64
  at_size :: u64
  at_blocks :: u64
  at_atime :: int
  at_mtime :: int
  at_ctime :: int
  at_crtime :: int
  at_kind :: file_type
  at_perm :: "16 word"
  at_nlink :: u32
  at_uid :: u32
  at_gid :: u32
  at_rdev :: u32
  at_blksize :: u32
  at_flags :: u32

definition system_time :: "i64 \<Rightarrow> u32 \<Rightarrow> int" where
  "system_time sec nsec =
     (if 0 \<le> sint sec then int (unat sec) * 10 ^ 9 + int (unat nsec) else - (int (unat (- sec)) * 10 ^ 9))"

definition inode_to_file_attr :: "inode_meta \<Rightarrow> file_attr" where
  "inode_to_file_attr meta =
     \<lparr>at_ino = ino meta, at_size = size meta, at_blocks = (size meta + 511) div 512, at_atime = 0,
      at_mtime = system_time (mtime_sec meta) (mtime_nsec meta),
      at_ctime = system_time (ctime_sec meta) (ctime_nsec meta), at_crtime = 0,
      at_kind = mode_kind (mode meta), at_perm = ucast (mode meta AND 0xFFF), at_nlink = nlinks meta,
      at_uid = uid meta, at_gid = gid meta, at_rdev = 0, at_blksize = 4096, at_flags = 0\<rparr>"

primrec meta_error_to_errno :: "meta_error \<Rightarrow> errno" where
  "meta_error_to_errno (NotFound _) = ENOENT"
| "meta_error_to_errno (AlreadyExists _) = EEXIST"
| "meta_error_to_errno (NotADirectory _) = ENOTDIR"
| "meta_error_to_errno (IsADirectory _) = EISDIR"
| "meta_error_to_errno (NotEmpty _) = ENOTEMPTY"
| "meta_error_to_errno (InvalidName _) = EINVAL"
| "meta_error_to_errno (Corrupted _) = EIO"
| "meta_error_to_errno MetaIo = EIO"

subsection \<open>Sequencing\<close>

text \<open>
  The operator \<^verbatim>\<open>?\<close> of the source is \<open>and_then\<close>: go on with the value, or leave with the error and the
  state reached. \<open>on_meta\<close> runs an operation of the store with its error mapped to an error code.
\<close>

datatype fs_fault = Errno errno | Panicked

type_synonym ('s, 'a) fs_op = "'s \<Rightarrow> 's \<times> (fs_fault + 'a)"

definition and_then :: "('s, 'a) fs_op \<Rightarrow> ('a \<Rightarrow> ('s, 'b) fs_op) \<Rightarrow> ('s, 'b) fs_op" where
  "and_then m f s = (case m s of (s, Err e) \<Rightarrow> (s, Err e) | (s, Ok x) \<Rightarrow> f x s)"

definition ret :: "'a \<Rightarrow> ('s, 'a) fs_op" where
  "ret x s = (s, Ok x)"

definition fail :: "errno \<Rightarrow> ('s, 'a) fs_op" where
  "fail e s = (s, Err (Errno e))"

definition map_errno :: "(meta_error \<Rightarrow> errno) \<Rightarrow> meta_error + 'a \<Rightarrow> fs_fault + 'a" where
  "map_errno g r = (case r of Err e \<Rightarrow> Err (Errno (g e)) | Ok x \<Rightarrow> Ok x)"

definition on_meta ::
  "(meta_error \<Rightarrow> errno) \<Rightarrow> ('io store \<Rightarrow> 'io store \<times> (meta_error + 'a)) \<Rightarrow> (('io, 'st) fs, 'a) fs_op" where
  "on_meta g f s = (let (m, r) = f (fs_meta s) in (s\<lparr>fs_meta := m\<rparr>, map_errno g r))"

definition ask_meta ::
  "(meta_error \<Rightarrow> errno) \<Rightarrow> ('io store \<Rightarrow> meta_error + 'a) \<Rightarrow> (('io, 'st) fs, 'a) fs_op" where
  "ask_meta g f s = (s, map_errno g (f (fs_meta s)))"

definition modify_meta :: "('io store \<Rightarrow> 'io store) \<Rightarrow> (('io, 'st) fs, unit) fs_op" where
  "modify_meta f s = (s\<lparr>fs_meta := f (fs_meta s)\<rparr>, Ok ())"

abbreviation as_errno :: "meta_error \<Rightarrow> errno" where "as_errno \<equiv> meta_error_to_errno"
abbreviation as_eio :: "meta_error \<Rightarrow> errno" where "as_eio \<equiv> \<lambda>_. EIO"

abbreviation fs_io :: "('io, 'st) fs \<Rightarrow> 'io" where "fs_io s \<equiv> ds_io (fs_meta s)"

definition set_io :: "'io \<Rightarrow> ('io, 'st) fs \<Rightarrow> ('io, 'st) fs" where
  "set_io io s = s\<lparr>fs_meta := (fs_meta s)\<lparr>ds_io := io\<rparr>\<rparr>"

definition set_handle :: "u64 \<Rightarrow> 'st open_file_state \<Rightarrow> ('io, 'st) fs \<Rightarrow> ('io, 'st) fs" where
  "set_handle fh h s = s\<lparr>fs_open_files := bt_insert fh h (fs_open_files s)\<rparr>"

definition drop_handle :: "u64 \<Rightarrow> ('io, 'st) fs \<Rightarrow> ('io, 'st) fs" where
  "drop_handle fh s = s\<lparr>fs_open_files := bt_remove fh (fs_open_files s)\<rparr>"

type_synonym clock = "i64 \<times> u32"

definition touch_ctime :: "clock \<Rightarrow> inode_meta \<Rightarrow> inode_meta" where
  "touch_ctime now m = m\<lparr>ctime_sec := fst now, ctime_nsec := snd now\<rparr>"

definition touch_times :: "clock \<Rightarrow> inode_meta \<Rightarrow> inode_meta" where
  "touch_times now m = m\<lparr>mtime_sec := fst now, mtime_nsec := snd now, ctime_sec := fst now, ctime_nsec := snd now\<rparr>"

subsection \<open>Handles\<close>

definition new_handle :: "('io, 'st) blockset \<Rightarrow> u64 \<Rightarrow> 'st open_file_state" where
  "new_handle B i =
     \<lparr>of_ino = i, of_write_mode = Streaming (st_default B) 0, of_byte_count = 0,
      of_cas_committed = False, of_last_committed_root = None\<rparr>"

definition file_mode :: "u32 \<Rightarrow> u32 \<Rightarrow> u32 \<Rightarrow> u32" where
  "file_mode ty m umask = ty OR (m AND NOT umask AND 0xFFF)"

text \<open>\<^verbatim>\<open>create_inode\<close> then \<^verbatim>\<open>link\<close>; when the link is refused the inode is deleted again.\<close>

definition create_linked ::
  "('io, 'st) blockset \<Rightarrow> u64 \<Rightarrow> rstring \<Rightarrow> inode_meta \<Rightarrow> (('io, 'st) fs, u64) fs_op" where
  "create_linked B parent_ino name meta =
     and_then (on_meta as_errno (create_inode B meta)) (\<lambda>i s.
       case store_link B parent_ino name i (fs_meta s) of
         (m, Err e) \<Rightarrow> (s\<lparr>fs_meta := fst (delete_inode B i m)\<rparr>, Err (Errno (meta_error_to_errno e)))
       | (m, Ok _) \<Rightarrow> (s\<lparr>fs_meta := m\<rparr>, Ok i))"

definition open_handle :: "('io, 'st) blockset \<Rightarrow> u64 \<Rightarrow> (('io, 'st) fs, u64) fs_op" where
  "open_handle B i s =
     (let fh = fs_next_fh s + 1 in (set_handle fh (new_handle B i) (s\<lparr>fs_next_fh := fh\<rparr>), Ok fh))"

definition test_create ::
  "('io, 'st) blockset \<Rightarrow> u64 \<Rightarrow> rstring \<Rightarrow> u32 \<Rightarrow> u32 \<Rightarrow> u32 \<Rightarrow> u32 \<Rightarrow> (('io, 'st) fs, u64 \<times> u64) fs_op" where
  "test_create B parent_ino name m umask u g =
     and_then (create_linked B parent_ino name (new_file 0 u g (file_mode S_IFREG m umask)))
       (\<lambda>i. and_then (open_handle B i) (\<lambda>fh. ret (i, fh)))"

text \<open>\<^verbatim>\<open>Vec::resize\<close> with zeros, and the write of a slice at an offset; the 64-bit end offset may wrap, and then slicing panics.\<close>

definition resize :: "nat \<Rightarrow> bytes \<Rightarrow> bytes" where
  "resize n buf = take n buf @ replicate (n - length buf) 0"

definition pwrite :: "bytes \<Rightarrow> nat \<Rightarrow> bytes \<Rightarrow> bytes" where
  "pwrite buf off data =
     (let end = off + length data;
          buf = (if end > length buf then resize end buf else buf)
      in take off buf @ data @ drop end buf)"

definition end_wraps :: "u64 \<Rightarrow> bytes \<Rightarrow> bool" where
  "end_wraps offset data \<longleftrightarrow> unat offset + length data \<ge> 18446744073709551616"

definition unwrap_or_default :: "bytes option \<Rightarrow> bytes" where
  "unwrap_or_default r = (case r of Some xs \<Rightarrow> xs | None \<Rightarrow> [])"

text \<open>The contents of a streaming handle: close a copy of the hash state and read the result back.\<close>

definition materialize :: "('io, 'st) blockset \<Rightarrow> 'io \<Rightarrow> 'st \<Rightarrow> 'io \<times> bytes option" where
  "materialize B io state = (let (io, digest) = st_end B io state in (io, storage_get B io digest))"

definition push_fresh :: "('io, 'st) blockset \<Rightarrow> 'io \<Rightarrow> bytes \<Rightarrow> 'io \<times> 'st" where
  "push_fresh B io buf = (let (_, io, state) = st_push B io (st_default B) buf in (io, state))"

definition finalize :: "('io, 'st) blockset \<Rightarrow> 'io \<Rightarrow> 'st write_mode \<Rightarrow> 'io \<times> digest224" where
  "finalize B io w =
     (case w of
        Streaming state _ \<Rightarrow> st_end B io state
      | Buffered buf \<Rightarrow> (let (io, fresh) = push_fresh B io buf in st_end B io fresh))"

definition committed_content :: "('io, 'st) blockset \<Rightarrow> u64 \<Rightarrow> 'io store \<Rightarrow> bytes" where
  "committed_content B i m =
     (case get_manifest B i m of
        Ok (d # _) \<Rightarrow> unwrap_or_default (storage_get B (ds_io m) d)
      | _ \<Rightarrow> [])"

definition decrement_opt :: "digest224 option \<Rightarrow> 'io store \<Rightarrow> 'io store" where
  "decrement_opt old m = (case old of None \<Rightarrow> m | Some d \<Rightarrow> decrement_refcount d m)"

subsection \<open>Writing\<close>

text \<open>
  The first write that is not at the expected offset turns a streaming handle into a buffered one:
  the contents so far are materialised (or, when nothing was written through the handle, the
  committed contents are loaded), and the write is applied to that buffer.
\<close>

definition write_fallback ::
  "('io, 'st) blockset \<Rightarrow> u64 \<Rightarrow> 'st open_file_state \<Rightarrow> 'st \<Rightarrow> u64 \<Rightarrow> bytes \<Rightarrow> (('io, 'st) fs, u32) fs_op" where
  "write_fallback B fh h state offset data s =
     (let (s, buf) =
            (if of_byte_count h > 0
             then let (io, r) = materialize B (fs_io s) state in (set_io io s, unwrap_or_default r)
             else (s, committed_content B (of_ino h) (fs_meta s)))
      in if end_wraps offset data then (drop_handle fh s, Err Panicked)
         else let buf = pwrite buf (unat offset) data;
                  h' = h\<lparr>of_write_mode := Buffered buf, of_byte_count := of_nat (length buf),
                         of_cas_committed := False, of_last_committed_root := None\<rparr>
              in (set_handle fh h' (s\<lparr>fs_meta := decrement_opt (of_last_committed_root h) (fs_meta s)\<rparr>),
                  Ok (of_nat (length data))))"

definition test_write ::
  "('io, 'st) blockset \<Rightarrow> u64 \<Rightarrow> u64 \<Rightarrow> bytes \<Rightarrow> (('io, 'st) fs, u32) fs_op" where
  "test_write B fh offset data s =
     (case bt_get (fs_open_files s) fh of
        None \<Rightarrow> (s, Err (Errno EBADF))
      | Some h \<Rightarrow>
          (case of_write_mode h of
             Streaming state next_expected_offset \<Rightarrow>
               if offset \<noteq> next_expected_offset then write_fallback B fh h state offset data s
               else let (io_err, io, state) = st_push B (fs_io s) state data; s = set_io io s in
                 if io_err
                 then (set_handle fh (h\<lparr>of_write_mode := Streaming state next_expected_offset\<rparr>) s, Err (Errno EIO))
                 else (set_handle fh (h\<lparr>of_write_mode := Streaming state (next_expected_offset + of_nat (length data)),
                         of_byte_count := of_byte_count h + of_nat (length data), of_cas_committed := False\<rparr>) s,
                       Ok (of_nat (length data)))
           | Buffered buf \<Rightarrow>
               if end_wraps offset data then (drop_handle fh s, Err Panicked)
               else let buf = pwrite buf (unat offset) data in
                 (set_handle fh (h\<lparr>of_write_mode := Buffered buf, of_byte_count := of_nat (length buf),
                     of_cas_committed := False\<rparr>) s, Ok (of_nat (length data)))))"

text \<open>Size and times of the inode after its contents changed.\<close>

definition store_size :: "('io, 'st) blockset \<Rightarrow> (inode_meta \<Rightarrow> inode_meta) \<Rightarrow> u64 \<Rightarrow> u64 \<Rightarrow> (('io, 'st) fs, unit) fs_op" where
  "store_size B touch i sz =
     and_then (ask_meta as_eio (get_inode B i)) (\<lambda>inode.
       on_meta as_eio (update_inode B (touch (inode\<lparr>size := sz\<rparr>))))"

text \<open>
  The common part of release and fsync: the old root loses a reference when the digest changed, the
  manifest is set, and the new root gains a reference unless it was already counted.
\<close>

definition commit_digest ::
  "('io, 'st) blockset \<Rightarrow> u64 \<Rightarrow> digest224 option \<Rightarrow> digest224 \<Rightarrow> (('io, 'st) fs, unit) fs_op" where
  "commit_digest B i old new_digest =
     and_then (modify_meta (if old = Some new_digest then id else decrement_opt old)) (\<lambda>_.
     and_then (on_meta as_eio (set_manifest B i [new_digest])) (\<lambda>_.
       modify_meta (if old = Some new_digest then id else increment_refcount new_digest)))"

definition has_existing :: "('io, 'st) blockset \<Rightarrow> u64 \<Rightarrow> 'io store \<Rightarrow> bool" where
  "has_existing B i m = (case get_manifest B i m of Ok (_ # _) \<Rightarrow> True | _ \<Rightarrow> False)"

definition test_release ::
  "('io, 'st) blockset \<Rightarrow> clock \<Rightarrow> u64 \<Rightarrow> u64 \<Rightarrow> (('io, 'st) fs, unit) fs_op" where
  "test_release B now i fh s =
     (case bt_get (fs_open_files s) fh of
        None \<Rightarrow> (s, Ok ())
      | Some h \<Rightarrow>
          (let s = drop_handle fh s in
           if of_byte_count h = 0 then
             (if \<not> of_cas_committed h \<and> \<not> has_existing B i (fs_meta s)
              then on_meta as_eio (set_manifest B i []) s else (s, Ok ()))
           else let (io, new_digest) = finalize B (fs_io s) (of_write_mode h); s = set_io io s in
             if of_last_committed_root h = Some new_digest \<and> of_cas_committed h then (s, Ok ())
             else and_then (commit_digest B i (of_last_committed_root h) new_digest)
               (\<lambda>_. store_size B (touch_times now) i (of_byte_count h)) s))"

definition flush_buffer_for_fsync ::
  "('io, 'st) blockset \<Rightarrow> clock \<Rightarrow> u64 \<Rightarrow> u64 \<Rightarrow> (('io, 'st) fs, unit) fs_op" where
  "flush_buffer_for_fsync B now i fh s =
     (case bt_get (fs_open_files s) fh of
        None \<Rightarrow> (s, Ok ())
      | Some h \<Rightarrow>
          if of_byte_count h = 0 then (s, Ok ())
          else let h = h\<lparr>of_cas_committed := True\<rparr>; s = set_handle fh h s;
                   (io, new_digest) = finalize B (fs_io s) (of_write_mode h); s = set_io io s
            in and_then (commit_digest B i (of_last_committed_root h) new_digest) (\<lambda>_.
               and_then (\<lambda>s. (set_handle fh (h\<lparr>of_last_committed_root := Some new_digest\<rparr>) s, Ok ())) (\<lambda>_.
                 store_size B (touch_times now) i (of_byte_count h))) s)"

definition test_fsync ::
  "('io, 'st) blockset \<Rightarrow> wal_fault \<Rightarrow> clock \<Rightarrow> u64 \<Rightarrow> u64 \<Rightarrow> (('io, 'st) fs, unit) fs_op" where
  "test_fsync B F now i fh =
     and_then (flush_buffer_for_fsync B now i fh) (\<lambda>_ s.
       case flush_wal F (fs_meta s) of
         (m, Err _) \<Rightarrow> (s\<lparr>fs_meta := m\<rparr>, Err (Errno EIO))
       | (m, Ok _) \<Rightarrow> (s\<lparr>fs_meta := m\<rparr>, Ok ()))"

definition test_flush :: "('io, 'st) blockset \<Rightarrow> clock \<Rightarrow> u64 \<Rightarrow> u64 \<Rightarrow> (('io, 'st) fs, unit) fs_op" where
  "test_flush = flush_buffer_for_fsync"

definition test_release_full ::
  "('io, 'st) blockset \<Rightarrow> clock \<Rightarrow> u64 \<Rightarrow> u64 \<Rightarrow> (('io, 'st) fs, unit) fs_op" where
  "test_release_full B now i fh s =
     (if bt_get (fs_open_files s) fh = None then (s, Ok ()) else test_release B now i fh s)"

subsection \<open>Reading\<close>

definition sub_range :: "bytes \<Rightarrow> u64 \<Rightarrow> u32 \<Rightarrow> bytes" where
  "sub_range raw offset sz =
     (let start = min (unat offset) (length raw); end = min (start + unat sz) (length raw)
      in slice raw start end)"

definition test_read ::
  "('io, 'st) blockset \<Rightarrow> ((u64, 'st open_file_state) btree \<Rightarrow> (u64 \<times> 'st open_file_state) list) \<Rightarrow>
   u64 \<Rightarrow> u64 \<Rightarrow> u32 \<Rightarrow> (('io, 'st) fs, bytes) fs_op" where
  "test_read B iter i offset sz s =
     (case find (\<lambda>(_, h). of_ino h = i \<and> of_byte_count h > 0) (iter (fs_open_files s)) of
        Some (_, h) \<Rightarrow>
          (case of_write_mode h of
             Buffered buf \<Rightarrow> (s, Ok (sub_range buf offset sz))
           | Streaming state _ \<Rightarrow>
               (case materialize B (fs_io s) state of
                  (io, None) \<Rightarrow> (set_io io s, Err (Errno EIO))
                | (io, Some raw) \<Rightarrow> (set_io io s, Ok (sub_range raw offset sz))))
      | None \<Rightarrow>
          and_then (ask_meta as_eio (get_manifest B i)) (\<lambda>manifest s.
            case manifest of
              [] \<Rightarrow> (s, Ok [])
            | d # _ \<Rightarrow>
                (case storage_get B (fs_io s) d of
                   None \<Rightarrow> (s, Err (Errno EIO))
                 | Some raw \<Rightarrow> (s, Ok (sub_range raw offset sz)))) s)"

subsection \<open>Truncation\<close>

definition truncate_handle ::
  "('io, 'st) blockset \<Rightarrow> u64 \<Rightarrow> 'st open_file_state \<Rightarrow> u64 \<Rightarrow> ('io, 'st) fs \<Rightarrow> ('io, 'st) fs" where
  "truncate_handle B fh h new_size s =
     (let forget = (\<lambda>s. s\<lparr>fs_meta := decrement_opt (of_last_committed_root h) (fs_meta s)\<rparr>) in
      case of_write_mode h of
        Buffered buf \<Rightarrow>
          if new_size = 0
          then forget (set_handle fh (h\<lparr>of_write_mode := Buffered [], of_byte_count := 0,
                 of_cas_committed := False, of_last_committed_root := None\<rparr>) s)
          else let buf = resize (unat new_size) buf in
            set_handle fh (h\<lparr>of_write_mode := Buffered buf, of_byte_count := of_nat (length buf),
              of_cas_committed := False\<rparr>) s
      | Streaming state _ \<Rightarrow>
          if new_size = 0
          then forget (set_handle fh (h\<lparr>of_write_mode := Streaming (st_default B) 0, of_byte_count := 0,
                 of_cas_committed := False, of_last_committed_root := None\<rparr>) s)
          else let (io, content) =
                     (if of_byte_count h = 0 then (fs_io s, [])
                      else let (io, r) = materialize B (fs_io s) state in (io, unwrap_or_default r));
                   content = resize (unat new_size) content;
                   (io, fresh) = push_fresh B io content;
                   n = of_nat (length content)
               in forget (set_handle fh (h\<lparr>of_write_mode := Streaming fresh n, of_byte_count := n,
                    of_cas_committed := False, of_last_committed_root := None\<rparr>) (set_io io s)))"

definition truncate_committed ::
  "('io, 'st) blockset \<Rightarrow> u64 \<Rightarrow> u64 \<Rightarrow> (('io, 'st) fs, unit) fs_op" where
  "truncate_committed B i new_size s =
     (case (case get_manifest B i (fs_meta s) of
              Ok m \<Rightarrow> Ok m
            | Err (NotFound _) \<Rightarrow> Ok []
            | Err _ \<Rightarrow> Err (Errno EIO)) of
        Err e \<Rightarrow> (s, Err e)
      | Ok old_manifest \<Rightarrow>
          (case (case old_manifest of [] \<Rightarrow> Some [] | d # _ \<Rightarrow> storage_get B (fs_io s) d) of
             None \<Rightarrow> (s, Err (Errno EIO))
           | Some content \<Rightarrow>
               and_then (modify_meta (case old_manifest of [] \<Rightarrow> id | d # _ \<Rightarrow> decrement_refcount d)) (\<lambda>_ s.
                 let content = resize (unat new_size) content in
                 if content = [] then on_meta as_eio (set_manifest B i []) s
                 else let (io, new_digest) = push_all B (fs_io s) content in
                   and_then (on_meta as_eio (set_manifest B i [new_digest]))
                     (\<lambda>_. modify_meta (increment_refcount new_digest)) (set_io io s)) s))"

definition test_setattr_size ::
  "('io, 'st) blockset \<Rightarrow> clock \<Rightarrow> u64 \<Rightarrow> u64 option \<Rightarrow> u64 \<Rightarrow> (('io, 'st) fs, unit) fs_op" where
  "test_setattr_size B now i fh new_size s =
     (case Option.bind fh (\<lambda>f. map_option (Pair f) (bt_get (fs_open_files s) f)) of
        Some (f, h) \<Rightarrow> store_size B (touch_ctime now) i new_size (truncate_handle B f h new_size s)
      | None \<Rightarrow>
          and_then (truncate_committed B i new_size) (\<lambda>_. store_size B (touch_ctime now) i new_size) s)"

subsection \<open>Other attributes\<close>

definition change_inode ::
  "('io, 'st) blockset \<Rightarrow> clock \<Rightarrow> u64 \<Rightarrow> (inode_meta \<Rightarrow> inode_meta) \<Rightarrow> (('io, 'st) fs, unit) fs_op" where
  "change_inode B now i f =
     and_then (ask_meta as_eio (get_inode B i)) (\<lambda>inode.
       on_meta as_eio (update_inode B (touch_ctime now (f inode))))"

definition set_perm :: "u32 \<Rightarrow> inode_meta \<Rightarrow> inode_meta" where
  "set_perm m inode = inode\<lparr>mode := (mode inode AND S_IFMT) OR (m AND 0xFFF)\<rparr>"

definition set_owner :: "u32 option \<Rightarrow> u32 option \<Rightarrow> inode_meta \<Rightarrow> inode_meta" where
  "set_owner u g inode =
     (let inode = (case u of None \<Rightarrow> inode | Some x \<Rightarrow> inode\<lparr>uid := x\<rparr>)
      in case g of None \<Rightarrow> inode | Some x \<Rightarrow> inode\<lparr>gid := x\<rparr>)"

definition test_setattr_mode :: "('io, 'st) blockset \<Rightarrow> clock \<Rightarrow> u64 \<Rightarrow> u32 \<Rightarrow> (('io, 'st) fs, unit) fs_op" where
  "test_setattr_mode B now i m = change_inode B now i (set_perm m)"

definition test_setattr_uid_gid ::
  "('io, 'st) blockset \<Rightarrow> clock \<Rightarrow> u64 \<Rightarrow> u32 option \<Rightarrow> u32 option \<Rightarrow> (('io, 'st) fs, unit) fs_op" where
  "test_setattr_uid_gid B now i u g = change_inode B now i (set_owner u g)"

definition test_setattr_mtime ::
  "('io, 'st) blockset \<Rightarrow> clock \<Rightarrow> u64 \<Rightarrow> i64 \<Rightarrow> u32 \<Rightarrow> (('io, 'st) fs, unit) fs_op" where
  "test_setattr_mtime B now i sec nsec = change_inode B now i (\<lambda>m. m\<lparr>mtime_sec := sec, mtime_nsec := nsec\<rparr>)"

text \<open>When the size changes, the inode is read again and the other changes are dropped.\<close>

definition test_setattr ::
  "('io, 'st) blockset \<Rightarrow> clock \<Rightarrow> u64 \<Rightarrow> u32 option \<Rightarrow> u32 option \<Rightarrow> u32 option \<Rightarrow> u64 option \<Rightarrow>
   u64 option \<Rightarrow> (i64 \<times> u32) option \<Rightarrow> (('io, 'st) fs, inode_meta) fs_op" where
  "test_setattr B now i m u g sz fh mt =
     and_then (ask_meta as_errno (get_inode B i)) (\<lambda>inode.
       let inode = (case m of None \<Rightarrow> inode | Some x \<Rightarrow> set_perm x inode);
           inode = set_owner u g inode;
           inode = (case mt of None \<Rightarrow> inode | Some (sec, nsec) \<Rightarrow> inode\<lparr>mtime_sec := sec, mtime_nsec := nsec\<rparr>)
       in and_then
            (case sz of
               None \<Rightarrow> ret inode
             | Some new_size \<Rightarrow>
                 and_then (test_setattr_size B now i fh new_size) (\<lambda>_. ask_meta as_errno (get_inode B i)))
            (\<lambda>inode. and_then (on_meta as_errno (update_inode B (touch_ctime now inode)))
               (\<lambda>_. ret (touch_ctime now inode))))"

subsection \<open>The name space\<close>

definition test_mknod ::
  "('io, 'st) blockset \<Rightarrow> u64 \<Rightarrow> rstring \<Rightarrow> u32 \<Rightarrow> u32 \<Rightarrow> u32 \<Rightarrow> u32 \<Rightarrow> (('io, 'st) fs, u64) fs_op" where
  "test_mknod B parent name m u g umask =
     (let ty = m AND S_IFMT in
      if ty \<noteq> S_IFREG \<and> ty \<noteq> 0 then fail ENOSYS
      else create_linked B parent name (new_file 0 u g (file_mode S_IFREG m umask)))"

definition simulate_mkdir ::
  "('io, 'st) blockset \<Rightarrow> u64 \<Rightarrow> rstring \<Rightarrow> u32 \<Rightarrow> u32 \<Rightarrow> u32 \<Rightarrow> u32 \<Rightarrow> (('io, 'st) fs, u64) fs_op" where
  "simulate_mkdir B parent_ino name m umask u g =
     on_meta as_errno (create_directory B parent_ino name (new_directory 0 u g (file_mode S_IFDIR m umask)))"

definition real_entries :: "dir_entry list \<Rightarrow> dir_entry list" where
  "real_entries entries = filter (\<lambda>e. de_name e \<noteq> str ''.'' \<and> de_name e \<noteq> str ''..'') entries"

definition simulate_rmdir :: "('io, 'st) blockset \<Rightarrow> u64 \<Rightarrow> rstring \<Rightarrow> (('io, 'st) fs, unit) fs_op" where
  "simulate_rmdir B parent_ino name =
     and_then (on_meta as_errno (store_lookup B parent_ino name)) (\<lambda>i.
     and_then (ask_meta as_errno (get_inode B i)) (\<lambda>inode.
       if \<not> is_dir_mode (mode inode) then fail ENOTDIR
       else and_then (ask_meta as_errno (list_directory B i)) (\<lambda>entries.
         if real_entries entries \<noteq> [] then fail ENOTEMPTY
         else and_then (on_meta as_errno (store_unlink B parent_ino name)) (\<lambda>_.
              and_then (on_meta as_errno (delete_inode B i)) (\<lambda>_.
              and_then (ask_meta as_errno (get_inode B parent_ino)) (\<lambda>parent_inode.
                if nlinks parent_inode > 0
                then on_meta as_errno (update_inode B (parent_inode\<lparr>nlinks := nlinks parent_inode - 1\<rparr>))
                else ret ()))))))"

text \<open>Errors of these two are ignored by the callers.\<close>

definition drop_manifest_refs :: "('io, 'st) blockset \<Rightarrow> u64 \<Rightarrow> 'io store \<Rightarrow> 'io store" where
  "drop_manifest_refs B i m =
     (case get_manifest B i m of Err _ \<Rightarrow> m | Ok manifest \<Rightarrow> fold decrement_refcount manifest m)"

definition forget_inode :: "('io, 'st) blockset \<Rightarrow> u64 \<Rightarrow> 'io store \<Rightarrow> 'io store" where
  "forget_inode B i m = fst (delete_inode B i (drop_manifest_refs B i m))"

definition simulate_unlink :: "('io, 'st) blockset \<Rightarrow> u64 \<Rightarrow> rstring \<Rightarrow> (('io, 'st) fs, unit) fs_op" where
  "simulate_unlink B parent_ino name =
     and_then (on_meta as_errno (store_lookup B parent_ino name)) (\<lambda>i.
     and_then (ask_meta as_errno (get_inode B i)) (\<lambda>inode.
       if is_dir_mode (mode inode) then fail EISDIR
       else and_then (on_meta as_errno (store_unlink B parent_ino name)) (\<lambda>_.
         let inode = (if nlinks inode > 0 then inode\<lparr>nlinks := nlinks inode - 1\<rparr> else inode) in
         if nlinks inode = 0 then modify_meta (forget_inode B i)
         else on_meta as_errno (update_inode B inode))))"

definition simulate_link ::
  "('io, 'st) blockset \<Rightarrow> clock \<Rightarrow> u64 \<Rightarrow> u64 \<Rightarrow> rstring \<Rightarrow> (('io, 'st) fs, u64) fs_op" where
  "simulate_link B now i newparent_ino newname =
     and_then (ask_meta as_errno (get_inode B i)) (\<lambda>inode.
       if is_dir_mode (mode inode) then fail EPERM
       else and_then (on_meta as_errno (store_link B newparent_ino newname i)) (\<lambda>_.
            and_then (on_meta as_errno (update_inode B (touch_ctime now (inode\<lparr>nlinks := nlinks inode + 1\<rparr>)))) (\<lambda>_.
              ret i)))"

text \<open>What a rename does with an inode it displaces.\<close>

definition displace :: "('io, 'st) blockset \<Rightarrow> u64 \<Rightarrow> inode_meta \<Rightarrow> 'io store \<Rightarrow> 'io store" where
  "displace B dst_ino dst_inode m =
     (let new_nlinks = (if nlinks dst_inode < 1 then 0 else nlinks dst_inode - 1) in
      if new_nlinks = 0 \<and> \<not> is_dir_mode (mode dst_inode) then forget_inode B dst_ino m
      else if new_nlinks > 0 then fst (update_inode B (dst_inode\<lparr>nlinks := new_nlinks\<rparr>) m)
      else m)"

definition simulate_rename ::
  "('io, 'st) blockset \<Rightarrow> clock \<Rightarrow> u64 \<Rightarrow> rstring \<Rightarrow> u64 \<Rightarrow> rstring \<Rightarrow> u32 \<Rightarrow> (('io, 'st) fs, unit) fs_op" where
  "simulate_rename B now parent_ino name newparent_ino newname flags =
     (if flags AND 2 \<noteq> 0 then fail ENOSYS
      else and_then (on_meta (\<lambda>_. ENOENT) (store_lookup B parent_ino name)) (\<lambda>src_ino s.
        let (m, target) = store_lookup B newparent_ino newname (fs_meta s); s = s\<lparr>fs_meta := m\<rparr> in
        if flags AND 1 \<noteq> 0 \<and> \<not> isl target then (s, Err (Errno EEXIST))
        else and_then
          (case target of
             Err _ \<Rightarrow> ret ()
           | Ok dst_ino \<Rightarrow>
               and_then (ask_meta as_errno (get_inode B dst_ino)) (\<lambda>dst_inode.
               and_then (on_meta as_errno (store_unlink B newparent_ino newname)) (\<lambda>_.
                 modify_meta (displace B dst_ino dst_inode))))
          (\<lambda>_. and_then (on_meta as_errno (store_link B newparent_ino newname src_ino)) (\<lambda>_.
               and_then (on_meta as_errno (store_unlink B parent_ino name)) (\<lambda>_.
               and_then (ask_meta as_errno (get_inode B src_ino)) (\<lambda>src_inode.
                 on_meta as_errno (update_inode B (touch_ctime now src_inode)))))) s))"

definition simulate_symlink ::
  "('io, 'st) blockset \<Rightarrow> u64 \<Rightarrow> rstring \<Rightarrow> rstring \<Rightarrow> u32 \<Rightarrow> u32 \<Rightarrow> (('io, 'st) fs, u64) fs_op" where
  "simulate_symlink B parent_ino link_name target u g =
     (let sz = of_nat (length target);
          symlink_meta = \<lparr>ino = 0, mode = S_IFLNK OR 0x1FF, uid = u, gid = g, nlinks = 1, size = sz,
            mtime_sec = 0, mtime_nsec = 0, ctime_sec = 0, ctime_nsec = 0\<rparr>
      in and_then (create_linked B parent_ino link_name symlink_meta) (\<lambda>i s.
         let (io, content_digest) = push_all B (fs_io s) target in
         and_then (on_meta as_eio (set_manifest B i [content_digest])) (\<lambda>_.
         and_then (modify_meta (increment_refcount content_digest)) (\<lambda>_.
         and_then (store_size B id i sz) (\<lambda>_. ret i))) (set_io io s)))"

definition simulate_readlink :: "('io, 'st) blockset \<Rightarrow> u64 \<Rightarrow> (('io, 'st) fs, rstring) fs_op" where
  "simulate_readlink B i =
     and_then (ask_meta (\<lambda>_. EINVAL) (get_manifest B i)) (\<lambda>manifest s.
       case manifest of
         [] \<Rightarrow> (s, Ok [])
       | root_digest # _ \<Rightarrow>
           (s, case Option.bind (storage_get B (fs_io s) root_digest) from_utf8 of
                 None \<Rightarrow> Err (Errno EINVAL) | Some target \<Rightarrow> Ok target))"

definition test_getattr :: "('io, 'st) blockset \<Rightarrow> u64 \<Rightarrow> ('io, 'st) fs \<Rightarrow> meta_error + inode_meta" where
  "test_getattr B i s = get_inode B i (fs_meta s)"

definition test_lookup :: "('io, 'st) blockset \<Rightarrow> u64 \<Rightarrow> rstring \<Rightarrow> (('io, 'st) fs, u64 \<times> inode_meta) fs_op" where
  "test_lookup B parent name =
     and_then (on_meta as_errno (store_lookup B parent name)) (\<lambda>child_ino.
     and_then (ask_meta as_errno (get_inode B child_ino)) (\<lambda>meta. ret (child_ino, meta)))"

definition entry_kind :: "('io, 'st) blockset \<Rightarrow> u64 \<Rightarrow> 'io store \<Rightarrow> file_type" where
  "entry_kind B i m = (case get_inode B i m of Ok meta \<Rightarrow> mode_kind (mode meta) | Err _ \<Rightarrow> RegularFile)"

definition test_readdir ::
  "('io, 'st) blockset \<Rightarrow> u64 \<Rightarrow> u64 \<Rightarrow> (('io, 'st) fs, (u64 \<times> file_type \<times> rstring) list) fs_op" where
  "test_readdir B i offset =
     and_then (ask_meta as_errno (list_directory B i)) (\<lambda>entries s.
       (s, Ok (map (\<lambda>e. (de_ino e, entry_kind B (de_ino e) (fs_meta s), de_name e)) (drop (unat offset) entries))))"

definition O_ACCMODE :: u32 where "O_ACCMODE = 3"
definition O_WRONLY :: u32 where "O_WRONLY = 1"
definition O_RDWR :: u32 where "O_RDWR = 2"
definition O_TRUNC :: u32 where "O_TRUNC = 0x200"

text \<open>Opening for writing with \<^verbatim>\<open>O_TRUNC\<close> truncates through the new handle; on an error the handle is closed.\<close>

definition truncate_or_close ::
  "('io, 'st) blockset \<Rightarrow> clock \<Rightarrow> u64 \<Rightarrow> u64 \<Rightarrow> u32 \<Rightarrow> (('io, 'st) fs, unit) fs_op" where
  "truncate_or_close B now i fh flags s =
     (if flags AND O_TRUNC \<noteq> 0 then
        (case test_setattr_size B now i (Some fh) 0 s of
           (s, Err e) \<Rightarrow> (drop_handle fh s, Err e)
         | (s, Ok _) \<Rightarrow> (s, Ok ()))
      else (s, Ok ()))"

definition test_open ::
  "('io, 'st) blockset \<Rightarrow> clock \<Rightarrow> u64 \<Rightarrow> u32 \<Rightarrow> (('io, 'st) fs, u64 \<times> bool) fs_op" where
  "test_open B now i flags s =
     (let acc_mode = flags AND O_ACCMODE;
          is_write = (acc_mode = O_WRONLY \<or> acc_mode = O_RDWR)
      in if is_write
         then and_then (open_handle B i) (\<lambda>fh.
              and_then (truncate_or_close B now i fh flags) (\<lambda>_. ret (fh, True))) s
         else (s\<lparr>fs_next_fh := fs_next_fh s + 1\<rparr>, Ok (fs_next_fh s + 1, False)))"

definition test_getxattr :: "('io, 'st) blockset \<Rightarrow> u64 \<Rightarrow> rstring \<Rightarrow> (('io, 'st) fs, bytes) fs_op" where
  "test_getxattr B i name = ask_meta (\<lambda>_. ENODATA) (get_xattr B i name)"

definition test_listxattr :: "('io, 'st) blockset \<Rightarrow> u64 \<Rightarrow> (('io, 'st) fs, bytes) fs_op" where
  "test_listxattr B i =
     and_then (ask_meta as_errno (list_xattrs B i)) (\<lambda>names. ret (concat (map (\<lambda>name. name @ [0]) names)))"

definition test_setxattr :: "('io, 'st) blockset \<Rightarrow> u64 \<Rightarrow> rstring \<Rightarrow> bytes \<Rightarrow> (('io, 'st) fs, unit) fs_op" where
  "test_setxattr B i name val = on_meta as_errno (set_xattr B i name val)"

definition test_removexattr :: "('io, 'st) blockset \<Rightarrow> u64 \<Rightarrow> rstring \<Rightarrow> (('io, 'st) fs, unit) fs_op" where
  "test_removexattr B i name = on_meta as_errno (remove_xattr B i name)"

subsection \<open>Operations together with the resulting attributes\<close>

definition with_inode :: "('io, 'st) blockset \<Rightarrow> u64 \<Rightarrow> (('io, 'st) fs, u64 \<times> inode_meta) fs_op" where
  "with_inode B i = and_then (ask_meta as_errno (get_inode B i)) (\<lambda>meta. ret (i, meta))"

definition test_create_full ::
  "('io, 'st) blockset \<Rightarrow> clock \<Rightarrow> u64 \<Rightarrow> rstring \<Rightarrow> u32 \<Rightarrow> u32 \<Rightarrow> u32 \<Rightarrow> u32 \<Rightarrow> u32 \<Rightarrow>
   (('io, 'st) fs, u64 \<times> u64 \<times> inode_meta) fs_op" where
  "test_create_full B now parent name m umask u g flags =
     and_then (test_create B parent name m umask u g) (\<lambda>(i, fh).
     and_then (truncate_or_close B now i fh flags) (\<lambda>_.
     and_then (ask_meta as_errno (get_inode B i)) (\<lambda>meta. ret (i, fh, meta))))"

definition test_mkdir_full ::
  "('io, 'st) blockset \<Rightarrow> u64 \<Rightarrow> rstring \<Rightarrow> u32 \<Rightarrow> u32 \<Rightarrow> u32 \<Rightarrow> u32 \<Rightarrow> (('io, 'st) fs, u64 \<times> inode_meta) fs_op" where
  "test_mkdir_full B parent name m umask u g =
     and_then (simulate_mkdir B parent name m umask u g) (with_inode B)"

definition test_mknod_full ::
  "('io, 'st) blockset \<Rightarrow> u64 \<Rightarrow> rstring \<Rightarrow> u32 \<Rightarrow> u32 \<Rightarrow> u32 \<Rightarrow> u32 \<Rightarrow> (('io, 'st) fs, u64 \<times> inode_meta) fs_op" where
  "test_mknod_full B parent name m u g umask =
     and_then (test_mknod B parent name m u g umask) (with_inode B)"

definition test_symlink_full ::
  "('io, 'st) blockset \<Rightarrow> u64 \<Rightarrow> rstring \<Rightarrow> rstring \<Rightarrow> u32 \<Rightarrow> u32 \<Rightarrow> (('io, 'st) fs, u64 \<times> inode_meta) fs_op" where
  "test_symlink_full B parent link_name target u g =
     and_then (simulate_symlink B parent link_name target u g) (with_inode B)"

definition test_link_full ::
  "('io, 'st) blockset \<Rightarrow> clock \<Rightarrow> u64 \<Rightarrow> u64 \<Rightarrow> rstring \<Rightarrow> (('io, 'st) fs, u64 \<times> inode_meta) fs_op" where
  "test_link_full B now i newparent newname =
     and_then (simulate_link B now i newparent newname) (with_inode B)"

text \<open>
  Unmount: commit, then a snapshot when configured, then the log is closed. The faults of the log
  writes are arguments; errors after the commit are ignored.
\<close>

definition test_destroy ::
  "('io, 'st) blockset \<Rightarrow> wal_fault \<Rightarrow> wal_fault \<Rightarrow> wal_fault \<Rightarrow> wal_fault \<Rightarrow> u64 \<Rightarrow>
   ('io, 'st) fs \<Rightarrow> ('io, 'st) fs \<times> bool" where
  "test_destroy B F1 F2 F3 F4 now s =
     (case commit B F1 (fs_meta s) of
        (m, Err _) \<Rightarrow> (s\<lparr>fs_meta := m\<rparr>, False)
      | (m, Ok _) \<Rightarrow>
          (let m = (if fs_auto_snapshot s then fst (create_snapshot B F2 F3 now (Some (str ''auto-unmount'')) m) else m)
           in (s\<lparr>fs_meta := fst (shutdown_wal F4 m)\<rparr>, True)))"

subsection \<open>Space reporting\<close>

text \<open>Answers of the host: fragment or block size, blocks, free blocks, available blocks; no value when the call fails.\<close>

type_synonym host_stat = "u64 \<times> u64 \<times> u64 \<times> u64"

definition compute_statfs ::
  "(rstring \<Rightarrow> host_stat option) \<Rightarrow> (rstring \<Rightarrow> host_stat option) \<Rightarrow> ('io, 'st) fs \<Rightarrow>
   u64 \<times> u64 \<times> u64 \<times> u64 \<times> u64 \<times> u32" where
  "compute_statfs statvfs statfs s =
     (let files = ds_inode_count (fs_meta s);
          ffree = saturating_sub u64_max files;
          none = (0, 0, 0, files, ffree, 4096)
      in case fs_store_path s of
           None \<Rightarrow> none
         | Some sp \<Rightarrow>
             if \<not> utf8_valid sp \<or> List.member sp 0 then none
             else let via_statfs =
                        (case statfs sp of
                           Some (bsize, blocks, bfree, bavail) \<Rightarrow>
                             if blocks > 0
                             then (blocks, bfree, bavail, files, ffree, if 0 < sint bsize then ucast bsize else 4096)
                             else none
                         | None \<Rightarrow> none)
                  in case statvfs sp of
                       Some (frsize, blocks, bfree, bavail) \<Rightarrow>
                         if blocks > 0
                         then (blocks, bfree, bavail, files, ffree, if frsize > 0 then ucast frsize else 4096)
                         else via_statfs
                     | None \<Rightarrow> via_statfs)"

text \<open>The recursive size of a directory tree; entries that cannot be read count as nothing.\<close>

datatype host_node = HostFile u64 | HostDir "host_node list" | HostOther

primrec entry_size :: "host_node \<Rightarrow> u64" where
  "entry_size (HostFile len) = len"
| "entry_size (HostDir entries) = sum_list (map entry_size entries)"
| "entry_size HostOther = 0"

definition dir_size :: "host_node \<Rightarrow> u64" where
  "dir_size dir = (case dir of HostDir _ \<Rightarrow> entry_size dir | _ \<Rightarrow> 0)"

end
