(* ===== verification/Handlers.thy ===== *)
theory Handlers
  imports Filesystem
begin

section \<open>Handlers and FUSE callbacks\<close>

text \<open>
  \<^verbatim>\<open>crates/slicefs-cli/src/handlers.rs\<close> and \<^verbatim>\<open>fuse_callbacks.rs\<close>: a handler turns the result of an
  operation of the file system layer into a result value, a callback decodes the names of the request,
  calls the handler and turns its result into a reply to the kernel. A panic of the operation passes
  through both: the result is then \<open>None\<close>. One reading of the clock serves a whole request. Trace
  output is not modelled.
\<close>

subsection \<open>Results\<close>

datatype attr_result = AttrOk file_attr | AttrError errno

datatype entry_result = EntryOk u64 file_attr | EntryError errno

datatype readdir_result = ReaddirOk "(u64 \<times> file_type \<times> rstring) list" | ReaddirError errno

datatype data_result = DataOk bytes | DataError errno

datatype open_result = OpenOk u64 bool | OpenError errno

datatype empty_result = EmptyOk | EmptyError errno

datatype write_result = WriteOk u32 | WriteError errno

datatype create_result = CreateOk u64 u64 file_attr | CreateError errno

datatype statfs_result = StatfsOk u64 u64 u64 u64 u64 u32

datatype xattr_result = XattrSize u32 | XattrData bytes | XattrError errno

datatype lock_result = LockOk u64 u64 u32 u32

definition handled :: "('a \<Rightarrow> 'r) \<Rightarrow> (errno \<Rightarrow> 'r) \<Rightarrow> ('s, 'a) fs_op \<Rightarrow> 's \<Rightarrow> 's \<times> 'r option" where
  "handled ok err oper s =
     (case oper s of
        (s, Ok x) \<Rightarrow> (s, Some (ok x))
      | (s, Err (Errno e)) \<Rightarrow> (s, Some (err e))
      | (s, Err Panicked) \<Rightarrow> (s, None))"

subsection \<open>Handlers\<close>

definition handle_getattr :: "('io, 'st) blockset \<Rightarrow> u64 \<Rightarrow> ('io, 'st) fs \<Rightarrow> attr_result" where
  "handle_getattr B i s =
     (case test_getattr B i s of
        Ok meta \<Rightarrow> AttrOk (inode_to_file_attr meta)
      | Err e \<Rightarrow> AttrError (meta_error_to_errno e))"

definition handle_lookup ::
  "('io, 'st) blockset \<Rightarrow> u64 \<Rightarrow> rstring \<Rightarrow> ('io, 'st) fs \<Rightarrow> ('io, 'st) fs \<times> entry_result option" where
  "handle_lookup B parent name =
     handled (\<lambda>(child_ino, meta). EntryOk child_ino (inode_to_file_attr meta)) EntryError (test_lookup B parent name)"

definition handle_readdir ::
  "('io, 'st) blockset \<Rightarrow> u64 \<Rightarrow> u64 \<Rightarrow> ('io, 'st) fs \<Rightarrow> ('io, 'st) fs \<times> readdir_result option" where
  "handle_readdir B i offset = handled ReaddirOk ReaddirError (test_readdir B i offset)"

definition handle_read ::
  "('io, 'st) blockset \<Rightarrow> ((u64, 'st open_file_state) btree \<Rightarrow> (u64 \<times> 'st open_file_state) list) \<Rightarrow>
   u64 \<Rightarrow> u64 \<Rightarrow> u32 \<Rightarrow> ('io, 'st) fs \<Rightarrow> ('io, 'st) fs \<times> data_result option" where
  "handle_read B iter i offset sz = handled DataOk DataError (test_read B iter i offset sz)"

definition handle_open ::
  "('io, 'st) blockset \<Rightarrow> clock \<Rightarrow> u64 \<Rightarrow> u32 \<Rightarrow> ('io, 'st) fs \<Rightarrow> ('io, 'st) fs \<times> open_result option" where
  "handle_open B now i flags = handled (\<lambda>(fh, is_write). OpenOk fh is_write) OpenError (test_open B now i flags)"

definition handle_release ::
  "('io, 'st) blockset \<Rightarrow> clock \<Rightarrow> u64 \<Rightarrow> u64 \<Rightarrow> ('io, 'st) fs \<Rightarrow> ('io, 'st) fs \<times> empty_result option" where
  "handle_release B now i fh = handled (\<lambda>_. EmptyOk) (\<lambda>_. EmptyError EIO) (test_release_full B now i fh)"

definition handle_flush ::
  "('io, 'st) blockset \<Rightarrow> clock \<Rightarrow> u64 \<Rightarrow> u64 \<Rightarrow> ('io, 'st) fs \<Rightarrow> ('io, 'st) fs \<times> empty_result option" where
  "handle_flush B now i fh = handled (\<lambda>_. EmptyOk) (\<lambda>_. EmptyError EIO) (test_flush B now i fh)"

definition handle_fsync ::
  "('io, 'st) blockset \<Rightarrow> wal_fault \<Rightarrow> clock \<Rightarrow> u64 \<Rightarrow> u64 \<Rightarrow> ('io, 'st) fs \<Rightarrow> ('io, 'st) fs \<times> empty_result option" where
  "handle_fsync B F now i fh = handled (\<lambda>_. EmptyOk) (\<lambda>_. EmptyError EIO) (test_fsync B F now i fh)"

definition handle_statfs ::
  "(rstring \<Rightarrow> host_stat option) \<Rightarrow> (rstring \<Rightarrow> host_stat option) \<Rightarrow> ('io, 'st) fs \<Rightarrow> statfs_result" where
  "handle_statfs statvfs statfs s =
     (case compute_statfs statvfs statfs s of
        (blocks, bfree, bavail, files, ffree, bsize) \<Rightarrow> StatfsOk blocks bfree bavail files ffree bsize)"

text \<open>A request with size 0 asks for the length of the value only.\<close>

definition sized :: "u32 \<Rightarrow> bytes \<Rightarrow> xattr_result" where
  "sized sz val = (if sz = 0 then XattrSize (of_nat (length val)) else XattrData val)"

definition handle_getxattr ::
  "('io, 'st) blockset \<Rightarrow> u64 \<Rightarrow> rstring \<Rightarrow> u32 \<Rightarrow> ('io, 'st) fs \<Rightarrow> ('io, 'st) fs \<times> xattr_result option" where
  "handle_getxattr B i name sz = handled (sized sz) (\<lambda>_. XattrError ENODATA) (test_getxattr B i name)"

definition handle_listxattr ::
  "('io, 'st) blockset \<Rightarrow> u64 \<Rightarrow> u32 \<Rightarrow> ('io, 'st) fs \<Rightarrow> ('io, 'st) fs \<times> xattr_result option" where
  "handle_listxattr B i sz = handled (sized sz) XattrError (test_listxattr B i)"

definition handle_setxattr ::
  "('io, 'st) blockset \<Rightarrow> u64 \<Rightarrow> rstring \<Rightarrow> bytes \<Rightarrow> ('io, 'st) fs \<Rightarrow> ('io, 'st) fs \<times> empty_result option" where
  "handle_setxattr B i name val = handled (\<lambda>_. EmptyOk) EmptyError (test_setxattr B i name val)"

definition handle_removexattr ::
  "('io, 'st) blockset \<Rightarrow> u64 \<Rightarrow> rstring \<Rightarrow> ('io, 'st) fs \<Rightarrow> ('io, 'st) fs \<times> empty_result option" where
  "handle_removexattr B i name =
     handled (\<lambda>_. EmptyOk) (\<lambda>e. EmptyError (if e = ENOENT then ENODATA else e)) (test_removexattr B i name)"

definition handle_write ::
  "('io, 'st) blockset \<Rightarrow> u64 \<Rightarrow> u64 \<Rightarrow> bytes \<Rightarrow> ('io, 'st) fs \<Rightarrow> ('io, 'st) fs \<times> write_result option" where
  "handle_write B fh offset data = handled WriteOk (\<lambda>_. WriteError EBADF) (test_write B fh offset data)"

definition handle_create ::
  "('io, 'st) blockset \<Rightarrow> clock \<Rightarrow> u64 \<Rightarrow> rstring \<Rightarrow> u32 \<Rightarrow> u32 \<Rightarrow> u32 \<Rightarrow> u32 \<Rightarrow> u32 \<Rightarrow>
   ('io, 'st) fs \<Rightarrow> ('io, 'st) fs \<times> create_result option" where
  "handle_create B now parent name m umask u g flags =
     handled (\<lambda>(i, fh, meta). CreateOk i fh (inode_to_file_attr meta)) CreateError
       (test_create_full B now parent name m umask u g flags)"

definition entry_of :: "u64 \<times> inode_meta \<Rightarrow> entry_result" where
  "entry_of r = (case r of (i, meta) \<Rightarrow> EntryOk i (inode_to_file_attr meta))"

definition handle_mkdir ::
  "('io, 'st) blockset \<Rightarrow> u64 \<Rightarrow> rstring \<Rightarrow> u32 \<Rightarrow> u32 \<Rightarrow> u32 \<Rightarrow> u32 \<Rightarrow>
   ('io, 'st) fs \<Rightarrow> ('io, 'st) fs \<times> entry_result option" where
  "handle_mkdir B parent name m umask u g = handled entry_of EntryError (test_mkdir_full B parent name m umask u g)"

definition handle_mknod ::
  "('io, 'st) blockset \<Rightarrow> u64 \<Rightarrow> rstring \<Rightarrow> u32 \<Rightarrow> u32 \<Rightarrow> u32 \<Rightarrow> u32 \<Rightarrow>
   ('io, 'st) fs \<Rightarrow> ('io, 'st) fs \<times> entry_result option" where
  "handle_mknod B parent name m umask u g = handled entry_of EntryError (test_mknod_full B parent name m u g umask)"

definition handle_symlink ::
  "('io, 'st) blockset \<Rightarrow> u64 \<Rightarrow> rstring \<Rightarrow> rstring \<Rightarrow> u32 \<Rightarrow> u32 \<Rightarrow>
   ('io, 'st) fs \<Rightarrow> ('io, 'st) fs \<times> entry_result option" where
  "handle_symlink B parent link_name target u g =
     handled entry_of EntryError (test_symlink_full B parent link_name target u g)"

definition handle_readlink ::
  "('io, 'st) blockset \<Rightarrow> u64 \<Rightarrow> ('io, 'st) fs \<Rightarrow> ('io, 'st) fs \<times> data_result option" where
  "handle_readlink B i = handled DataOk DataError (simulate_readlink B i)"

definition handle_link ::
  "('io, 'st) blockset \<Rightarrow> clock \<Rightarrow> u64 \<Rightarrow> u64 \<Rightarrow> rstring \<Rightarrow>
   ('io, 'st) fs \<Rightarrow> ('io, 'st) fs \<times> entry_result option" where
  "handle_link B now i newparent newname = handled entry_of EntryError (test_link_full B now i newparent newname)"

definition handle_unlink ::
  "('io, 'st) blockset \<Rightarrow> u64 \<Rightarrow> rstring \<Rightarrow> ('io, 'st) fs \<Rightarrow> ('io, 'st) fs \<times> empty_result option" where
  "handle_unlink B parent name = handled (\<lambda>_. EmptyOk) EmptyError (simulate_unlink B parent name)"

definition handle_rmdir ::
  "('io, 'st) blockset \<Rightarrow> u64 \<Rightarrow> rstring \<Rightarrow> ('io, 'st) fs \<Rightarrow> ('io, 'st) fs \<times> empty_result option" where
  "handle_rmdir B parent name = handled (\<lambda>_. EmptyOk) EmptyError (simulate_rmdir B parent name)"

definition handle_rename ::
  "('io, 'st) blockset \<Rightarrow> clock \<Rightarrow> u64 \<Rightarrow> rstring \<Rightarrow> u64 \<Rightarrow> rstring \<Rightarrow> u32 \<Rightarrow>
   ('io, 'st) fs \<Rightarrow> ('io, 'st) fs \<times> empty_result option" where
  "handle_rename B now parent name newparent newname flags =
     handled (\<lambda>_. EmptyOk) EmptyError (simulate_rename B now parent name newparent newname flags)"

definition handle_setattr ::
  "('io, 'st) blockset \<Rightarrow> clock \<Rightarrow> u64 \<Rightarrow> u32 option \<Rightarrow> u32 option \<Rightarrow> u32 option \<Rightarrow> u64 option \<Rightarrow>
   u64 option \<Rightarrow> (i64 \<times> u32) option \<Rightarrow> ('io, 'st) fs \<Rightarrow> ('io, 'st) fs \<times> attr_result option" where
  "handle_setattr B now i m u g sz fh mt =
     handled (\<lambda>inode. AttrOk (inode_to_file_attr inode)) AttrError (test_setattr B now i m u g sz fh mt)"

definition F_UNLCK :: u32 where "F_UNLCK = 2"

definition handle_getlk :: "u64 \<Rightarrow> u64 \<Rightarrow> u32 \<Rightarrow> lock_result" where
  "handle_getlk start end_of pid = LockOk start end_of F_UNLCK pid"

subsection \<open>Replies\<close>

text \<open>
  The replies the callbacks send; the time-to-live of one second and the generation 0 of the source are
  the same in every reply and are left out. The entries of a directory reply carry the offset at which
  the next request goes on.
\<close>

type_synonym dir_reply = "u64 \<times> u64 \<times> file_type \<times> rstring"

datatype reply =
    ReplyError errno | ReplyOk
  | ReplyAttr file_attr | ReplyEntry file_attr | ReplyCreated file_attr u64
  | ReplyDirectory "dir_reply list" | ReplyData bytes | ReplyOpened u64 | ReplyWritten u32
  | ReplyStatfs u64 u64 u64 u64 u64 u32 u32 u32
  | ReplyXattrSize u32 | ReplyXattrData bytes | ReplyLocked u64 u64 u32 u32

primrec of_attr :: "attr_result \<Rightarrow> reply" where
  "of_attr (AttrOk attr) = ReplyAttr attr"
| "of_attr (AttrError e) = ReplyError e"

primrec of_entry :: "entry_result \<Rightarrow> reply" where
  "of_entry (EntryOk _ attr) = ReplyEntry attr"
| "of_entry (EntryError e) = ReplyError e"

primrec of_data :: "data_result \<Rightarrow> reply" where
  "of_data (DataOk data) = ReplyData data"
| "of_data (DataError e) = ReplyError e"

primrec of_open :: "open_result \<Rightarrow> reply" where
  "of_open (OpenOk fh _) = ReplyOpened fh"
| "of_open (OpenError e) = ReplyError e"

primrec of_empty :: "empty_result \<Rightarrow> reply" where
  "of_empty EmptyOk = ReplyOk"
| "of_empty (EmptyError e) = ReplyError e"

primrec of_write :: "write_result \<Rightarrow> reply" where
  "of_write (WriteOk n) = ReplyWritten n"
| "of_write (WriteError _) = ReplyError EBADF"

primrec of_create :: "create_result \<Rightarrow> reply" where
  "of_create (CreateOk _ fh attr) = ReplyCreated attr fh"
| "of_create (CreateError e) = ReplyError e"

primrec of_xattr :: "xattr_result \<Rightarrow> reply" where
  "of_xattr (XattrSize sz) = ReplyXattrSize sz"
| "of_xattr (XattrData val) = ReplyXattrData val"
| "of_xattr (XattrError e) = ReplyError e"

text \<open>The entries that fit: \<open>full\<close> is the answer of the reply buffer when an entry is added after others.\<close>

fun add_entries :: "(dir_reply list \<Rightarrow> dir_reply \<Rightarrow> bool) \<Rightarrow> u64 \<Rightarrow> dir_reply list \<Rightarrow>
    (u64 \<times> file_type \<times> rstring) list \<Rightarrow> dir_reply list" where
  "add_entries full next_offset added [] = added"
| "add_entries full next_offset added ((i, kind, name) # entries) =
     (let entry = (i, next_offset, kind, name) in
      if full added entry then added else add_entries full (next_offset + 1) (added @ [entry]) entries)"

definition of_readdir :: "(dir_reply list \<Rightarrow> dir_reply \<Rightarrow> bool) \<Rightarrow> u64 \<Rightarrow> readdir_result \<Rightarrow> reply" where
  "of_readdir full offset r =
     (case r of
        ReaddirOk entries \<Rightarrow> ReplyDirectory (add_entries full (offset + 1) [] entries)
      | ReaddirError e \<Rightarrow> ReplyError e)"

subsection \<open>Callbacks\<close>

text \<open>
  A name of a request is a byte string; \<^verbatim>\<open>OsStr::to_str\<close> gives a string when the bytes are UTF-8. The
  callbacks that read take the empty name instead of one that is not UTF-8, those that change the name
  space refuse it.
\<close>

definition name_or_empty :: "bytes \<Rightarrow> rstring" where
  "name_or_empty name = (case from_utf8 name of Some n \<Rightarrow> n | None \<Rightarrow> [])"

definition with_name :: "bytes \<Rightarrow> (rstring \<Rightarrow> 's \<Rightarrow> 's \<times> reply option) \<Rightarrow> 's \<Rightarrow> 's \<times> reply option" where
  "with_name name f s = (case from_utf8 name of Some n \<Rightarrow> f n s | None \<Rightarrow> (s, Some (ReplyError EINVAL)))"

definition replying :: "('r \<Rightarrow> reply) \<Rightarrow> ('s \<Rightarrow> 's \<times> 'r option) \<Rightarrow> 's \<Rightarrow> 's \<times> reply option" where
  "replying f h s = map_prod id (map_option f) (h s)"

datatype time_or_now = SpecificTime int | Now

text \<open>Nanoseconds since the epoch as seconds and nanoseconds; \<open>0\<close> for a time before the epoch.\<close>

definition mtime_pair :: "clock \<Rightarrow> time_or_now \<Rightarrow> i64 \<times> u32" where
  "mtime_pair now t =
     (case t of
        Now \<Rightarrow> now
      | SpecificTime ns \<Rightarrow>
          if ns < 0 then (0, 0) else (of_int (ns div 10 ^ 9), of_int (ns mod 10 ^ 9)))"

text \<open>What the kernel asks for; the fields a callback ignores are left out.\<close>

datatype request =
    Getattr u64 | LookupReq u64 bytes | Readdir u64 u64 | Read u64 u64 u32 | Open u64 u32 | Opendir
  | Release u64 u64 | Releasedir | Flush u64 u64 | Fsync u64 u64 | Statfs | Access
  | Getxattr u64 bytes u32 | Listxattr u64 u32 | Setxattr u64 bytes bytes | Removexattr u64 bytes
  | Write u64 u64 bytes | Create u64 bytes u32 u32 u32 | Mkdir u64 bytes u32 u32 | Mknod u64 bytes u32 u32
  | SymlinkReq u64 bytes bytes | Readlink u64 | LinkReq u64 u64 bytes | UnlinkReq u64 bytes | Rmdir u64 bytes
  | Rename u64 bytes u64 bytes u32
  | Setattr u64 "u32 option" "u32 option" "u32 option" "u64 option" "time_or_now option" "u64 option"
  | Getlk u64 u64 u32 | Setlk | Fallocate

text \<open>
  What the outside world contributes to one request: the caller's ids, the clock, the answers of the
  host to \<^verbatim>\<open>statvfs\<close> and \<^verbatim>\<open>statfs\<close>, the outcome of the log writes, the room in the reply buffer and the
  order in which the open files are visited.
\<close>

record 'st world =
  w_uid :: u32
  w_gid :: u32
  w_now :: clock
  w_statvfs :: "rstring \<Rightarrow> host_stat option"
  w_statfs :: "rstring \<Rightarrow> host_stat option"
  w_wal :: wal_fault
  w_full :: "dir_reply list \<Rightarrow> dir_reply \<Rightarrow> bool"
  w_iter :: "(u64, 'st open_file_state) btree \<Rightarrow> (u64 \<times> 'st open_file_state) list"

definition fuse_getattr :: "('io, 'st) blockset \<Rightarrow> u64 \<Rightarrow> ('io, 'st) fs \<Rightarrow> ('io, 'st) fs \<times> reply option" where
  "fuse_getattr B i = (\<lambda>s. (s, Some (of_attr (handle_getattr B i s))))"

definition fuse_lookup :: "('io, 'st) blockset \<Rightarrow> u64 \<Rightarrow> bytes \<Rightarrow> ('io, 'st) fs \<Rightarrow> ('io, 'st) fs \<times> reply option" where
  "fuse_lookup B parent name = replying of_entry (handle_lookup B parent (name_or_empty name))"

definition fuse_readdir ::
  "('io, 'st) blockset \<Rightarrow> 'st world \<Rightarrow> u64 \<Rightarrow> u64 \<Rightarrow>
   ('io, 'st) fs \<Rightarrow> ('io, 'st) fs \<times> reply option" where
  "fuse_readdir B W i offset = replying (of_readdir (w_full W) offset) (handle_readdir B i offset)"

definition fuse_read ::
  "('io, 'st) blockset \<Rightarrow> 'st world \<Rightarrow> u64 \<Rightarrow> u64 \<Rightarrow> u32 \<Rightarrow>
   ('io, 'st) fs \<Rightarrow> ('io, 'st) fs \<times> reply option" where
  "fuse_read B W i offset sz = replying of_data (handle_read B (w_iter W) i offset sz)"

definition fuse_open ::
  "('io, 'st) blockset \<Rightarrow> 'st world \<Rightarrow> u64 \<Rightarrow> u32 \<Rightarrow>
   ('io, 'st) fs \<Rightarrow> ('io, 'st) fs \<times> reply option" where
  "fuse_open B W i flags = replying of_open (handle_open B (w_now W) i flags)"

definition fuse_opendir :: "('io, 'st) fs \<Rightarrow> ('io, 'st) fs \<times> reply option" where
  "fuse_opendir = (\<lambda>s. (s, Some (ReplyOpened 0)))"

definition fuse_release ::
  "('io, 'st) blockset \<Rightarrow> 'st world \<Rightarrow> u64 \<Rightarrow> u64 \<Rightarrow>
   ('io, 'st) fs \<Rightarrow> ('io, 'st) fs \<times> reply option" where
  "fuse_release B W i fh = replying of_empty (handle_release B (w_now W) i fh)"

definition fuse_releasedir :: "('io, 'st) fs \<Rightarrow> ('io, 'st) fs \<times> reply option" where
  "fuse_releasedir = (\<lambda>s. (s, Some ReplyOk))"

definition fuse_flush ::
  "('io, 'st) blockset \<Rightarrow> 'st world \<Rightarrow> u64 \<Rightarrow> u64 \<Rightarrow>
   ('io, 'st) fs \<Rightarrow> ('io, 'st) fs \<times> reply option" where
  "fuse_flush B W i fh = replying of_empty (handle_flush B (w_now W) i fh)"

definition fuse_fsync ::
  "('io, 'st) blockset \<Rightarrow> 'st world \<Rightarrow> u64 \<Rightarrow> u64 \<Rightarrow>
   ('io, 'st) fs \<Rightarrow> ('io, 'st) fs \<times> reply option" where
  "fuse_fsync B W i fh = replying of_empty (handle_fsync B (w_wal W) (w_now W) i fh)"

definition fuse_statfs :: "'st world \<Rightarrow> ('io, 'st) fs \<Rightarrow> ('io, 'st) fs \<times> reply option" where
  "fuse_statfs W s =
     (s, case handle_statfs (w_statvfs W) (w_statfs W) s of
        StatfsOk blocks bfree bavail files ffree bsize \<Rightarrow>
          Some (ReplyStatfs blocks bfree bavail files ffree bsize 255 bsize))"

definition fuse_access :: "('io, 'st) fs \<Rightarrow> ('io, 'st) fs \<times> reply option" where
  "fuse_access = (\<lambda>s. (s, Some ReplyOk))"

definition fuse_getxattr ::
  "('io, 'st) blockset \<Rightarrow> u64 \<Rightarrow> bytes \<Rightarrow> u32 \<Rightarrow>
   ('io, 'st) fs \<Rightarrow> ('io, 'st) fs \<times> reply option" where
  "fuse_getxattr B i name sz = replying of_xattr (handle_getxattr B i (name_or_empty name) sz)"

definition fuse_listxattr :: "('io, 'st) blockset \<Rightarrow> u64 \<Rightarrow> u32 \<Rightarrow> ('io, 'st) fs \<Rightarrow> ('io, 'st) fs \<times> reply option" where
  "fuse_listxattr B i sz = replying of_xattr (handle_listxattr B i sz)"

definition fuse_setxattr ::
  "('io, 'st) blockset \<Rightarrow> u64 \<Rightarrow> bytes \<Rightarrow> bytes \<Rightarrow>
   ('io, 'st) fs \<Rightarrow> ('io, 'st) fs \<times> reply option" where
  "fuse_setxattr B i name val = replying of_empty (handle_setxattr B i (name_or_empty name) val)"

definition fuse_removexattr ::
  "('io, 'st) blockset \<Rightarrow> u64 \<Rightarrow> bytes \<Rightarrow>
   ('io, 'st) fs \<Rightarrow> ('io, 'st) fs \<times> reply option" where
  "fuse_removexattr B i name = replying of_empty (handle_removexattr B i (name_or_empty name))"

definition fuse_write ::
  "('io, 'st) blockset \<Rightarrow> u64 \<Rightarrow> u64 \<Rightarrow> bytes \<Rightarrow>
   ('io, 'st) fs \<Rightarrow> ('io, 'st) fs \<times> reply option" where
  "fuse_write B fh offset data = replying of_write (handle_write B fh offset data)"

definition fuse_create ::
  "('io, 'st) blockset \<Rightarrow> 'st world \<Rightarrow> u64 \<Rightarrow> bytes \<Rightarrow> u32 \<Rightarrow> u32 \<Rightarrow> u32 \<Rightarrow>
   ('io, 'st) fs \<Rightarrow> ('io, 'st) fs \<times> reply option" where
  "fuse_create B W parent name m umask flags =
     with_name name (\<lambda>n. replying of_create (handle_create B (w_now W) parent n m umask (w_uid W) (w_gid W) flags))"

definition fuse_mkdir ::
  "('io, 'st) blockset \<Rightarrow> 'st world \<Rightarrow> u64 \<Rightarrow> bytes \<Rightarrow> u32 \<Rightarrow> u32 \<Rightarrow>
   ('io, 'st) fs \<Rightarrow> ('io, 'st) fs \<times> reply option" where
  "fuse_mkdir B W parent name m umask =
     with_name name (\<lambda>n. replying of_entry (handle_mkdir B parent n m umask (w_uid W) (w_gid W)))"

definition fuse_mknod ::
  "('io, 'st) blockset \<Rightarrow> 'st world \<Rightarrow> u64 \<Rightarrow> bytes \<Rightarrow> u32 \<Rightarrow> u32 \<Rightarrow>
   ('io, 'st) fs \<Rightarrow> ('io, 'st) fs \<times> reply option" where
  "fuse_mknod B W parent name m umask =
     with_name name (\<lambda>n. replying of_entry (handle_mknod B parent n m umask (w_uid W) (w_gid W)))"

definition fuse_symlink ::
  "('io, 'st) blockset \<Rightarrow> 'st world \<Rightarrow> u64 \<Rightarrow> bytes \<Rightarrow> bytes \<Rightarrow>
   ('io, 'st) fs \<Rightarrow> ('io, 'st) fs \<times> reply option" where
  "fuse_symlink B W parent link_name target =
     with_name link_name (\<lambda>n. with_name target (\<lambda>t.
       replying of_entry (handle_symlink B parent n t (w_uid W) (w_gid W))))"

definition fuse_readlink :: "('io, 'st) blockset \<Rightarrow> u64 \<Rightarrow> ('io, 'st) fs \<Rightarrow> ('io, 'st) fs \<times> reply option" where
  "fuse_readlink B i = replying of_data (handle_readlink B i)"

definition fuse_link ::
  "('io, 'st) blockset \<Rightarrow> 'st world \<Rightarrow> u64 \<Rightarrow> u64 \<Rightarrow> bytes \<Rightarrow>
   ('io, 'st) fs \<Rightarrow> ('io, 'st) fs \<times> reply option" where
  "fuse_link B W i newparent newname =
     with_name newname (\<lambda>n. replying of_entry (handle_link B (w_now W) i newparent n))"

definition fuse_unlink :: "('io, 'st) blockset \<Rightarrow> u64 \<Rightarrow> bytes \<Rightarrow> ('io, 'st) fs \<Rightarrow> ('io, 'st) fs \<times> reply option" where
  "fuse_unlink B parent name = with_name name (\<lambda>n. replying of_empty (handle_unlink B parent n))"

definition fuse_rmdir :: "('io, 'st) blockset \<Rightarrow> u64 \<Rightarrow> bytes \<Rightarrow> ('io, 'st) fs \<Rightarrow> ('io, 'st) fs \<times> reply option" where
  "fuse_rmdir B parent name = with_name name (\<lambda>n. replying of_empty (handle_rmdir B parent n))"

definition fuse_rename ::
  "('io, 'st) blockset \<Rightarrow> 'st world \<Rightarrow> u64 \<Rightarrow> bytes \<Rightarrow> u64 \<Rightarrow> bytes \<Rightarrow> u32 \<Rightarrow>
   ('io, 'st) fs \<Rightarrow> ('io, 'st) fs \<times> reply option" where
  "fuse_rename B W parent name newparent newname flags =
     with_name name (\<lambda>n. with_name newname (\<lambda>n'.
       replying of_empty (handle_rename B (w_now W) parent n newparent n' flags)))"

definition fuse_setattr ::
  "('io, 'st) blockset \<Rightarrow> 'st world \<Rightarrow> u64 \<Rightarrow> u32 option \<Rightarrow> u32 option \<Rightarrow> u32 option \<Rightarrow> u64 option \<Rightarrow>
   time_or_now option \<Rightarrow> u64 option \<Rightarrow>
   ('io, 'st) fs \<Rightarrow> ('io, 'st) fs \<times> reply option" where
  "fuse_setattr B W i m u g sz mt fh =
     replying of_attr (handle_setattr B (w_now W) i m u g sz fh (map_option (mtime_pair (w_now W)) mt))"

definition fuse_getlk :: "u64 \<Rightarrow> u64 \<Rightarrow> u32 \<Rightarrow> ('io, 'st) fs \<Rightarrow> ('io, 'st) fs \<times> reply option" where
  "fuse_getlk start end_of pid s =
     (s, case handle_getlk start end_of pid of LockOk a b typ p \<Rightarrow> Some (ReplyLocked a b typ p))"

definition fuse_setlk :: "('io, 'st) fs \<Rightarrow> ('io, 'st) fs \<times> reply option" where
  "fuse_setlk = (\<lambda>s. (s, Some ReplyOk))"

definition fuse_fallocate :: "('io, 'st) fs \<Rightarrow> ('io, 'st) fs \<times> reply option" where
  "fuse_fallocate = (\<lambda>s. (s, Some (ReplyError ENOSYS)))"

primrec serve :: "('io, 'st) blockset \<Rightarrow> 'st world \<Rightarrow> request \<Rightarrow> ('io, 'st) fs \<Rightarrow> ('io, 'st) fs \<times> reply option" where
  "serve B W (Getattr i) = fuse_getattr B i"
| "serve B W (LookupReq parent name) = fuse_lookup B parent name"
| "serve B W (Readdir i offset) = fuse_readdir B W i offset"
| "serve B W (Read i offset sz) = fuse_read B W i offset sz"
| "serve B W (Open i flags) = fuse_open B W i flags"
| "serve B W Opendir = fuse_opendir"
| "serve B W (Release i fh) = fuse_release B W i fh"
| "serve B W Releasedir = fuse_releasedir"
| "serve B W (Flush i fh) = fuse_flush B W i fh"
| "serve B W (Fsync i fh) = fuse_fsync B W i fh"
| "serve B W Statfs = fuse_statfs W"
| "serve B W Access = fuse_access"
| "serve B W (Getxattr i name sz) = fuse_getxattr B i name sz"
| "serve B W (Listxattr i sz) = fuse_listxattr B i sz"
| "serve B W (Setxattr i name val) = fuse_setxattr B i name val"
| "serve B W (Removexattr i name) = fuse_removexattr B i name"
| "serve B W (Write fh offset data) = fuse_write B fh offset data"
| "serve B W (Create parent name m umask flags) = fuse_create B W parent name m umask flags"
| "serve B W (Mkdir parent name m umask) = fuse_mkdir B W parent name m umask"
| "serve B W (Mknod parent name m umask) = fuse_mknod B W parent name m umask"
| "serve B W (SymlinkReq parent link_name target) = fuse_symlink B W parent link_name target"
| "serve B W (Readlink i) = fuse_readlink B i"
| "serve B W (LinkReq i newparent newname) = fuse_link B W i newparent newname"
| "serve B W (UnlinkReq parent name) = fuse_unlink B parent name"
| "serve B W (Rmdir parent name) = fuse_rmdir B parent name"
| "serve B W (Rename parent name newparent newname flags) = fuse_rename B W parent name newparent newname flags"
| "serve B W (Setattr i m u g sz mt fh) = fuse_setattr B W i m u g sz mt fh"
| "serve B W (Getlk start end_of pid) = fuse_getlk start end_of pid"
| "serve B W Setlk = fuse_setlk"
| "serve B W Fallocate = fuse_fallocate"

text \<open>Unmounting: the faults of the log writes are those of \<open>test_destroy\<close>.\<close>

definition fuse_destroy ::
  "('io, 'st) blockset \<Rightarrow> wal_fault \<Rightarrow> wal_fault \<Rightarrow> wal_fault \<Rightarrow> wal_fault \<Rightarrow> u64 \<Rightarrow> ('io, 'st) fs \<Rightarrow> ('io, 'st) fs" where
  "fuse_destroy B F1 F2 F3 F4 now s = fst (test_destroy B F1 F2 F3 F4 now s)"

end
