(* ===== verification/Store_Spec.thy ===== *)
theory Store_Spec
  imports Store
begin

section \<open>What the metadata store promises\<close>

text \<open>
  The contract of the \<^verbatim>\<open>MetadataStore\<close> trait as operations on plain finite maps (\<open>meta_state\<close>). The
  relation \<open>store_rel\<close> ties the digests of the store to the contents they name in the storage.
\<close>

record meta_state =
  a_inodes :: "u64 \<rightharpoonup> inode_meta"
  a_dirs :: "u64 \<rightharpoonup> (rstring \<rightharpoonup> u64)"
  a_manifests :: "u64 \<rightharpoonup> digest224 list"
  a_xattrs :: "u64 \<rightharpoonup> xattrs"
  a_refs :: "digest224 \<rightharpoonup> u64"
  a_next :: u64

datatype meta_op =
    CreateInode inode_meta
  | GetInode u64
  | UpdateInode inode_meta
  | DeleteInode u64
  | CreateDirectory u64 rstring inode_meta
  | ListDirectory u64
  | Lookup u64 rstring
  | Link u64 rstring u64
  | Unlink u64 rstring
  | SetManifest u64 "digest224 list"
  | GetManifest u64
  | SetXattr u64 rstring bytes
  | GetXattr u64 rstring
  | ListXattrs u64
  | RemoveXattr u64 rstring
  | IncrementRefcount digest224
  | DecrementRefcount digest224
  | GetRefcount digest224
  | LogicalBytes
  | InodeCount
  | Commit wal_fault

datatype 'd resp =
    RUnit
  | RIno u64
  | RMeta inode_meta
  | REntries 'd
  | RBlocks "digest224 list"
  | RBytes bytes
  | RNames "rstring list"
  | RCount u64

subsection \<open>The operations on the store\<close>

definition respond :: "('a \<Rightarrow> 'd resp) \<Rightarrow> 's \<times> (meta_error + 'a) \<Rightarrow> 's \<times> (meta_error + 'd resp)" where
  "respond f r = (fst r, map_sum id f (snd r))"

primrec run_op ::
  "('io, 'st) blockset \<Rightarrow> meta_op \<Rightarrow> 'io store \<Rightarrow> 'io store \<times> (meta_error + dir_entry list resp)" where
  "run_op B (CreateInode m) s = respond RIno (create_inode B m s)"
| "run_op B (GetInode i) s = respond RMeta (s, get_inode B i s)"
| "run_op B (UpdateInode m) s = respond (\<lambda>_. RUnit) (update_inode B m s)"
| "run_op B (DeleteInode i) s = respond (\<lambda>_. RUnit) (delete_inode B i s)"
| "run_op B (CreateDirectory p n m) s = respond RIno (create_directory B p n m s)"
| "run_op B (ListDirectory i) s = respond REntries (s, list_directory B i s)"
| "run_op B (Lookup p n) s = respond RIno (store_lookup B p n s)"
| "run_op B (Link p n i) s = respond (\<lambda>_. RUnit) (store_link B p n i s)"
| "run_op B (Unlink p n) s = respond (\<lambda>_. RUnit) (store_unlink B p n s)"
| "run_op B (SetManifest i bl) s = respond (\<lambda>_. RUnit) (set_manifest B i bl s)"
| "run_op B (GetManifest i) s = respond RBlocks (s, get_manifest B i s)"
| "run_op B (SetXattr i n v) s = respond (\<lambda>_. RUnit) (set_xattr B i n v s)"
| "run_op B (GetXattr i n) s = respond RBytes (s, get_xattr B i n s)"
| "run_op B (ListXattrs i) s = respond RNames (s, list_xattrs B i s)"
| "run_op B (RemoveXattr i n) s = respond (\<lambda>_. RUnit) (remove_xattr B i n s)"
| "run_op B (IncrementRefcount d) s = (increment_refcount d s, Ok RUnit)"
| "run_op B (DecrementRefcount d) s = (decrement_refcount d s, Ok RUnit)"
| "run_op B (GetRefcount d) s = (s, Ok (RCount (get_refcount d s)))"
| "run_op B LogicalBytes s = (s, Ok (RCount (ds_logical_bytes s)))"
| "run_op B InodeCount s = (s, Ok (RCount (ds_inode_count s)))"
| "run_op B (Commit F) s = respond (\<lambda>_. RUnit) (commit B F s)"

subsection \<open>The operations on finite maps\<close>

definition total_size :: "(u64 \<rightharpoonup> inode_meta) \<Rightarrow> nat" where
  "total_size f = (\<Sum>i \<in> dom f. unat (size (the (f i))))"

definition dots :: "rstring set" where
  "dots = {str ''.'', str ''..''}"

definition spec_create_directory ::
  "u64 \<Rightarrow> rstring \<Rightarrow> inode_meta \<Rightarrow> meta_state \<Rightarrow> meta_state \<times> (meta_error + 'd resp)" where
  "spec_create_directory p n m a =
     (case a_inodes a p of
        None \<Rightarrow> (a, Err (NotFound p))
      | Some pm \<Rightarrow>
          if \<not> is_dir_mode (mode pm) then (a, Err (NotADirectory p))
          else case a_dirs a p of
            None \<Rightarrow> (a, Err (NotADirectory p))
          | Some dir \<Rightarrow>
              (let i = a_next a; a = a\<lparr>a_next := i + 1\<rparr> in
               if n \<in> dots then (a, Err (InvalidName n))
               else if dir n \<noteq> None then (a, Err (AlreadyExists i))
               else (a\<lparr>a_inodes := (a_inodes a)
                         (i \<mapsto> m\<lparr>ino := i, mode := if is_dir_mode (mode m) then mode m else mode m OR S_IFDIR\<rparr>,
                          p \<mapsto> pm\<lparr>nlinks := nlinks pm + 1\<rparr>),
                       a_dirs := (a_dirs a)(i \<mapsto> [str ''.'' \<mapsto> i, str ''..'' \<mapsto> p], p \<mapsto> dir(n \<mapsto> i))\<rparr>,
                     Ok (RIno i))))"

definition refcount_inc :: "u64 \<Rightarrow> u64" where
  "refcount_inc v = (if v = u64_max then v else v + 1)"

definition refcount_dec :: "u64 \<Rightarrow> u64 option" where
  "refcount_dec v = (if v = u64_max then Some v else if v \<le> 1 then None else Some (v - 1))"

primrec spec_op :: "meta_op \<Rightarrow> meta_state \<Rightarrow> meta_state \<times> (meta_error + (rstring \<rightharpoonup> u64) resp)" where
  "spec_op (CreateInode m) a =
     (a\<lparr>a_inodes := (a_inodes a)(a_next a \<mapsto> m\<lparr>ino := a_next a\<rparr>), a_next := a_next a + 1\<rparr>, Ok (RIno (a_next a)))"
| "spec_op (GetInode i) a = (a, case a_inodes a i of None \<Rightarrow> Err (NotFound i) | Some m \<Rightarrow> Ok (RMeta m))"
| "spec_op (UpdateInode m) a =
     (if a_inodes a (ino m) = None then (a, Err (NotFound (ino m)))
      else (a\<lparr>a_inodes := (a_inodes a)(ino m \<mapsto> m)\<rparr>, Ok RUnit))"
| "spec_op (DeleteInode i) a =
     (if a_inodes a i = None then (a, Err (NotFound i))
      else (a\<lparr>a_inodes := (a_inodes a)(i := None)\<rparr>, Ok RUnit))"
| "spec_op (CreateDirectory p n m) a = spec_create_directory p n m a"
| "spec_op (ListDirectory i) a = (a, case a_dirs a i of None \<Rightarrow> Err (NotADirectory i) | Some dir \<Rightarrow> Ok (REntries dir))"
| "spec_op (Lookup p n) a =
     (a, case a_dirs a p of None \<Rightarrow> Err (NotADirectory p)
         | Some dir \<Rightarrow> (case dir n of None \<Rightarrow> Err (NotFound 0) | Some i \<Rightarrow> Ok (RIno i)))"
| "spec_op (Link p n i) a =
     (case a_dirs a p of None \<Rightarrow> (a, Err (NotADirectory p))
      | Some dir \<Rightarrow> if n \<in> dots then (a, Err (InvalidName n))
          else if dir n \<noteq> None then (a, Err (AlreadyExists i))
          else (a\<lparr>a_dirs := (a_dirs a)(p \<mapsto> dir(n \<mapsto> i))\<rparr>, Ok RUnit))"
| "spec_op (Unlink p n) a =
     (case a_dirs a p of None \<Rightarrow> (a, Err (NotADirectory p))
      | Some dir \<Rightarrow> if n \<in> dots then (a, Err (InvalidName n))
          else if dir n = None then (a, Err (NotFound 0))
          else (a\<lparr>a_dirs := (a_dirs a)(p \<mapsto> dir(n := None))\<rparr>, Ok RUnit))"
| "spec_op (SetManifest i bl) a = (a\<lparr>a_manifests := (a_manifests a)(i \<mapsto> bl)\<rparr>, Ok RUnit)"
| "spec_op (GetManifest i) a =
     (a, case a_manifests a i of None \<Rightarrow> Err (NotFound i) | Some bl \<Rightarrow> Ok (RBlocks bl))"
| "spec_op (SetXattr i n v) a =
     (a\<lparr>a_xattrs := (a_xattrs a)
          (i \<mapsto> set_xattr_entry n v (case a_xattrs a i of None \<Rightarrow> [] | Some xs \<Rightarrow> xs))\<rparr>, Ok RUnit)"
| "spec_op (GetXattr i n) a =
     (a, case a_xattrs a i of None \<Rightarrow> Err (NotFound i)
         | Some xs \<Rightarrow> (case map_of xs n of None \<Rightarrow> Err (NotFound i) | Some v \<Rightarrow> Ok (RBytes v)))"
| "spec_op (ListXattrs i) a =
     (a, Ok (RNames (case a_xattrs a i of None \<Rightarrow> [] | Some xs \<Rightarrow> map fst xs)))"
| "spec_op (RemoveXattr i n) a =
     (case a_xattrs a i of None \<Rightarrow> (a, Err (NotFound i))
      | Some xs \<Rightarrow> if n \<notin> fst ` set xs then (a, Err (NotFound i))
          else (a\<lparr>a_xattrs := (a_xattrs a)(i \<mapsto> filter (\<lambda>(k, _). k \<noteq> n) xs)\<rparr>, Ok RUnit))"
| "spec_op (IncrementRefcount d) a =
     (a\<lparr>a_refs := (a_refs a)(d \<mapsto> refcount_inc (case a_refs a d of None \<Rightarrow> 0 | Some v \<Rightarrow> v))\<rparr>, Ok RUnit)"
| "spec_op (DecrementRefcount d) a =
     (a\<lparr>a_refs := (a_refs a)(d := Option.bind (a_refs a d) refcount_dec)\<rparr>, Ok RUnit)"
| "spec_op (GetRefcount d) a = (a, Ok (RCount (case a_refs a d of None \<Rightarrow> 0 | Some v \<Rightarrow> v)))"
| "spec_op LogicalBytes a = (a, Ok (RCount (of_nat (total_size (a_inodes a)))))"
| "spec_op InodeCount a = (a, Ok (RCount (of_nat (card (dom (a_inodes a))))))"
| "spec_op (Commit F) a = (a, Ok RUnit)"

text \<open>A new store has the root directory, inode 1, only.\<close>

definition meta_init :: "u32 \<Rightarrow> u32 \<Rightarrow> meta_state" where
  "meta_init u g =
     \<lparr>a_inodes = [1 \<mapsto> new_directory 1 u g (S_IFDIR OR 0x1ED)],
      a_dirs = [1 \<mapsto> [str ''.'' \<mapsto> 1, str ''..'' \<mapsto> 1]], a_manifests = Map.empty,
      a_xattrs = Map.empty, a_refs = Map.empty, a_next = 2\<rparr>"

text \<open>
  The calls the contract covers. Names are Rust strings of less than 4 GiB, a directory has less than
  \<open>2\<^sup>3\<^sup>2 - 1\<close> entries when one is added, the inode numbers are not used up, the sizes sum to less
  than \<open>2\<^sup>6\<^sup>4\<close>, and a new directory has size 0 (all callers pass \<^verbatim>\<open>InodeMeta::new_directory\<close>).
\<close>

definition name_ok :: "rstring \<Rightarrow> bool" where
  "name_ok n \<longleftrightarrow> utf8_valid n \<and> length n < 2 ^ 32"

definition dir_room :: "meta_state \<Rightarrow> u64 \<Rightarrow> bool" where
  "dir_room a p \<longleftrightarrow> (case a_dirs a p of None \<Rightarrow> True | Some dir \<Rightarrow> card (dom dir) < 2 ^ 32 - 1)"

definition op_allowed :: "meta_op \<Rightarrow> meta_state \<Rightarrow> bool" where
  "op_allowed oper a =
     (case oper of
        CreateInode m \<Rightarrow> a_next a \<noteq> u64_max \<and> total_size (a_inodes a) + unat (size m) < 2 ^ 64
      | UpdateInode m \<Rightarrow> total_size ((a_inodes a)(ino m \<mapsto> m)) < 2 ^ 64
      | CreateDirectory p n m \<Rightarrow> a_next a \<noteq> u64_max \<and> size m = 0 \<and> name_ok n \<and> dir_room a p
      | Link p n i \<Rightarrow> name_ok n \<and> dir_room a p
      | SetXattr i n v \<Rightarrow> name_ok n \<and> length v < 2 ^ 32
      | _ \<Rightarrow> True)"

subsection \<open>Maps of digests and maps of contents\<close>

definition denotes :: "('d \<Rightarrow> 'v \<Rightarrow> bool) \<Rightarrow> ('k::linorder, 'd) btree \<Rightarrow> ('k \<rightharpoonup> 'v) \<Rightarrow> bool" where
  "denotes R m f \<longleftrightarrow> bt_sorted m \<and> (\<forall>k. rel_option R (bt_get m k) (f k))"

lemma denotes_empty: "denotes R [] Map.empty"
  by (simp add: denotes_def)

lemma denotes_insert: "denotes R m f \<Longrightarrow> R d v \<Longrightarrow> denotes R (bt_insert k d m) (f(k \<mapsto> v))"
  by (simp add: denotes_def bt_get_insert bt_sorted_insert)

lemma denotes_remove: "denotes R m f \<Longrightarrow> denotes R (bt_remove k m) (f(k := None))"
  by (simp add: denotes_def bt_get_remove bt_sorted_remove)

lemma denotes_mono:
  assumes "denotes R m f" "\<And>d v. R d v \<Longrightarrow> R' d v"
  shows "denotes R' m f"
  using assms option.rel_mono_strong unfolding denotes_def by blast

lemma denotes_None: "denotes R m f \<Longrightarrow> bt_get m k = None \<longleftrightarrow> f k = None"
  by (metis denotes_def option.rel_sel option.exhaust_disc)

lemma denotes_Some: "denotes R m f \<Longrightarrow> f k = Some v \<Longrightarrow> \<exists>d. bt_get m k = Some d \<and> R d v"
  by (metis denotes_def option_rel_Some2)

lemma denotes_cases:
  assumes "denotes R m f"
  obtains "bt_get m k = None" "f k = None" | d v where "bt_get m k = Some d" "f k = Some v" "R d v"
proof (cases "f k")
  case None
  then show thesis using that(1) denotes_None [OF assms] by metis
next
  case (Some v)
  then show thesis using that(2) denotes_Some [OF assms] by metis
qed

lemma denotes_dom: "denotes R m f \<Longrightarrow> dom f = dom (bt_get m)"
  by (simp only: dom_def denotes_None)

lemma denotes_finite: "denotes R m f \<Longrightarrow> finite (dom f)"
  using denotes_dom finite_dom_map_of by metis

lemma denotes_card: "denotes R m f \<Longrightarrow> card (dom f) = length m"
proof -
  assume m: "denotes R m f"
  then have "distinct (map fst m)" by (simp add: denotes_def bt_sorted_distinct)
  then have "card (fst ` set m) = length m" by (metis distinct_card length_map set_map)
  then show ?thesis by (simp add: denotes_dom [OF m] dom_map_of_conv_image_fst)
qed

subsection \<open>Sizes\<close>

lemma total_size_insert:
  assumes "finite (dom f)"
  shows "total_size (f(i \<mapsto> m)) = total_size (f(i := None)) + unat (size m)"
proof -
  let ?g = "f(i \<mapsto> m)" and ?h = "f(i := None)"
  have "total_size ?g = unat (size (the (?g i))) + (\<Sum>j \<in> dom ?g - {i}. unat (size (the (?g j))))"
    unfolding total_size_def using assms by (intro sum.remove) auto
  also have "(\<Sum>j \<in> dom ?g - {i}. unat (size (the (?g j)))) = (\<Sum>j \<in> dom ?h. unat (size (the (?h j))))"
    by (rule sum.cong) (auto split: if_splits)
  finally show ?thesis by (simp only: total_size_def fun_upd_same option.sel add.commute)
qed

lemma total_size_split:
  assumes "finite (dom f)" "f i = Some m"
  shows "total_size f = total_size (f(i := None)) + unat (size m)"
  using total_size_insert [OF assms(1), of i m] assms(2) by (simp add: map_upd_triv)

lemma total_size_new: "finite (dom f) \<Longrightarrow> f i = None \<Longrightarrow> total_size (f(i \<mapsto> m)) = total_size f + unat (size m)"
  using total_size_insert [of f i m] by (metis fun_upd_triv)

lemma unat_add_u64: "unat a + unat b < 2 ^ 64 \<Longrightarrow> unat (a + b :: u64) = unat a + unat b"
  by (simp add: unat_word_ariths)

lemma unat_saturating_sub: "unat (saturating_sub a b) = unat a - unat b"
  by (simp add: saturating_sub_def word_less_nat_alt unat_sub word_le_nat_alt)

lemma unat_succ_u64:
  assumes "n \<noteq> u64_max"
  shows "unat (n + 1) = Suc (unat n)"
proof -
  have "n + 1 \<noteq> 0" using assms by (auto simp: u64_max_def add_eq_0_iff2)
  then show ?thesis by (metis Suc_eq_plus1 add.commute unatSuc)
qed

lemma u64_less_succ: "i < n \<Longrightarrow> n \<noteq> u64_max \<Longrightarrow> i < n + 1"
  by (simp add: word_less_nat_alt unat_succ_u64)

lemma u64_self_less_succ: "n \<noteq> u64_max \<Longrightarrow> n < n + 1"
  by (simp add: word_less_nat_alt unat_succ_u64)

subsection \<open>Every operation only adds to the storage\<close>

named_theorems grows_intros \<open>the storage after an operation is a later state of the storage before\<close>

lemma intern_grows:
  assumes "blockset_laws B"
  shows "bs_grows B io (fst (intern_inode B io m))" "bs_grows B io (fst (intern_manifest B io bl))"
    "bs_grows B io (fst (intern_xattrs B io xs))" "bs_grows B io (fst (entry_key B io n))"
    "bs_grows B io (fst (intern_entry_list B io es))" "bs_grows B io (fst (intern_inode_map B io im))"
    "bs_grows B io (fst (intern_u64_digest_map B io dm))" "bs_grows B io (fst (intern_digest224_u64_map B io rm))"
    "bs_grows B io (fst (push_all B io bs))"
  using push_all_stored [OF assms]
  by (simp_all add: bs_stored_def intern_inode_def intern_manifest_def intern_xattrs_def entry_key_def
      intern_entry_list_def intern_inode_map_def intern_u64_digest_map_def intern_digest224_u64_map_def)

lemma bs_grows_step: "bs_grows B io (fst r) \<Longrightarrow> r = (io', x) \<Longrightarrow> bs_grows B io io'"
  by simp

lemmas intern_steps = intern_grows [THEN bs_grows_step]

lemma dir_entry_ops_grow [grows_intros]:
  assumes "blockset_laws B"
  shows "bs_grows B io (fst (create_dir_entries B io i p))" "bs_grows B io (fst (add_dir_entry B io d n i))"
    "bs_grows B io (fst (remove_dir_entry B io d n))" "bs_grows B io (fst (lookup_dir_entry B io d n))"
  by (auto simp: create_dir_entries_def add_dir_entry_def remove_dir_entry_def lookup_dir_entry_def Let_def
      simp del: bt_insert.simps split: sum.splits prod.splits
      intro: bs_grows_trans intern_grows [OF assms] dest!: intern_steps [OF assms])

lemma store_ops_grow [grows_intros]:
  assumes "blockset_laws B"
  shows "bs_grows B (ds_io s) (ds_io (fst (create_inode B m s)))"
    "bs_grows B (ds_io s) (ds_io (fst (update_inode B m s)))"
    "bs_grows B (ds_io s) (ds_io (fst (delete_inode B i s)))"
    "bs_grows B (ds_io s) (ds_io (fst (store_lookup B p n s)))"
    "bs_grows B (ds_io s) (ds_io (fst (store_link B p n i s)))"
    "bs_grows B (ds_io s) (ds_io (fst (store_unlink B p n s)))"
    "bs_grows B (ds_io s) (ds_io (fst (set_manifest B i bl s)))"
    "bs_grows B (ds_io s) (ds_io (fst (set_xattr B i n v s)))"
    "bs_grows B (ds_io s) (ds_io (fst (remove_xattr B i n s)))"
proof -
  note dir = dir_entry_ops_grow [OF assms, THEN bs_grows_step] and int = intern_steps [OF assms]
  show "bs_grows B (ds_io s) (ds_io (fst (create_inode B m s)))"
    by (auto simp: create_inode_def Let_def split: prod.splits dest: int)
  show "bs_grows B (ds_io s) (ds_io (fst (update_inode B m s)))"
    by (auto simp: update_inode_def Let_def split: prod.splits option.splits dest: int)
  show "bs_grows B (ds_io s) (ds_io (fst (delete_inode B i s)))"
    by (auto simp: delete_inode_def Let_def split: option.splits)
  show "bs_grows B (ds_io s) (ds_io (fst (store_lookup B p n s)))"
    by (auto simp: store_lookup_def Let_def split: prod.splits option.splits dest: dir)
  show "bs_grows B (ds_io s) (ds_io (fst (store_link B p n i s)))"
    by (auto simp: store_link_def Let_def split: prod.splits option.splits sum.splits dest: dir)
  show "bs_grows B (ds_io s) (ds_io (fst (store_unlink B p n s)))"
    by (auto simp: store_unlink_def Let_def split: prod.splits option.splits sum.splits dest: dir)
  show "bs_grows B (ds_io s) (ds_io (fst (set_manifest B i bl s)))"
    by (auto simp: set_manifest_def Let_def split: prod.splits dest: int)
  show "bs_grows B (ds_io s) (ds_io (fst (set_xattr B i n v s)))"
    by (auto simp: set_xattr_def Let_def split: prod.splits option.splits sum.splits dest: int)
  show "bs_grows B (ds_io s) (ds_io (fst (remove_xattr B i n s)))"
    by (auto simp: remove_xattr_def Let_def split: prod.splits option.splits sum.splits dest: int)
qed

lemma ds_io_log_wal_entry [simp]: "ds_io (log_wal_entry F e s) = ds_io s"
  by (simp add: log_wal_entry_def split: option.split)

lemma commit_grows [grows_intros]:
  assumes "blockset_laws B"
  shows "bs_grows B (ds_io s) (ds_io (fst (commit B F s)))"
  by (auto simp: commit_def Let_def split: prod.splits dest!: intern_steps [OF assms])
    (meson bs_grows_trans)

lemma create_directory_grows [grows_intros]:
  assumes "blockset_laws B"
  shows "bs_grows B (ds_io s) (ds_io (fst (create_directory B p n m s)))"
proof -
  note dir = dir_entry_ops_grow [OF assms, THEN bs_grows_step] and int = intern_steps [OF assms]
  have upd: "bs_grows B (ds_io t) (ds_io t')" if "update_inode B x t = (t', r)" for x t t' r
    using store_ops_grow(2) [OF assms, of t x] that by simp
  show ?thesis
    by (auto simp: create_directory_def Let_def allocate_ino_def split: prod.splits option.splits sum.splits
        simp del: bt_insert.simps dest!: dir int upd) (meson bs_grows_trans)+
qed

lemma run_op_grows: "blockset_laws B \<Longrightarrow> bs_grows B (ds_io s) (ds_io (fst (run_op B oper s)))"
  by (cases oper) (simp_all add: respond_def grows_intros increment_refcount_def decrement_refcount_def Let_def
      split: option.split)

subsection \<open>The refinement relation\<close>

definition inode_at :: "('io, 'st) blockset \<Rightarrow> 'io \<Rightarrow> digest224 \<Rightarrow> inode_meta \<Rightarrow> bool" where
  "inode_at B io d m \<longleftrightarrow> storage_get B io d = Some (serialize_inode m)"

definition manifest_at :: "('io, 'st) blockset \<Rightarrow> 'io \<Rightarrow> digest224 \<Rightarrow> digest224 list \<Rightarrow> bool" where
  "manifest_at B io d bl \<longleftrightarrow> storage_get B io d = Some (serialize_manifest bl)"

definition xattrs_at :: "('io, 'st) blockset \<Rightarrow> 'io \<Rightarrow> digest224 \<Rightarrow> xattrs \<Rightarrow> bool" where
  "xattrs_at B io d xs \<longleftrightarrow> xattrs_ok xs \<and> storage_get B io d = Some (serialize_xattrs xs)"

definition store_rel :: "('io, 'st) blockset \<Rightarrow> 'io store \<Rightarrow> meta_state \<Rightarrow> bool" where
  "store_rel B s a \<longleftrightarrow>
     denotes (inode_at B (ds_io s)) (ds_inode_data s) (a_inodes a) \<and>
     denotes (dir_is B (ds_io s)) (ds_dir_data s) (a_dirs a) \<and>
     denotes (manifest_at B (ds_io s)) (ds_manifest_data s) (a_manifests a) \<and>
     denotes (xattrs_at B (ds_io s)) (ds_xattr_data s) (a_xattrs a) \<and>
     denotes (=) (ds_refcounts s) (a_refs a) \<and>
     im_map (ds_inode_map s) = ds_inode_data s \<and> im_next_ino (ds_inode_map s) = a_next a \<and>
     (\<forall>i m. a_inodes a i = Some m \<longrightarrow> ino m = i \<and> i < a_next a) \<and>
     unat (ds_logical_bytes s) = total_size (a_inodes a) \<and>
     unat (ds_inode_count s) = card (dom (a_inodes a))"

lemma store_relD:
  assumes "store_rel B s a"
  shows "denotes (inode_at B (ds_io s)) (ds_inode_data s) (a_inodes a)"
    "denotes (dir_is B (ds_io s)) (ds_dir_data s) (a_dirs a)"
    "denotes (manifest_at B (ds_io s)) (ds_manifest_data s) (a_manifests a)"
    "denotes (xattrs_at B (ds_io s)) (ds_xattr_data s) (a_xattrs a)"
    "denotes (=) (ds_refcounts s) (a_refs a)"
    "im_map (ds_inode_map s) = ds_inode_data s" "im_next_ino (ds_inode_map s) = a_next a"
    "a_inodes a i = Some m \<Longrightarrow> ino m = i \<and> i < a_next a"
    "unat (ds_logical_bytes s) = total_size (a_inodes a)"
    "unat (ds_inode_count s) = card (dom (a_inodes a))"
    "finite (dom (a_inodes a))"
  using assms denotes_finite unfolding store_rel_def by blast+

lemma at_grows:
  assumes "bs_grows B io io'" "bs_ok B io'"
  shows "inode_at B io d m \<Longrightarrow> inode_at B io' d m" "manifest_at B io d bl \<Longrightarrow> manifest_at B io' d bl"
    "xattrs_at B io d xs \<Longrightarrow> xattrs_at B io' d xs"
  using bs_growsD(2) [OF assms] by (auto simp: inode_at_def manifest_at_def xattrs_at_def)

text \<open>The relation survives every growth of the storage, and each kind of map can be updated on both sides.\<close>

lemma store_rel_grows:
  assumes "store_rel B s a" "bs_grows B (ds_io s) io'" "bs_ok B io'"
  shows "store_rel B (s\<lparr>ds_io := io'\<rparr>) a"
  using assms(1) unfolding store_rel_def
  by (auto intro: denotes_mono at_grows [OF assms(2,3)] dir_is_grows [OF assms(2,3)])

lemma load_at:
  "inode_at B io d m \<Longrightarrow> load_inode B io d = Ok m"
  "manifest_at B io d bl \<Longrightarrow> load_manifest B io d = Ok bl"
  "xattrs_at B io d xs \<Longrightarrow> load_xattrs B io d = Ok xs"
  by (simp_all add: inode_at_def manifest_at_def xattrs_at_def load_inode_def load_manifest_def load_xattrs_def
      load_node_stored codec_simps)

lemma intern_at:
  assumes "blockset_laws B"
  shows "intern_inode B io m = (io', d) \<Longrightarrow> bs_ok B io' \<Longrightarrow> inode_at B io' d m"
    "intern_manifest B io bl = (io', d) \<Longrightarrow> bs_ok B io' \<Longrightarrow> manifest_at B io' d bl"
    "xattrs_ok xs \<Longrightarrow> intern_xattrs B io xs = (io', d) \<Longrightarrow> bs_ok B io' \<Longrightarrow> xattrs_at B io' d xs"
  using push_all_get [OF assms]
  by (auto simp: inode_at_def manifest_at_def xattrs_at_def intern_inode_def intern_manifest_def intern_xattrs_def)

lemma store_rel_put_inode:
  assumes "store_rel B s a" "inode_at B (ds_io s) d m" "ino m = i" "im_next_ino im = n" "im_map im = ds_inode_data s"
    and "a_next a \<le> n" "i < n"
    and "unat lb = total_size ((a_inodes a)(i \<mapsto> m))" "unat ic = card (insert i (dom (a_inodes a)))"
  shows "store_rel B (s\<lparr>ds_inode_map := im_insert i d im, ds_inode_data := bt_insert i d (ds_inode_data s),
      ds_logical_bytes := lb, ds_inode_count := ic\<rparr>) (a\<lparr>a_inodes := (a_inodes a)(i \<mapsto> m), a_next := n\<rparr>)"
  using assms by (auto simp: store_rel_def im_insert_def intro: denotes_insert order_less_le_trans)

lemma store_rel_del_inode:
  assumes "store_rel B s a" "unat lb = total_size ((a_inodes a)(i := None))" "unat ic = card (dom (a_inodes a) - {i})"
  shows "store_rel B (s\<lparr>ds_inode_data := bt_remove i (ds_inode_data s), ds_inode_map := im_remove i (ds_inode_map s),
      ds_logical_bytes := lb, ds_inode_count := ic\<rparr>) (a\<lparr>a_inodes := (a_inodes a)(i := None)\<rparr>)"
  using assms by (auto simp: store_rel_def im_remove_def intro: denotes_remove)

lemma store_rel_put:
  assumes "store_rel B s a"
  shows "dir_is B (ds_io s) d dir \<Longrightarrow> store_rel B (s\<lparr>ds_dir_data := bt_insert i d (ds_dir_data s)\<rparr>)
      (a\<lparr>a_dirs := (a_dirs a)(i \<mapsto> dir)\<rparr>)"
    "manifest_at B (ds_io s) d bl \<Longrightarrow> store_rel B (s\<lparr>ds_manifest_data := bt_insert i d (ds_manifest_data s)\<rparr>)
      (a\<lparr>a_manifests := (a_manifests a)(i \<mapsto> bl)\<rparr>)"
    "xattrs_at B (ds_io s) d xs \<Longrightarrow> store_rel B (s\<lparr>ds_xattr_data := bt_insert i d (ds_xattr_data s)\<rparr>)
      (a\<lparr>a_xattrs := (a_xattrs a)(i \<mapsto> xs)\<rparr>)"
    "store_rel B (s\<lparr>ds_refcounts := bt_insert k v (ds_refcounts s)\<rparr>) (a\<lparr>a_refs := (a_refs a)(k \<mapsto> v)\<rparr>)"
    "store_rel B (s\<lparr>ds_refcounts := bt_remove k (ds_refcounts s)\<rparr>) (a\<lparr>a_refs := (a_refs a)(k := None)\<rparr>)"
    "a_next a \<le> n \<Longrightarrow> im_map im = ds_inode_data s \<Longrightarrow> im_next_ino im = n \<Longrightarrow>
      store_rel B (s\<lparr>ds_inode_map := im\<rparr>) (a\<lparr>a_next := n\<rparr>)"
  using assms by (auto simp: store_rel_def intro: denotes_insert denotes_remove order_less_le_trans)

end
