(* ===== verification/Store_Refine.thy ===== *)
theory Store_Refine
  imports Store_Spec
begin

section \<open>The metadata store refines its specification\<close>

text \<open>
  One lemma per operation of \<^verbatim>\<open>DictMetadataStore\<close>: from related states it ends in related states
  and gives the response of the specification, on every branch. The simulation locale lifts this to
  sequences of operations.
\<close>

subsection \<open>Each operation refines its specification\<close>

text \<open>A listing has each entry of the directory exactly once.\<close>

definition lists_dir :: "dir_entry list \<Rightarrow> (rstring \<rightharpoonup> u64) \<Rightarrow> bool" where
  "lists_dir l m \<longleftrightarrow> distinct (map de_name l) \<and> map_of (map (\<lambda>e. (de_name e, de_ino e)) l) = m"

definition same_resp :: "meta_error + dir_entry list resp \<Rightarrow> meta_error + (rstring \<rightharpoonup> u64) resp \<Rightarrow> bool" where
  "same_resp = rel_sum (=) (rel_resp lists_dir)"

definition op_refines ::
  "('io, 'st) blockset \<Rightarrow> 'io store \<times> (meta_error + dir_entry list resp) \<Rightarrow>
   meta_state \<times> (meta_error + (rstring \<rightharpoonup> u64) resp) \<Rightarrow> bool" where
  "op_refines B c a \<longleftrightarrow> (bs_ok B (ds_io (fst c)) \<longrightarrow>
     store_rel B (fst c) (fst a) \<and> same_resp (snd c) (snd a))"

lemmas refine_simps = op_refines_def respond_def same_resp_def

lemma op_refinesI:
  assumes "bs_ok B (ds_io (fst c)) \<Longrightarrow> store_rel B (fst c) (fst a)"
    and "bs_ok B (ds_io (fst c)) \<Longrightarrow> same_resp (snd c) (snd a)"
  shows "op_refines B c a"
  using assms by (simp add: op_refines_def)

lemma card_below:
  assumes "\<forall>i \<in> D. i < (n :: u64)"
  shows "card D \<le> unat n"
proof -
  have "D \<subseteq> of_nat ` {..<unat n}"
  proof
    fix i assume "i \<in> D"
    then have "unat i < unat n" using assms by (simp add: word_less_nat_alt)
    then have "(of_nat (unat i) :: u64) \<in> of_nat ` {..<unat n}" by blast
    then show "i \<in> of_nat ` {..<unat n}" by simp
  qed
  then have "card D \<le> card (of_nat ` {..<unat n} :: u64 set)" by (intro card_mono) auto
  also have "\<dots> \<le> unat n" using card_image_le [of "{..<unat n}" of_nat] by simp
  finally show ?thesis .
qed

lemma inode_count_succ:
  assumes rel: "store_rel B s a" and "a_next a \<noteq> u64_max" "i \<notin> dom (a_inodes a)"
  shows "unat (ds_inode_count s + 1) = card (insert i (dom (a_inodes a)))"
proof -
  have "card (dom (a_inodes a)) \<le> unat (a_next a)"
    by (rule card_below) (use store_relD(8) [OF rel] in blast)
  moreover have "unat (a_next a) < unat u64_max"
    using assms(2) by (metis u64_max_def word_less_nat_alt word_order.not_eq_extremum)
  ultimately have "unat (ds_inode_count s) \<noteq> unat u64_max" using store_relD(10) [OF rel] by linarith
  then have "unat (ds_inode_count s + 1) = Suc (card (dom (a_inodes a)))"
    using unat_succ_u64 store_relD(10) [OF rel] by metis
  then show ?thesis using assms(3) store_relD(11) [OF rel] by simp
qed

lemma create_inode_refines:
  assumes laws: "blockset_laws B" and rel: "store_rel B s a"
    and "a_next a \<noteq> u64_max" "total_size (a_inodes a) + unat (size m) < 2 ^ 64"
  shows "op_refines B (run_op B (CreateInode m) s) (spec_op (CreateInode m) a)"
proof -
  let ?i = "a_next a" and ?m = "m\<lparr>ino := a_next a\<rparr>"
  note rels = store_relD [OF rel]
  obtain io d where int: "intern_inode B (ds_io s) ?m = (io, d)" by (cases "intern_inode B (ds_io s) ?m")
  let ?s = "s\<lparr>ds_io := io\<rparr>"
  let ?lb = "if size m > 0 then ds_logical_bytes s + size m else ds_logical_bytes s"
  have run: "create_inode B m s = (?s\<lparr>ds_inode_map := im_insert ?i d ((ds_inode_map s)\<lparr>im_next_ino := ?i + 1\<rparr>),
      ds_inode_data := bt_insert ?i d (ds_inode_data ?s), ds_logical_bytes := ?lb,
      ds_inode_count := ds_inode_count s + 1\<rparr>, Ok ?i)"
    using int by (simp add: create_inode_def allocate_ino_def Let_def rels(7))
  have new: "?i \<notin> dom (a_inodes a)" using rels(8) by blast
  have le: "?i \<le> ?i + 1" "?i < ?i + 1" using u64_self_less_succ [OF assms(3)] by auto
  have fresh: "a_inodes a ?i = None" using new by blast
  have lb: "unat ?lb = total_size ((a_inodes a)(?i \<mapsto> ?m))"
    using assms(4) total_size_new [OF rels(11) fresh, of ?m]
    by (simp add: unat_add_u64 rels(9) word_greater_zero_iff)
  note ic = inode_count_succ [OF rel assms(3) new]
  show ?thesis
  proof (rule op_refinesI)
    assume "bs_ok B (ds_io (fst (run_op B (CreateInode m) s)))"
    then have ok: "bs_ok B io" by (simp add: respond_def run)
    have "store_rel B ?s a"
      by (rule store_rel_grows [OF rel intern_steps(1) [OF laws int] ok])
    then show "store_rel B (fst (run_op B (CreateInode m) s)) (fst (spec_op (CreateInode m) a))"
      unfolding run_op.simps respond_def run spec_op.simps fst_conv
      by (rule store_rel_put_inode)
        (use intern_at(1) [OF laws int ok] le lb ic rels in simp_all)
    show "same_resp (snd (run_op B (CreateInode m) s)) (snd (spec_op (CreateInode m) a))"
      by (simp add: same_resp_def respond_def run)
  qed
qed

lemma get_inode_at:
  assumes "store_rel B s a"
  shows "get_inode B i s = (case a_inodes a i of None \<Rightarrow> Err (NotFound i) | Some m \<Rightarrow> Ok m)"
  using store_relD(1) [OF assms] by (rule denotes_cases [where k = i]) (simp_all add: get_inode_def load_at)

lemma update_inode_step:
  assumes laws: "blockset_laws B" and rel: "store_rel B s a" and old: "a_inodes a (ino m) = Some m0"
    and fits: "total_size ((a_inodes a)(ino m \<mapsto> m)) < 2 ^ 64"
    and run: "update_inode B m s = (s', r)" and ok: "bs_ok B (ds_io s')"
  shows "store_rel B s' (a\<lparr>a_inodes := (a_inodes a)(ino m \<mapsto> m)\<rparr>) \<and> r = Ok ()"
proof -
  let ?i = "ino m"
  note rels = store_relD [OF rel]
  obtain d0 where d0: "bt_get (ds_inode_data s) ?i = Some d0" "load_inode B (ds_io s) d0 = Ok m0"
    using denotes_Some [OF rels(1) old] load_at(1) by metis
  obtain io d where int: "intern_inode B (ds_io s) m = (io, d)" by (cases "intern_inode B (ds_io s) m")
  let ?s = "s\<lparr>ds_io := io\<rparr>"
  let ?lb = "if size m > size m0 then ds_logical_bytes s + (size m - size m0)
    else if size m0 > size m then saturating_sub (ds_logical_bytes s) (size m0 - size m) else ds_logical_bytes s"
  have s': "s' = ?s\<lparr>ds_inode_map := im_insert ?i d (ds_inode_map s), ds_inode_data := bt_insert ?i d (ds_inode_data ?s),
      ds_logical_bytes := ?lb, ds_inode_count := ds_inode_count s\<rparr>" and r: "r = Ok ()"
    using run int by (auto simp: update_inode_def d0 loaded_size_def Let_def split: if_splits)
  have ok': "bs_ok B io" using ok by (simp add: s')
  have tot: "total_size (a_inodes a) = total_size ((a_inodes a)(?i := None)) + unat (size m0)"
    by (rule total_size_split [OF rels(11) old])
  have tot': "total_size ((a_inodes a)(?i \<mapsto> m)) = total_size ((a_inodes a)(?i := None)) + unat (size m)"
    by (rule total_size_insert [OF rels(11)])
  have lb: "unat ?lb = total_size ((a_inodes a)(?i \<mapsto> m))"
    using fits unfolding tot' using rels(9) unfolding tot
    by (auto simp: unat_saturating_sub unat_word_ariths word_less_nat_alt unat_sub_if')
  have i: "?i < a_next a" using rels(8) [OF old] by simp
  have dom: "insert ?i (dom (a_inodes a)) = dom (a_inodes a)" using old by blast
  have rel': "store_rel B ?s a" by (rule store_rel_grows [OF rel intern_steps(1) [OF laws int] ok'])
  have "store_rel B s' (a\<lparr>a_inodes := (a_inodes a)(?i \<mapsto> m), a_next := a_next a\<rparr>)"
    unfolding s' by (rule store_rel_put_inode [OF rel'])
      (use intern_at(1) [OF laws int ok'] lb i rels dom in simp_all)
  then show ?thesis using r by simp
qed

lemma update_inode_refines:
  assumes laws: "blockset_laws B" and rel: "store_rel B s a" and fits: "total_size ((a_inodes a)(ino m \<mapsto> m)) < 2 ^ 64"
  shows "op_refines B (run_op B (UpdateInode m) s) (spec_op (UpdateInode m) a)"
proof (cases "a_inodes a (ino m)")
  case None
  then have "bt_get (ds_inode_data s) (ino m) = None" using denotes_None [OF store_relD(1) [OF rel]] by blast
  then show ?thesis using rel None by (simp add: refine_simps update_inode_def)
next
  case (Some m0)
  obtain s' r where run: "update_inode B m s = (s', r)" by (cases "update_inode B m s")
  show ?thesis
    using update_inode_step [OF laws rel Some fits run] Some run by (auto simp: refine_simps)
qed

lemma delete_inode_refines:
  assumes rel: "store_rel B s a"
  shows "op_refines B (run_op B (DeleteInode i) s) (spec_op (DeleteInode i) a)"
proof (cases "a_inodes a i")
  case None
  then have "bt_get (ds_inode_data s) i = None" using denotes_None [OF store_relD(1) [OF rel]] by blast
  then show ?thesis using rel None by (simp add: refine_simps delete_inode_def)
next
  case (Some m)
  note rels = store_relD [OF rel]
  obtain d where d: "bt_get (ds_inode_data s) i = Some d" "load_inode B (ds_io s) d = Ok m"
    using denotes_Some [OF rels(1) Some] load_at(1) by metis
  let ?lb = "if size m > 0 then saturating_sub (ds_logical_bytes s) (size m) else ds_logical_bytes s"
  have run: "delete_inode B i s = (s\<lparr>ds_inode_data := bt_remove i (ds_inode_data s),
      ds_inode_map := im_remove i (ds_inode_map s), ds_logical_bytes := ?lb,
      ds_inode_count := saturating_sub (ds_inode_count s) 1\<rparr>, Ok ())"
    by (simp add: delete_inode_def d loaded_size_def Let_def)
  have "unat ?lb = total_size ((a_inodes a)(i := None))"
    using total_size_split [OF rels(11) Some] rels(9)
    by (simp add: unat_saturating_sub word_greater_zero_iff)
  moreover have "unat (saturating_sub (ds_inode_count s) 1) = card (dom (a_inodes a) - {i})"
    using Some rels(10,11) by (simp add: unat_saturating_sub card_Diff_singleton domI)
  ultimately show ?thesis
    using store_rel_del_inode [OF rel] Some by (simp add: refine_simps run)
qed

lemma list_directory_refines:
  assumes rel: "store_rel B s a"
  shows "op_refines B (run_op B (ListDirectory i) s) (spec_op (ListDirectory i) a)"
  using store_relD(2) [OF rel]
proof (cases rule: denotes_cases [where k = i, consumes 1])
  case 1
  then show ?thesis using rel by (simp add: refine_simps list_directory_def)
next
  case (2 d dir)
  obtain l where "list_dir_entries B (ds_io s) d = Ok l" "lists_dir l dir"
    using list_dir_entries_correct [OF 2(3)] by (auto simp: lists_dir_def)
  then show ?thesis using rel 2 by (simp add: refine_simps list_directory_def)
qed

lemma store_lookup_refines:
  assumes laws: "blockset_laws B" and rel: "store_rel B s a"
  shows "op_refines B (run_op B (Lookup p n) s) (spec_op (Lookup p n) a)"
  using store_relD(2) [OF rel]
proof (cases rule: denotes_cases [where k = p, consumes 1])
  case 1
  then show ?thesis using rel by (simp add: refine_simps store_lookup_def)
next
  case (2 d dir)
  obtain io r where look: "lookup_dir_entry B (ds_io s) d n = (io, r)" by (cases "lookup_dir_entry B (ds_io s) d n")
  have "store_rel B (s\<lparr>ds_io := io\<rparr>) a" "r = (case dir n of None \<Rightarrow> Err (NotFound 0) | Some i \<Rightarrow> Ok i)" if "bs_ok B io"
    using lookup_dir_entry_correct [OF laws 2(3) look that] store_rel_grows [OF rel _ that] by auto
  then show ?thesis using 2 look by (auto simp: refine_simps store_lookup_def split: option.split)
qed

text \<open>Adding to and removing from a directory, for one that is in the store.\<close>

lemma add_entry_step:
  assumes laws: "blockset_laws B" and rel: "store_rel B s a"
    and dir: "bt_get (ds_dir_data s) p = Some d" "a_dirs a p = Some dir"
    and name: "name_ok n" "dir_room a p" and add: "add_dir_entry B (ds_io s) d n i = (io, r)" and ok: "bs_ok B io"
  shows "store_rel B (s\<lparr>ds_io := io\<rparr>) a \<and>
    (if n \<in> dots then r = Err (InvalidName n) else if dir n \<noteq> None then r = Err (AlreadyExists i)
     else \<exists>d'. r = Ok d' \<and> dir_is B io d' (dir(n \<mapsto> i)))"
proof -
  obtain d0 where "bt_get (ds_dir_data s) p = Some d0" "dir_is B (ds_io s) d0 dir"
    using denotes_Some [OF store_relD(2) [OF rel] dir(2)] by metis
  then have di: "dir_is B (ds_io s) d dir" using dir(1) by simp
  have room: "card (dom dir) < 2 ^ 32 - 1" using name(2) dir(2) by (simp add: dir_room_def)
  note correct = add_dir_entry_correct [OF laws di add ok _ _ room]
  show ?thesis
    using correct name(1) store_rel_grows [OF rel _ ok] by (simp add: name_ok_def dots_def)
qed

lemma store_link_refines:
  assumes laws: "blockset_laws B" and rel: "store_rel B s a" and name: "name_ok n" "dir_room a p"
  shows "op_refines B (run_op B (Link p n i) s) (spec_op (Link p n i) a)"
  using store_relD(2) [OF rel]
proof (cases rule: denotes_cases [where k = p, consumes 1])
  case 1
  then show ?thesis using rel by (simp add: refine_simps store_link_def)
next
  case (2 d dir)
  obtain io r where add: "add_dir_entry B (ds_io s) d n i = (io, r)" by (cases "add_dir_entry B (ds_io s) d n i")
  have io: "ds_io (fst (store_link B p n i s)) = io"
    using 2 add by (simp add: store_link_def split: sum.split)
  show ?thesis unfolding op_refines_def
  proof
    assume "bs_ok B (ds_io (fst (run_op B (Link p n i) s)))"
    then have "bs_ok B io" by (simp add: respond_def io)
    note step = add_entry_step [OF laws rel 2(1,2) name add this]
    then show "store_rel B (fst (run_op B (Link p n i) s)) (fst (spec_op (Link p n i) a)) \<and>
        same_resp (snd (run_op B (Link p n i) s)) (snd (spec_op (Link p n i) a))"
      using 2 add store_rel_put(1) [of B "s\<lparr>ds_io := io\<rparr>" a]
      by (auto simp: respond_def same_resp_def store_link_def split: if_splits)
  qed
qed

lemma store_unlink_refines:
  assumes laws: "blockset_laws B" and rel: "store_rel B s a"
  shows "op_refines B (run_op B (Unlink p n) s) (spec_op (Unlink p n) a)"
  using store_relD(2) [OF rel]
proof (cases rule: denotes_cases [where k = p, consumes 1])
  case 1
  then show ?thesis using rel by (simp add: refine_simps store_unlink_def)
next
  case (2 d dir)
  obtain io r where rem: "remove_dir_entry B (ds_io s) d n = (io, r)" by (cases "remove_dir_entry B (ds_io s) d n")
  have io: "ds_io (fst (store_unlink B p n s)) = io"
    using 2 rem by (simp add: store_unlink_def split: sum.split)
  show ?thesis unfolding op_refines_def
  proof
    assume "bs_ok B (ds_io (fst (run_op B (Unlink p n) s)))"
    then have ok: "bs_ok B io" by (simp add: respond_def io)
    note step = remove_dir_entry_correct [OF laws 2(3) rem ok]
    have "store_rel B (s\<lparr>ds_io := io\<rparr>) a" by (rule store_rel_grows [OF rel step(1) ok])
    then show "store_rel B (fst (run_op B (Unlink p n) s)) (fst (spec_op (Unlink p n) a)) \<and>
        same_resp (snd (run_op B (Unlink p n) s)) (snd (spec_op (Unlink p n) a))"
      using 2 rem step(2) store_rel_put(1) [of B "s\<lparr>ds_io := io\<rparr>" a]
      by (auto simp: respond_def same_resp_def store_unlink_def dots_def split: if_splits)
  qed
qed

lemma update_inode_count:
  "update_inode B m (s\<lparr>ds_inode_count := c\<rparr>) =
     ((fst (update_inode B m s))\<lparr>ds_inode_count := c\<rparr>, snd (update_inode B m s))"
  "ds_inode_count (fst (update_inode B m s)) = ds_inode_count s"
  by (simp_all add: update_inode_def Let_def split: option.split prod.split)

text \<open>
  The successful branch of \<^verbatim>\<open>create_directory\<close>: the store after the three maps are updated, then the
  update of the parent's link count.
\<close>

lemma create_directory_insert:
  assumes laws: "blockset_laws B" and rel: "store_rel B s a" and next_ok: "a_next a \<noteq> u64_max" and sz: "size m = 0"
    and i: "i = a_next a" "ino m = i" and ok: "bs_ok B (ds_io s)" and p: "a_inodes a p = Some pm"
    and at: "inode_at B (ds_io s) d1 m" "dir_is B (ds_io s) d2 sub" "dir_is B (ds_io s) d3 dir"
    and im: "im = (ds_inode_map s)\<lparr>im_next_ino := i + 1\<rparr>"
    and s1: "s1 = s\<lparr>ds_inode_map := im_insert i d1 im, ds_inode_data := bt_insert i d1 (ds_inode_data s),
      ds_dir_data := bt_insert p d3 (bt_insert i d2 (ds_dir_data s))\<rparr>"
    and upd: "update_inode B (pm\<lparr>nlinks := nlinks pm + 1\<rparr>) s1 = (s2, r)"
  shows "get_inode B p s1 = Ok pm" and "bs_ok B (ds_io s2) \<Longrightarrow> r = Ok () \<and>
    store_rel B (s2\<lparr>ds_inode_count := ds_inode_count s2 + 1\<rparr>)
      (a\<lparr>a_next := i + 1, a_inodes := (a_inodes a)(i \<mapsto> m, p \<mapsto> pm\<lparr>nlinks := nlinks pm + 1\<rparr>),
         a_dirs := (a_dirs a)(i \<mapsto> sub, p \<mapsto> dir)\<rparr>)"
proof -
  note rels = store_relD [OF rel]
  let ?a1 = "a\<lparr>a_inodes := (a_inodes a)(i \<mapsto> m), a_next := i + 1,
    a_dirs := ((a_dirs a)(i \<mapsto> sub))(p \<mapsto> dir)\<rparr>"
  let ?s1 = "s1\<lparr>ds_inode_count := ds_inode_count s + 1\<rparr>" and ?pm = "pm\<lparr>nlinks := nlinks pm + 1\<rparr>"
  have new: "i \<notin> dom (a_inodes a)" and fresh: "a_inodes a i = None" using rels(8) i(1) by blast+
  have p_ino: "ino pm = p" "p \<noteq> i" using rels(8) [OF p] i(1) by auto
  have le: "a_next a \<le> i + 1" "i < i + 1" using u64_self_less_succ [OF next_ok] i(1) by auto
  have tot: "total_size ((a_inodes a)(i \<mapsto> m)) = total_size (a_inodes a)"
    using total_size_new [OF rels(11) fresh, of m] sz by simp
  have "store_rel B (s\<lparr>ds_inode_map := im_insert i d1 im, ds_inode_data := bt_insert i d1 (ds_inode_data s),
      ds_logical_bytes := ds_logical_bytes s, ds_inode_count := ds_inode_count s + 1\<rparr>)
      (a\<lparr>a_inodes := (a_inodes a)(i \<mapsto> m), a_next := i + 1\<rparr>)"
    by (rule store_rel_put_inode [OF rel at(1) i(2)])
      (use im rels le tot inode_count_succ [OF rel next_ok new] in simp_all)
  from store_rel_put(1) [OF store_rel_put(1) [OF this, of d2 sub i], of d3 dir p]
  have rel1: "store_rel B ?s1 ?a1" using at(2,3) by (cases s) (simp add: s1)
  show "get_inode B p s1 = Ok pm"
    using get_inode_at [OF rel1, of p] p p_ino by (simp add: get_inode_def cong: option.case_cong)
  have finite: "finite (dom ((a_inodes a)(i \<mapsto> m)))" using rels(11) by simp
  have "total_size ((a_inodes ?a1)(p \<mapsto> ?pm)) = total_size (a_inodes a)"
    using total_size_insert [OF finite, of p ?pm] total_size_split [OF finite, of p pm] p p_ino tot by simp
  moreover have "total_size (a_inodes a) < 2 ^ 64" using unat_u64_less [of "ds_logical_bytes s"] rels(9) by simp
  ultimately have fits: "total_size ((a_inodes ?a1)(ino ?pm \<mapsto> ?pm)) < 2 ^ 64" using p_ino by simp
  have upd': "update_inode B ?pm ?s1 = (s2\<lparr>ds_inode_count := ds_inode_count s + 1\<rparr>, r)"
    by (simp add: update_inode_count(1) upd)
  have cnt: "ds_inode_count s2 = ds_inode_count s"
    using update_inode_count(2) [of B ?pm s1] upd s1 by simp
  have old: "a_inodes ?a1 (ino ?pm) = Some pm" using p p_ino by simp
  assume "bs_ok B (ds_io s2)"
  with update_inode_step [OF laws rel1 old fits upd'] cnt p_ino
  show "r = Ok () \<and> store_rel B (s2\<lparr>ds_inode_count := ds_inode_count s2 + 1\<rparr>)
      (a\<lparr>a_next := i + 1, a_inodes := (a_inodes a)(i \<mapsto> m, p \<mapsto> pm\<lparr>nlinks := nlinks pm + 1\<rparr>),
         a_dirs := (a_dirs a)(i \<mapsto> sub, p \<mapsto> dir)\<rparr>)" by (cases a) simp
qed

lemma create_directory_refines:
  assumes laws: "blockset_laws B" and rel: "store_rel B s a" and next_ok: "a_next a \<noteq> u64_max" and sz: "size m = 0"
    and name: "name_ok n" "dir_room a p"
  shows "op_refines B (run_op B (CreateDirectory p n m) s) (spec_op (CreateDirectory p n m) a)"
proof -
  note rels = store_relD [OF rel]
  show ?thesis
  proof (cases "\<exists>pm dir. a_inodes a p = Some pm \<and> is_dir_mode (mode pm) \<and> a_dirs a p = Some dir")
    case False
    moreover have "bt_get (ds_dir_data s) p = None \<longleftrightarrow> a_dirs a p = None" by (rule denotes_None [OF rels(2)])
    ultimately show ?thesis using rel
      by (auto simp: refine_simps create_directory_def spec_create_directory_def get_inode_at [OF rel] split: option.split)
  next
    case True
    then obtain pm dir where p: "a_inodes a p = Some pm" "is_dir_mode (mode pm)" and dir: "a_dirs a p = Some dir" by blast
    obtain d where d: "bt_get (ds_dir_data s) p = Some d" using denotes_Some [OF rels(2) dir] by blast
    let ?i = "a_next a"
    let ?m = "m\<lparr>ino := ?i, mode := if is_dir_mode (mode m) then mode m else mode m OR S_IFDIR\<rparr>"
    let ?im = "(ds_inode_map s)\<lparr>im_next_ino := ?i + 1\<rparr>"
    obtain io1 d1 where int: "intern_inode B (ds_io s) ?m = (io1, d1)" by (cases "intern_inode B (ds_io s) ?m")
    obtain io2 d2 where sub: "create_dir_entries B io1 ?i p = (io2, d2)" by (cases "create_dir_entries B io1 ?i p")
    obtain io3 r where add: "add_dir_entry B io2 d n ?i = (io3, r)" by (cases "add_dir_entry B io2 d n ?i")
    define s' where "s' = s\<lparr>ds_io := io3\<rparr>"
    let ?run = "create_directory B p n m s"
    define s1 where "s1 = (\<lambda>d3. s'\<lparr>ds_inode_map := im_insert ?i d1 ?im, ds_inode_data := bt_insert ?i d1 (ds_inode_data s'),
      ds_dir_data := bt_insert p d3 (bt_insert ?i d2 (ds_dir_data s'))\<rparr>)"
    have run: "?run = (case r of
        Err e \<Rightarrow> (s'\<lparr>ds_inode_map := ?im\<rparr>, Err e)
      | Ok d3 \<Rightarrow> (case get_inode B p (s1 d3) of
          Err e \<Rightarrow> (s1 d3, Err e)
        | Ok pm \<Rightarrow> (case update_inode B (pm\<lparr>nlinks := nlinks pm + 1\<rparr>) (s1 d3) of
             (s, Err e) \<Rightarrow> (s, Err e)
           | (s, Ok _) \<Rightarrow> (s\<lparr>ds_inode_count := ds_inode_count s + 1\<rparr>, Ok ?i))))"
      using p d int sub add
      by (cases "is_dir_mode (mode m)")
        (simp_all add: create_directory_def get_inode_at [OF rel] allocate_ino_def Let_def rels(7) s'_def s1_def
          split: sum.split)
    have io: "bs_grows B (ds_io s) io1" "bs_grows B io1 io2" "bs_grows B io2 io3"
      using intern_steps(1) [OF laws int] dir_entry_ops_grow(1,2) [OF laws, THEN bs_grows_step] sub add by blast+
    have io3: "ds_io s' = io3" "ds_io (s1 d3) = io3" for d3 by (simp_all add: s'_def s1_def)
    have "bs_grows B io3 (ds_io t)" if "update_inode B x (s1 d3) = (t, y)" for x d3 t y
      using store_ops_grow(2) [OF laws, of "s1 d3" x] that by (simp add: io3)
    then have final: "bs_grows B io3 (ds_io (fst ?run))"
      by (auto simp: run io3 split: sum.split prod.split)
    show ?thesis unfolding op_refines_def
    proof
      assume "bs_ok B (ds_io (fst (run_op B (CreateDirectory p n m) s)))"
      then have ok: "bs_ok B (ds_io (fst ?run))" by (simp add: respond_def)
      then have ok3: "bs_ok B io3" using bs_growsD(1) [OF final] by blast
      have ok2: "bs_ok B io2" using bs_growsD(1) [OF io(3) ok3] .
      have ok1: "bs_ok B io1" using bs_growsD(1) [OF io(2) ok2] .
      have rel2: "store_rel B (s\<lparr>ds_io := io2\<rparr>) a"
        by (rule store_rel_grows [OF rel bs_grows_trans [OF io(1,2)] ok2])
      have add': "add_dir_entry B (ds_io (s\<lparr>ds_io := io2\<rparr>)) d n ?i = (io3, r)" using add by simp
      note entry = add_entry_step [OF laws rel2 _ dir name add' ok3, simplified, OF d, folded s'_def]
      show "store_rel B (fst (run_op B (CreateDirectory p n m) s)) (fst (spec_op (CreateDirectory p n m) a)) \<and>
        same_resp (snd (run_op B (CreateDirectory p n m) s)) (snd (spec_op (CreateDirectory p n m) a))"
      proof (cases r)
        case (Inl e)
        have "store_rel B (s'\<lparr>ds_inode_map := ?im\<rparr>) (a\<lparr>a_next := ?i + 1\<rparr>)"
          by (rule store_rel_put(6)) (use entry rels u64_self_less_succ [OF next_ok] in \<open>auto simp: s'_def\<close>)
        then show ?thesis using entry Inl p dir
          by (auto simp: respond_def run same_resp_def spec_create_directory_def Let_def split: if_splits)
      next
        case (Inr d3)
        let ?pm = "pm\<lparr>nlinks := nlinks pm + 1\<rparr>" and ?sub = "[str ''.'' \<mapsto> ?i, str ''..'' \<mapsto> p]"
        have n: "n \<notin> dots" "dir n = None" "dir_is B io3 d3 (dir(n \<mapsto> ?i))" using entry Inr by (auto split: if_splits)
        have "inode_at B io3 d1 ?m"
          using at_grows(1) [OF bs_grows_trans [OF io(2,3)] ok3 intern_at(1) [OF laws int ok1]] .
        moreover have "dir_is B io3 d2 ?sub"
          by (rule dir_is_grows [OF io(3) ok3 create_dir_entries_correct(2) [OF laws sub ok2]])
        moreover obtain s2 r2 where upd: "update_inode B ?pm (s1 d3) = (s2, r2)" by (cases "update_inode B ?pm (s1 d3)")
        ultimately have ins: "get_inode B p (s1 d3) = Ok pm"
          "bs_ok B (ds_io s2) \<Longrightarrow> r2 = Ok () \<and> store_rel B (s2\<lparr>ds_inode_count := ds_inode_count s2 + 1\<rparr>)
            (a\<lparr>a_next := ?i + 1, a_inodes := (a_inodes a)(?i \<mapsto> ?m, p \<mapsto> ?pm),
               a_dirs := (a_dirs a)(?i \<mapsto> ?sub, p \<mapsto> dir(n \<mapsto> ?i))\<rparr>)"
          using create_directory_insert [of B s' a ?m ?i p pm d1 d2 ?sub d3 "dir(n \<mapsto> ?i)" ?im "s1 d3" s2 r2]
            laws entry next_ok sz p(1) n(3) ok3 by (simp_all add: s'_def s1_def)
        have "bs_ok B (ds_io s2)" using ok ins(1) Inr upd by (simp add: run split: sum.splits)
        with ins Inr upd n p dir show ?thesis
          by (simp add: respond_def run same_resp_def spec_create_directory_def Let_def)
      qed
    qed
  qed
qed

lemma set_manifest_refines:
  assumes laws: "blockset_laws B" and rel: "store_rel B s a"
  shows "op_refines B (run_op B (SetManifest i bl) s) (spec_op (SetManifest i bl) a)"
proof -
  obtain io d where int: "intern_manifest B (ds_io s) bl = (io, d)" by (cases "intern_manifest B (ds_io s) bl")
  have "store_rel B (s\<lparr>ds_io := io, ds_manifest_data := bt_insert i d (ds_manifest_data s)\<rparr>)
      (a\<lparr>a_manifests := (a_manifests a)(i \<mapsto> bl)\<rparr>)" if ok: "bs_ok B io"
    using store_rel_put(2) [OF store_rel_grows [OF rel intern_steps(2) [OF laws int] ok], of d bl i]
      intern_at(2) [OF laws int ok] by simp
  then show ?thesis using int by (simp add: refine_simps set_manifest_def)
qed

lemma get_manifest_refines:
  assumes rel: "store_rel B s a"
  shows "op_refines B (run_op B (GetManifest i) s) (spec_op (GetManifest i) a)"
  using store_relD(3) [OF rel]
  by (rule denotes_cases [where k = i]) (use rel in \<open>simp_all add: refine_simps get_manifest_def load_at\<close>)

lemma set_xattr_refines:
  assumes laws: "blockset_laws B" and rel: "store_rel B s a" and name: "name_ok n" "length v < 2 ^ 32"
  shows "op_refines B (run_op B (SetXattr i n v) s) (spec_op (SetXattr i n v) a)"
proof -
  define xs where "xs = (case a_xattrs a i of None \<Rightarrow> [] | Some xs \<Rightarrow> xs)"
  note cases = denotes_cases [OF store_relD(4) [OF rel], where k = i]
  have load: "(case bt_get (ds_xattr_data s) i of Some d \<Rightarrow> load_xattrs B (ds_io s) d | None \<Rightarrow> Ok []) = Ok xs"
    by (rule cases) (simp_all add: xs_def load_at)
  have ok: "xattrs_ok xs"
    by (rule cases) (simp_all add: xs_def xattrs_at_def xattrs_ok_def)
  let ?xs = "set_xattr_entry n v xs"
  have ok': "xattrs_ok ?xs" using name ok by (simp add: name_ok_def set_xattr_entry_ok)
  obtain io d where int: "intern_xattrs B (ds_io s) ?xs = (io, d)" by (cases "intern_xattrs B (ds_io s) ?xs")
  have "store_rel B (s\<lparr>ds_io := io, ds_xattr_data := bt_insert i d (ds_xattr_data s)\<rparr>)
      (a\<lparr>a_xattrs := (a_xattrs a)(i \<mapsto> ?xs)\<rparr>)" if ok: "bs_ok B io"
    using store_rel_put(3) [OF store_rel_grows [OF rel intern_steps(3) [OF laws int] ok], of d ?xs i]
      intern_at(3) [OF laws ok' int ok] by simp
  then show ?thesis using int load by (simp add: refine_simps set_xattr_def flip: xs_def)
qed

lemma get_xattr_refines:
  assumes rel: "store_rel B s a"
  shows "op_refines B (run_op B (GetXattr i n) s) (spec_op (GetXattr i n) a)"
    and "op_refines B (run_op B (ListXattrs i) s) (spec_op (ListXattrs i) a)"
  by (rule denotes_cases [OF store_relD(4) [OF rel], where k = i],
      use rel in \<open>simp_all add: refine_simps get_xattr_def list_xattrs_def load_at get_xattr_entry_map_of
        list_xattr_names_def split: option.split\<close>)+

lemma remove_xattr_refines:
  assumes laws: "blockset_laws B" and rel: "store_rel B s a"
  shows "op_refines B (run_op B (RemoveXattr i n) s) (spec_op (RemoveXattr i n) a)"
  using store_relD(4) [OF rel]
proof (cases rule: denotes_cases [where k = i, consumes 1])
  case 1
  then show ?thesis using rel by (simp add: refine_simps remove_xattr_def)
next
  case (2 d0 xs)
  let ?xs = "filter (\<lambda>(k, _). k \<noteq> n) xs"
  obtain removed where rem: "remove_xattr_entry n xs = (?xs, removed)" by (simp add: remove_xattr_entry_def Let_def)
  have removed: "removed \<longleftrightarrow> n \<in> fst ` set xs"
    using remove_xattr_entry_found [of n xs] rem by (simp add: map_of_eq_None_iff)
  have ok': "xattrs_ok ?xs" using remove_xattr_entry_ok [of xs n] 2(3) rem by (simp add: xattrs_at_def)
  obtain io d where int: "intern_xattrs B (ds_io s) ?xs = (io, d)" by (cases "intern_xattrs B (ds_io s) ?xs")
  have "store_rel B (s\<lparr>ds_io := io, ds_xattr_data := bt_insert i d (ds_xattr_data s)\<rparr>)
      (a\<lparr>a_xattrs := (a_xattrs a)(i \<mapsto> ?xs)\<rparr>)" if ok: "bs_ok B io"
    using store_rel_put(3) [OF store_rel_grows [OF rel intern_steps(3) [OF laws int] ok], of d ?xs i]
      intern_at(3) [OF laws ok' int ok] by simp
  then show ?thesis using int rem removed rel 2 load_at(3) [OF 2(3)]
    by (auto simp: refine_simps remove_xattr_def)
qed

lemma refcount_refines:
  assumes rel: "store_rel B s a"
  shows "op_refines B (run_op B (IncrementRefcount d) s) (spec_op (IncrementRefcount d) a)"
    and "op_refines B (run_op B (DecrementRefcount d) s) (spec_op (DecrementRefcount d) a)"
    and "op_refines B (run_op B (GetRefcount d) s) (spec_op (GetRefcount d) a)"
proof -
  have get: "bt_get (ds_refcounts s) d = a_refs a d"
    by (rule denotes_cases [OF store_relD(5) [OF rel], where k = d]) simp_all
  show "op_refines B (run_op B (IncrementRefcount d) s) (spec_op (IncrementRefcount d) a)"
    using store_rel_put(4) [OF rel, of d] get
    by (simp add: refine_simps increment_refcount_def refcount_inc_def Let_def)
  have keep: "store_rel B s (a\<lparr>a_refs := (a_refs a)(d := x)\<rparr>)" if "a_refs a d = x" for x
    using rel that by (simp add: fun_upd_idem)
  show "op_refines B (run_op B (DecrementRefcount d) s) (spec_op (DecrementRefcount d) a)"
    using store_rel_put(4,5) [OF rel, of d] get
    by (auto simp: refine_simps decrement_refcount_def refcount_dec_def split: option.split intro: keep)
  show "op_refines B (run_op B (GetRefcount d) s) (spec_op (GetRefcount d) a)"
    using rel get by (simp add: refine_simps get_refcount_def)
qed

lemma store_rel_log [simp]: "store_rel B (log_wal_entry F e s) a \<longleftrightarrow> store_rel B s a"
  by (simp add: log_wal_entry_def store_rel_def split: option.split)

lemma commit_steps:
  obtains io1 d1 io2 d2 io3 d3 io4 d4 io5 d5 io6 d6 io root where
    "intern_inode_map B (ds_io s) (ds_inode_map s) = (io1, d1)"
    "intern_u64_digest_map B io1 (ds_inode_data s) = (io2, d2)"
    "intern_u64_digest_map B io2 (ds_dir_data s) = (io3, d3)"
    "intern_u64_digest_map B io3 (ds_manifest_data s) = (io4, d4)"
    "intern_u64_digest_map B io4 (ds_xattr_data s) = (io5, d5)"
    "intern_digest224_u64_map B io5 (ds_refcounts s) = (io6, d6)"
    "push_all B io6 (root_record d1 (im_next_ino (ds_inode_map s)) d2 d3 d4 d5 d6) = (io, root)"
    "commit B F s = (log_wal_entry F (WalRootUpdate root) (s\<lparr>ds_io := io, ds_last_root := Some root\<rparr>), Ok root)"
proof -
  obtain io1 d1 where 1: "intern_inode_map B (ds_io s) (ds_inode_map s) = (io1, d1)" by (metis surj_pair)
  obtain io2 d2 where 2: "intern_u64_digest_map B io1 (ds_inode_data s) = (io2, d2)" by (metis surj_pair)
  obtain io3 d3 where 3: "intern_u64_digest_map B io2 (ds_dir_data s) = (io3, d3)" by (metis surj_pair)
  obtain io4 d4 where 4: "intern_u64_digest_map B io3 (ds_manifest_data s) = (io4, d4)" by (metis surj_pair)
  obtain io5 d5 where 5: "intern_u64_digest_map B io4 (ds_xattr_data s) = (io5, d5)" by (metis surj_pair)
  obtain io6 d6 where 6: "intern_digest224_u64_map B io5 (ds_refcounts s) = (io6, d6)" by (metis surj_pair)
  obtain io root where 7: "push_all B io6 (root_record d1 (im_next_ino (ds_inode_map s)) d2 d3 d4 d5 d6) = (io, root)"
    by (metis surj_pair)
  show thesis by (rule that [OF 1 2 3 4 5 6 7]) (simp add: commit_def 1 2 3 4 5 6 7)
qed

lemma commit_refines:
  assumes laws: "blockset_laws B" and rel: "store_rel B s a"
  shows "op_refines B (run_op B (Commit F) s) (spec_op (Commit F) a)"
proof -
  obtain io d where run: "commit B F s = (log_wal_entry F (WalRootUpdate d) (s\<lparr>ds_io := io, ds_last_root := Some d\<rparr>), Ok d)"
    by (rule commit_steps)
  have grows: "bs_grows B (ds_io s) io" using commit_grows [OF laws, of s F] by (simp add: run)
  have "store_rel B (s\<lparr>ds_io := io, ds_last_root := Some d\<rparr>) a" if "bs_ok B io"
    using store_rel_grows [OF rel grows that] by (simp add: store_rel_def)
  then show ?thesis by (simp add: refine_simps run)
qed

lemma run_op_refines:
  assumes laws: "blockset_laws B" and rel: "store_rel B s a" and "op_allowed oper a"
  shows "op_refines B (run_op B oper s) (spec_op oper a)"
proof (cases oper)
  case (GetInode i)
  then show ?thesis using rel by (simp add: refine_simps get_inode_at split: option.split)
next
  case LogicalBytes
  then show ?thesis using rel by (simp add: refine_simps flip: store_relD(9))
next
  case InodeCount
  then show ?thesis using rel by (simp add: refine_simps flip: store_relD(10))
qed (use assms in \<open>simp_all only: op_allowed_def meta_op.case simp_thms create_inode_refines update_inode_refines
  delete_inode_refines create_directory_refines list_directory_refines store_lookup_refines store_link_refines
  store_unlink_refines set_manifest_refines get_manifest_refines set_xattr_refines get_xattr_refines
  remove_xattr_refines refcount_refines commit_refines\<close>)

lemma store_new_rel:
  assumes laws: "blockset_laws B" and ok: "bs_ok B (ds_io (store_new B u g io))"
  shows "store_rel B (store_new B u g io) (meta_init u g)"
proof -
  define m where "m = new_directory 1 u g (S_IFDIR OR 0x1ED)"
  obtain io1 d1 where int: "intern_inode B io m = (io1, d1)" by (cases "intern_inode B io m")
  obtain io2 d2 where sub: "create_dir_entries B io1 1 1 = (io2, d2)" by (cases "create_dir_entries B io1 1 1")
  have new: "store_new B u g io =
      \<lparr>ds_io = io2, ds_inode_map = im_insert 1 d1 inode_map_new, ds_inode_data = bt_insert 1 d1 [],
       ds_dir_data = bt_insert 1 d2 [], ds_manifest_data = [], ds_xattr_data = [], ds_refcounts = [],
       ds_logical_bytes = 0, ds_inode_count = 1, ds_wal = None, ds_last_root = None,
       ds_by_version = [], ds_by_name = Map.empty\<rparr>"
    using int sub by (simp add: store_new_def m_def)
  have ok2: "bs_ok B io2" using ok new by simp
  note sub_ok = create_dir_entries_correct [OF laws sub ok2]
  have "inode_at B io2 d1 m"
    using at_grows(1) [OF sub_ok(1) ok2] intern_at(1) [OF laws int] bs_growsD(1) [OF sub_ok(1) ok2] by blast
  with sub_ok(2) show ?thesis
    unfolding new store_rel_def meta_init_def
    by (simp add: denotes_empty denotes_insert im_insert_def inode_map_new_def total_size_def m_def
        new_directory_def del: bt_insert.simps)
qed

subsection \<open>Sequences of operations\<close>

fun run_all :: "('o \<Rightarrow> 's \<Rightarrow> 's \<times> 'r) \<Rightarrow> 'o list \<Rightarrow> 's \<Rightarrow> 's \<times> 'r list" where
  "run_all step [] s = (s, [])"
| "run_all step (oper # opers) s =
     (let (s, r) = step oper s; (s, rs) = run_all step opers s in (s, r # rs))"

fun run_allowed :: "('o \<Rightarrow> 's \<Rightarrow> bool) \<Rightarrow> ('o \<Rightarrow> 's \<Rightarrow> 's \<times> 'r) \<Rightarrow> 'o list \<Rightarrow> 's \<Rightarrow> bool" where
  "run_allowed ok step [] s = True"
| "run_allowed ok step (oper # opers) s = (ok oper s \<and> run_allowed ok step opers (fst (step oper s)))"

text \<open>
  A forward simulation. \<open>good\<close> is what the implementation needs of its final state; it holds of
  every earlier state, since nothing that went wrong before can be undone.
\<close>

locale simulation =
  fixes cstep :: "'o \<Rightarrow> 'c \<Rightarrow> 'c \<times> 'r" and astep :: "'o \<Rightarrow> 'a \<Rightarrow> 'a \<times> 'q"
    and allowed :: "'o \<Rightarrow> 'a \<Rightarrow> bool" and rel :: "'c \<Rightarrow> 'a \<Rightarrow> bool" and good :: "'c \<Rightarrow> bool"
    and same :: "'r \<Rightarrow> 'q \<Rightarrow> bool"
  assumes step_rel: "rel c a \<Longrightarrow> allowed oper a \<Longrightarrow> good (fst (cstep oper c)) \<Longrightarrow>
      rel (fst (cstep oper c)) (fst (astep oper a)) \<and> same (snd (cstep oper c)) (snd (astep oper a))"
    and good_before: "good (fst (cstep oper c)) \<Longrightarrow> good c"
begin

lemma good_start: "good (fst (run_all cstep opers c)) \<Longrightarrow> good c"
proof (induction opers arbitrary: c)
  case (Cons oper opers)
  then have "good (fst (cstep oper c))" by (auto simp: split_def Let_def)
  then show ?case by (rule good_before)
qed simp

lemma runs_rel:
  "rel c a \<Longrightarrow> run_allowed allowed astep opers a \<Longrightarrow> good (fst (run_all cstep opers c)) \<Longrightarrow>
   rel (fst (run_all cstep opers c)) (fst (run_all astep opers a)) \<and>
   list_all2 same (snd (run_all cstep opers c)) (snd (run_all astep opers a))"
proof (induction opers arbitrary: c a)
  case (Cons oper opers)
  have good': "good (fst (run_all cstep opers (fst (cstep oper c))))"
    using Cons.prems(3) by (simp add: split_def Let_def)
  then have "good (fst (cstep oper c))" by (rule good_start)
  then have "rel (fst (cstep oper c)) (fst (astep oper a))" "same (snd (cstep oper c)) (snd (astep oper a))"
    using step_rel Cons.prems(1,2) by auto
  then show ?case using Cons.IH good' Cons.prems(2) by (simp add: split_def Let_def)
qed simp

end

interpretation store_sim: simulation "run_op B" spec_op op_allowed "store_rel B"
  "\<lambda>s. blockset_laws B \<and> bs_ok B (ds_io s)" same_resp
proof
  fix s a oper
  assume "store_rel B s a" "op_allowed oper a" "blockset_laws B \<and> bs_ok B (ds_io (fst (run_op B oper s)))"
  then show "store_rel B (fst (run_op B oper s)) (fst (spec_op oper a)) \<and>
      same_resp (snd (run_op B oper s)) (snd (spec_op oper a))"
    using run_op_refines unfolding op_refines_def by blast
next
  fix s oper
  assume "blockset_laws B \<and> bs_ok B (ds_io (fst (run_op B oper s)))"
  then show "blockset_laws B \<and> bs_ok B (ds_io s)" using bs_growsD(1) [OF run_op_grows] by blast
qed

subsection \<open>Runs on the concrete storage\<close>

text \<open>
  On \<open>list_blockset\<close> no operation stores more than eight nodes, so short runs stay within what its
  digests can tell apart.
\<close>

definition few_pushes :: "nat \<Rightarrow> bytes list \<Rightarrow> bytes list \<Rightarrow> bool" where
  "few_pushes n io io' \<longleftrightarrow> (distinct io \<longrightarrow> distinct io' \<and> length io' \<le> length io + n)"

lemma few_pushes_refl [simp]: "few_pushes n io io"
  by (simp add: few_pushes_def)

lemma few_pushes_trans: "few_pushes m io io' \<Longrightarrow> few_pushes n io' io'' \<Longrightarrow> m + n \<le> k \<Longrightarrow> few_pushes k io io''"
  by (auto simp: few_pushes_def)

lemma push_all_few: "push_all list_blockset io xs = (io', d) \<Longrightarrow> few_pushes 1 io io'"
  by (auto simp: list_blockset_def list_push_def few_pushes_def split: if_splits)

lemmas list_intern_few =
  push_all_few
  push_all_few [where xs = "serialize_inode m" for m, folded intern_inode_def]
  push_all_few [where xs = "serialize_manifest bl" for bl, folded intern_manifest_def]
  push_all_few [where xs = "serialize_xattrs xs" for xs, folded intern_xattrs_def]
  push_all_few [where xs = n for n, folded entry_key_def]
  push_all_few [where xs = "serialize_entry_list es" for es, folded intern_entry_list_def]
  push_all_few [where xs = "serialize_inode_map im" for im, folded intern_inode_map_def]
  push_all_few [where xs = "u64_to_le (of_nat (length dm)) @ concat (map enc_ino_digest dm)" for dm,
    folded intern_u64_digest_map_def]
  push_all_few [where xs = "u64_to_le (of_nat (length rm)) @ concat (map enc_digest_count rm)" for rm,
    folded intern_digest224_u64_map_def]

lemma list_dir_few:
  "create_dir_entries list_blockset io i p = (io', d) \<Longrightarrow> few_pushes 3 io io'"
  "add_dir_entry list_blockset io d n i = (io', r) \<Longrightarrow> few_pushes 2 io io'"
  "remove_dir_entry list_blockset io d n = (io', r) \<Longrightarrow> few_pushes 2 io io'"
  "lookup_dir_entry list_blockset io d n = (io', r') \<Longrightarrow> few_pushes 1 io io'"
  by (auto simp: create_dir_entries_def add_dir_entry_def remove_dir_entry_def lookup_dir_entry_def Let_def
      simp del: bt_insert.simps split: sum.splits prod.splits if_splits dest!: list_intern_few)
    (auto simp: few_pushes_def)

lemma update_inode_few: "update_inode list_blockset m s = (s', r) \<Longrightarrow> few_pushes 1 (ds_io s) (ds_io s')"
  by (auto simp: update_inode_def Let_def split: prod.splits option.splits if_splits dest!: list_intern_few)

lemma create_directory_few:
  "create_directory list_blockset p n m s = (s', r) \<Longrightarrow> few_pushes 7 (ds_io s) (ds_io s')"
  by (auto simp: create_directory_def Let_def allocate_ino_def simp del: bt_insert.simps
      split: prod.splits option.splits sum.splits if_splits dest!: list_intern_few list_dir_few update_inode_few)
    (auto simp: few_pushes_def)

lemma commit_few: "few_pushes 7 (ds_io s) (ds_io (fst (commit list_blockset F s)))"
  by (rule commit_steps [of list_blockset s F]) (auto dest!: list_intern_few simp: few_pushes_def)

lemma run_op_few: "few_pushes 8 (ds_io s) (ds_io (fst (run_op list_blockset oper s)))"
proof (cases oper)
  case (CreateDirectory p n m)
  then show ?thesis using create_directory_few [of p n m s]
    by (cases "create_directory list_blockset p n m s") (auto simp: respond_def few_pushes_def)
next
  case (Commit F)
  then show ?thesis using commit_few [of s F] by (auto simp: respond_def few_pushes_def)
next
  case (UpdateInode m)
  then show ?thesis using update_inode_few [of m s]
    by (cases "update_inode list_blockset m s") (auto simp: respond_def few_pushes_def)
qed (auto simp: respond_def create_inode_def delete_inode_def store_lookup_def store_link_def store_unlink_def
    set_manifest_def set_xattr_def remove_xattr_def increment_refcount_def decrement_refcount_def Let_def
    split: prod.splits option.splits sum.splits dest!: list_intern_few list_dir_few,
    auto simp: few_pushes_def)

lemma run_all_few: "few_pushes (8 * length opers) (ds_io s) (ds_io (fst (run_all (run_op list_blockset) opers s)))"
proof (induction opers arbitrary: s)
  case (Cons oper opers)
  then show ?case
    using few_pushes_trans [OF run_op_few [of s oper] Cons.IH] by (simp add: split_def Let_def)
qed simp

lemma store_new_few: "few_pushes 4 io (ds_io (store_new list_blockset u g io))"
  by (auto simp: store_new_def Let_def simp del: bt_insert.simps split: prod.splits
      dest!: list_intern_few list_dir_few) (auto simp: few_pushes_def)

lemma list_run_ok:
  assumes "8 * length opers + 4 < 4294967296"
  shows "bs_ok list_blockset (ds_io (fst (run_all (run_op list_blockset) opers (store_new list_blockset u g []))))"
proof -
  have "few_pushes (8 * length opers + 4) [] (ds_io (fst (run_all (run_op list_blockset) opers (store_new list_blockset u g []))))"
    by (rule few_pushes_trans [OF store_new_few run_all_few]) simp
  then show ?thesis using assms by (auto simp: few_pushes_def list_blockset_def)
qed

subsection \<open>Properties\<close>

text \<open>
  C1. The metadata store implements its specification: for every sequence of operations on a new
  store, every response is the one of the operations on finite maps (a listing has each entry
  once), errors included, and at the end every map of the store denotes the abstract map, the
  byte and inode counters are exact and the allocator is above all inode numbers.
\<close>

theorem store_refines_spec:
  assumes "blockset_laws B" and "run_allowed op_allowed spec_op opers (meta_init u g)"
    and "bs_ok B (ds_io (fst (run_all (run_op B) opers (store_new B u g io))))"
  shows "store_rel B (fst (run_all (run_op B) opers (store_new B u g io))) (fst (run_all spec_op opers (meta_init u g))) \<and>
    list_all2 same_resp (snd (run_all (run_op B) opers (store_new B u g io)))
      (snd (run_all spec_op opers (meta_init u g)))"
proof (rule store_sim.runs_rel)
  have "bs_ok B (ds_io (store_new B u g io))" using store_sim.good_start assms(1,3) by blast
  then show "store_rel B (store_new B u g io) (meta_init u g)" by (rule store_new_rel [OF assms(1)])
qed (use assms in auto)

definition demo_ops :: "meta_op list" where
  "demo_ops = [CreateInode (new_file 0 7 8 0x81A4), Link 1 (str ''f'') 2, Lookup 1 (str ''f''),
     Link 1 (str ''f'') 2, DeleteInode 5]"

lemma demo_name: "name_ok (str ''f'')" "str ''f'' \<notin> dots" "str ''f'' \<noteq> str ''.''" "str ''f'' \<noteq> str ''..''"
  by (simp_all add: name_ok_def dots_def str_def)

lemma demo_spec:
  "snd (run_all spec_op demo_ops (meta_init 7 8)) =
     [Ok (RIno 2), Ok RUnit, Ok (RIno 2), Err (AlreadyExists 2), Err (NotFound 5)]"
  "run_allowed op_allowed spec_op demo_ops (meta_init 7 8)"
  using demo_name dot_names(1) [symmetric]
  by (simp_all add: demo_ops_def meta_init_def op_allowed_def total_size_def dir_room_def new_directory_def new_file_def u64_max_def)

theorem store_refines_spec_witness:
  "list_all2 same_resp (snd (run_all (run_op list_blockset) demo_ops (store_new list_blockset 7 8 [])))
     [Ok (RIno 2), Ok RUnit, Ok (RIno 2), Err (AlreadyExists 2), Err (NotFound 5)]"
  using store_refines_spec [OF list_blockset_laws demo_spec(2) list_run_ok] demo_spec(1)
  by (simp add: demo_ops_def)

end
