(* ===== verification/Store_Persist.thy ===== *)
theory Store_Persist
  imports Store_Refine
begin

section \<open>Commit, reconstruction, snapshots and reference counts\<close>

text \<open>
  What \<^verbatim>\<open>commit\<close> writes, \<^verbatim>\<open>load_from_root\<close> reads back: the reconstructed store stands for the same
  abstract state. Snapshots are committed roots under a version and a name. Reference counts are
  counters that saturate.
\<close>

subsection \<open>The record maps\<close>

lemma record_loop_enc:
  assumes "\<And>x. length (enc x) = 36" "\<And>x. dec (enc x) = x"
  shows "record_loop dec (length m) (concat (map enc m)) acc = Ok (fold (\<lambda>(k, v). bt_insert k v) m acc)"
proof (induction m arbitrary: acc)
  case (Cons x m)
  then show ?case using assms by (simp add: Let_def split_def)
qed simp

lemma decode_record_map_enc:
  assumes enc: "\<And>x. length (enc x) = 36" "\<And>x. dec (enc x) = x" and m: "bt_sorted m" "length m < 2 ^ 58"
  shows "decode_record_map e e' dec (u64_to_le (of_nat (length m)) @ concat (map enc m)) = Ok m"
proof -
  have "unat (8 + of_nat (length m) * 36 :: u64) = 8 + length m * 36"
    using m(2) by (simp add: unat_word_ariths unat_of_nat)
  moreover have "length (concat (map enc m)) = length m * 36" by (rule length_enc_records [OF enc(1)])
  moreover have "unat (of_nat (length m) :: u64) = length m" using m(2) by (simp add: unat_of_nat)
  moreover have "fold (\<lambda>(k, v). bt_insert k v) m [] = m" using bt_of_list_id [OF m(1)] by (simp add: bt_of_list_def)
  ultimately show ?thesis
    using record_loop_enc [of enc dec m "[]", OF enc] by (simp add: decode_record_map_def Let_def)
qed

lemma enc_digest_count_codec: "length (enc_digest_count r) = 36" "dec_digest_count (enc_digest_count r) = r"
  by (simp_all add: enc_digest_count_def dec_digest_count_def slice_appends)

lemma load_interned_map:
  assumes laws: "blockset_laws B" and m: "bt_sorted m" "length m < 2 ^ 58"
    and int: "intern_u64_digest_map B io m = (io1, d)" and later: "bs_grows B io1 io'" "bs_ok B io'"
  shows "load_u64_digest_map B io' d = Ok m"
proof -
  have "storage_get B io' d = Some (u64_to_le (of_nat (length m)) @ concat (map enc_ino_digest m))"
    using push_all_get [OF laws int [unfolded intern_u64_digest_map_def]] bs_growsD [OF later] by blast
  then show ?thesis
    using decode_record_map_enc [of enc_ino_digest dec_ino_digest m, OF _ _ m]
    by (simp add: load_u64_digest_map_def codec_simps)
qed

lemma load_interned_counts:
  assumes laws: "blockset_laws B" and m: "bt_sorted m" "length m < 2 ^ 58"
    and int: "intern_digest224_u64_map B io m = (io1, d)" and later: "bs_grows B io1 io'" "bs_ok B io'"
  shows "load_digest224_u64_map B io' d = Ok m"
proof -
  have "storage_get B io' d = Some (u64_to_le (of_nat (length m)) @ concat (map enc_digest_count m))"
    using push_all_get [OF laws int [unfolded intern_digest224_u64_map_def]] bs_growsD [OF later] by blast
  then show ?thesis
    using decode_record_map_enc [of enc_digest_count dec_digest_count m, OF _ _ m]
    by (simp add: load_digest224_u64_map_def enc_digest_count_codec)
qed

lemma load_interned_inode_map:
  assumes laws: "blockset_laws B" and m: "bt_sorted (im_map im)"
    and int: "intern_inode_map B io im = (io1, d)" and later: "bs_grows B io1 io'" "bs_ok B io'"
  shows "\<exists>n. load_inode_map B io' d = Ok \<lparr>im_map = im_map im, im_next_ino = n\<rparr>"
proof -
  have "storage_get B io' d = Some (serialize_inode_map im)"
    using push_all_get [OF laws int [unfolded intern_inode_map_def]] bs_growsD [OF later] by blast
  then show ?thesis
    using deserialize_serialize_inode_map [OF m] by (simp add: load_inode_map_def load_node_stored)
qed

lemma length_root_record: "length (root_record d1 n d2 d3 d4 d5 d6) = 184"
  by (simp add: root_record_def)

lemma root_record_slices:
  "slice (root_record d1 n d2 d3 d4 d5 d6) 0 28 = digest_to_le d1"
  "slice (root_record d1 n d2 d3 d4 d5 d6) 28 36 = u64_to_le 1"
  "slice (root_record d1 n d2 d3 d4 d5 d6) 36 44 = u64_to_le n"
  "slice (root_record d1 n d2 d3 d4 d5 d6) 44 72 = digest_to_le d2"
  "slice (root_record d1 n d2 d3 d4 d5 d6) 72 100 = digest_to_le d3"
  "slice (root_record d1 n d2 d3 d4 d5 d6) 100 128 = digest_to_le d4"
  "slice (root_record d1 n d2 d3 d4 d5 d6) 128 156 = digest_to_le d5"
  "slice (root_record d1 n d2 d3 d4 d5 d6) 156 184 = digest_to_le d6"
  by (simp_all add: root_record_def slice_appends)

lemma total_size_list:
  assumes "denotes R m f"
  shows "total_size f = sum_list (map (\<lambda>(k, _). unat (size (the (f k)))) m)"
proof -
  have "distinct (map fst m)" using assms by (simp add: denotes_def bt_sorted_distinct)
  then have "sum_list (map (\<lambda>k. unat (size (the (f k)))) (map fst m)) = total_size f"
    by (simp only: sum_list_distinct_conv_sum_set total_size_def denotes_dom [OF assms] dom_map_of_conv_image_fst set_map)
  then show ?thesis by (simp add: comp_def split_def)
qed

lemma of_nat_sum_list: "(\<And>x. x \<in> set xs \<Longrightarrow> of_nat (f x) = g x) \<Longrightarrow> of_nat (sum_list (map f xs)) = sum_list (map g xs)"
  by (induction xs) simp_all

lemma recomputed_logical_bytes:
  assumes "denotes (inode_at B io) m f" "total_size f < 2 ^ 64"
  shows "unat (sum_list (map (\<lambda>(_, d). loaded_size (load_inode B io d)) m)) = total_size f"
proof -
  have "of_nat (unat (size (the (f (fst x))))) = loaded_size (load_inode B io (snd x))" if "x \<in> set m" for x
  proof -
    have "bt_get m (fst x) = Some (snd x)"
      using that assms(1) by (simp add: denotes_def bt_sorted_distinct)
    then obtain v where "f (fst x) = Some v" "inode_at B io (snd x) v"
      using denotes_cases [OF assms(1), where k = "fst x"] by (metis option.distinct(1) option.inject)
    then show ?thesis by (simp add: load_at loaded_size_def)
  qed
  then have eq: "(of_nat (total_size f) :: u64) = sum_list (map (\<lambda>(_, d). loaded_size (load_inode B io d)) m)"
    unfolding total_size_list [OF assms(1)] by (intro of_nat_sum_list) (simp add: split_def)
  show ?thesis using assms(2) by (simp add: unat_of_nat flip: eq)
qed

subsection \<open>Commit and reconstruction\<close>

definition store_small :: "'io store \<Rightarrow> bool" where
  "store_small s \<longleftrightarrow> length (ds_inode_data s) < 2 ^ 58 \<and> length (ds_dir_data s) < 2 ^ 58 \<and>
     length (ds_manifest_data s) < 2 ^ 58 \<and> length (ds_xattr_data s) < 2 ^ 58 \<and> length (ds_refcounts s) < 2 ^ 58"

text \<open>What a reconstructed store has in common with the committed one.\<close>

definition same_maps :: "'io store \<Rightarrow> 'io store \<Rightarrow> bool" where
  "same_maps s t \<longleftrightarrow> ds_inode_map t = ds_inode_map s \<and> ds_inode_data t = ds_inode_data s \<and>
     ds_dir_data t = ds_dir_data s \<and> ds_manifest_data t = ds_manifest_data s \<and>
     ds_xattr_data t = ds_xattr_data s \<and> ds_refcounts t = ds_refcounts s"

lemma commit_load_maps:
  assumes laws: "blockset_laws B" and sorted: "bt_sorted (ds_inode_data s)" "bt_sorted (ds_dir_data s)"
      "bt_sorted (ds_manifest_data s)" "bt_sorted (ds_xattr_data s)" "bt_sorted (ds_refcounts s)"
    and im: "im_map (ds_inode_map s) = ds_inode_data s" and small: "store_small s"
    and root: "bt_get (ds_inode_data s) 1 \<noteq> None"
    and run: "commit B F s = (s', Ok r)" and later: "bs_grows B (ds_io s') io" "bs_ok B io"
  shows "\<exists>t. load_from_root B io r = Ok t \<and> same_maps s t \<and> ds_io t = io \<and> ds_last_root t = Some r \<and>
    ds_logical_bytes t = sum_list (map (\<lambda>(_, d). loaded_size (load_inode B io d)) (ds_inode_data s)) \<and>
    ds_inode_count t = of_nat (length (ds_inode_data s))"
proof (rule commit_steps [of B s F])
  fix io1 d1 io2 d2 io3 d3 io4 d4 io5 d5 io6 d6 io7 root
  assume 1: "intern_inode_map B (ds_io s) (ds_inode_map s) = (io1, d1)"
    and 2: "intern_u64_digest_map B io1 (ds_inode_data s) = (io2, d2)"
    and 3: "intern_u64_digest_map B io2 (ds_dir_data s) = (io3, d3)"
    and 4: "intern_u64_digest_map B io3 (ds_manifest_data s) = (io4, d4)"
    and 5: "intern_u64_digest_map B io4 (ds_xattr_data s) = (io5, d5)"
    and 6: "intern_digest224_u64_map B io5 (ds_refcounts s) = (io6, d6)"
    and 7: "push_all B io6 (root_record d1 (im_next_ino (ds_inode_map s)) d2 d3 d4 d5 d6) = (io7, root)"
    and commit: "commit B F s = (log_wal_entry F (WalRootUpdate root) (s\<lparr>ds_io := io7, ds_last_root := Some root\<rparr>), Ok root)"
  have r: "root = r" and s': "ds_io s' = io7" using run commit by auto
  have g7: "bs_grows B io7 io" using later(1) s' by simp
  have g6: "bs_grows B io6 io" using bs_grows_trans [OF intern_steps(9) [OF laws 7] g7] .
  have g5: "bs_grows B io5 io" using bs_grows_trans [OF intern_steps(8) [OF laws 6] g6] .
  have g4: "bs_grows B io4 io" using bs_grows_trans [OF intern_steps(7) [OF laws 5] g5] .
  have g3: "bs_grows B io3 io" using bs_grows_trans [OF intern_steps(7) [OF laws 4] g4] .
  have g2: "bs_grows B io2 io" using bs_grows_trans [OF intern_steps(7) [OF laws 3] g3] .
  have g1: "bs_grows B io1 io" using bs_grows_trans [OF intern_steps(7) [OF laws 2] g2] .
  have lens: "length (ds_inode_data s) < 2 ^ 58" "length (ds_dir_data s) < 2 ^ 58" "length (ds_manifest_data s) < 2 ^ 58"
    "length (ds_xattr_data s) < 2 ^ 58" "length (ds_refcounts s) < 2 ^ 58" using small unfolding store_small_def by blast+
  obtain n where l1: "load_inode_map B io d1 = Ok \<lparr>im_map = ds_inode_data s, im_next_ino = n\<rparr>"
    using load_interned_inode_map [OF laws _ 1 g1 later(2)] im sorted(1) by auto
  note l2 = load_interned_map [OF laws sorted(1) lens(1) 2 g2 later(2)]
  note l3 = load_interned_map [OF laws sorted(2) lens(2) 3 g3 later(2)]
  note l4 = load_interned_map [OF laws sorted(3) lens(3) 4 g4 later(2)]
  note l5 = load_interned_map [OF laws sorted(4) lens(4) 5 g5 later(2)]
  note l6 = load_interned_counts [OF laws sorted(5) lens(5) 6 g6 later(2)]
  have get: "storage_get B io r = Some (root_record d1 (im_next_ino (ds_inode_map s)) d2 d3 d4 d5 d6)"
    using push_all_get [OF laws 7] bs_growsD [OF g7 later(2)] r by blast
  obtain d where d: "bt_get (ds_inode_data s) 1 = Some d" using root by blast
  show ?thesis
    by (simp add: load_from_root_def get length_root_record root_record_slices parse_digest224_def Let_def
        l1 l2 l3 l4 l5 l6 d same_maps_def set_next_ino_def im)
qed

lemma commit_load_rel:
  assumes laws: "blockset_laws B" and rel: "store_rel B s a" and root: "a_inodes a 1 \<noteq> None" and small: "store_small s"
    and run: "commit B F s = (s', Ok r)" and later: "bs_grows B (ds_io s') io" "bs_ok B io"
  shows "\<exists>t. load_from_root B io r = Ok t \<and> same_maps s t \<and> store_rel B t a \<and> ds_last_root t = Some r \<and> ds_io t = io"
proof -
  note rels = store_relD [OF rel]
  have sorted: "bt_sorted (ds_inode_data s)" "bt_sorted (ds_dir_data s)" "bt_sorted (ds_manifest_data s)"
    "bt_sorted (ds_xattr_data s)" "bt_sorted (ds_refcounts s)"
    using rels(1-5) unfolding denotes_def by blast+
  have "bt_get (ds_inode_data s) 1 \<noteq> None" using root denotes_None [OF rels(1)] by metis
  from commit_load_maps [OF laws sorted rels(6) small this run later]
  obtain t where t: "load_from_root B io r = Ok t" "same_maps s t" "ds_io t = io" "ds_last_root t = Some r"
    and lb: "ds_logical_bytes t = sum_list (map (\<lambda>(_, d). loaded_size (load_inode B io d)) (ds_inode_data s))"
    and ic: "ds_inode_count t = of_nat (length (ds_inode_data s))" by blast
  have grows: "bs_grows B (ds_io s) io"
    using bs_grows_trans [OF _ later(1)] commit_grows [OF laws, of s F] run by simp
  have rel': "store_rel B (s\<lparr>ds_io := io\<rparr>) a" by (rule store_rel_grows [OF rel grows later(2)])
  have "total_size (a_inodes a) < 2 ^ 64" using unat_u64_less [of "ds_logical_bytes s"] rels(9) by simp
  then have "unat (ds_logical_bytes t) = total_size (a_inodes a)"
    using recomputed_logical_bytes [of B io] store_relD(1) [OF rel'] by (simp add: lb)
  moreover have "unat (ds_inode_count t) = card (dom (a_inodes a))"
    using denotes_card [OF rels(1)] unat_u64_less [of "ds_inode_count s"] rels(10)
    by (simp add: ic unat_of_nat)
  ultimately have "store_rel B t a"
    using rel' t(2,3) by (simp add: store_rel_def same_maps_def)
  with t show ?thesis by blast
qed

lemma run_all_grows:
  "blockset_laws B \<Longrightarrow> bs_grows B (ds_io s) (ds_io (fst (run_all (run_op B) opers s)))"
proof (induction opers arbitrary: s)
  case (Cons oper opers)
  then show ?case using bs_grows_trans [OF run_op_grows Cons.IH] by (simp add: split_def Let_def)
qed simp

subsection \<open>Corrupt record maps\<close>

lemma record_loop_panics: "record_loop dec n bs m = Err Panic \<longleftrightarrow> length bs < n * 36"
proof (induction n arbitrary: bs m)
  case (Suc n)
  obtain k v where "dec (take 36 bs) = (k, v)" by (cases "dec (take 36 bs)")
  then show ?case using Suc.IH [of "drop 36 bs"] by (cases "length bs < 36") (simp_all add: less_diff_conv2 add.commute)
qed simp

lemma decode_record_map_panics:
  "decode_record_map e e' dec bytes = Err Panic \<longleftrightarrow>
     8 \<le> length bytes \<and> length bytes = unat (8 + u64_from_le (take 8 bytes) * 36) \<and>
     length bytes < 8 + unat (u64_from_le (take 8 bytes)) * 36"
proof -
  define c where "c = u64_from_le (take 8 bytes)"
  show ?thesis
    unfolding decode_record_map_def Let_def c_def [symmetric]
    by (cases "length bytes < 8") (simp_all add: record_loop_panics less_diff_conv2 add.commute)
qed

subsection \<open>Snapshots\<close>

text \<open>The versions are the keys, and a name stands for the last version that has it.\<close>

definition snapshot_names :: "(u64 \<times> snapshot_entry) list \<Rightarrow> (rstring \<times> u64) list" where
  "snapshot_names m = List.map_filter (\<lambda>e. map_option (\<lambda>n. (n, se_version e)) (se_name e)) (map snd m)"

definition snapshots_ok :: "'io store \<Rightarrow> bool" where
  "snapshots_ok s \<longleftrightarrow> bt_sorted (ds_by_version s) \<and> (\<forall>(v, e) \<in> set (ds_by_version s). se_version e = v) \<and>
     ds_by_name s = map_of (rev (snapshot_names (ds_by_version s)))"

lemma next_version_above:
  assumes "next_version s \<noteq> 0" "(v, e) \<in> set (ds_by_version s)"
  shows "v < next_version s"
proof -
  define m where "m = fold (\<lambda>(v, _) m. max v m) (ds_by_version s) 0"
  have "m = fold max (map fst (ds_by_version s)) 0" by (simp add: m_def fold_map comp_def split_def)
  then have "m = Max (set (0 # map fst (ds_by_version s)))" by (simp only: Max.set_eq_fold)
  then have "v \<le> m" using assms(2) by (force intro: Max_ge)
  moreover have "m \<noteq> u64_max" using assms(1) by (auto simp: next_version_def m_def u64_max_def)
  ultimately have "v < m + 1" using u64_self_less_succ le_less_trans by blast
  then show ?thesis by (simp add: next_version_def m_def)
qed

lemma bt_insert_last: "\<forall>x \<in> set m. fst x < k \<Longrightarrow> bt_insert k v m = m @ [(k, v)]"
  by (induction k v m rule: bt_insert.induct) auto

lemma snapshots_ok_bound: "snapshots_ok s \<Longrightarrow> next_version s \<noteq> 0 \<Longrightarrow> \<forall>x \<in> set (ds_by_version s). fst x < next_version s"
  using next_version_above by fastforce

lemma log_wal_entry_snapshots [simp]:
  "ds_by_version (log_wal_entry F e s) = ds_by_version s" "ds_by_name (log_wal_entry F e s) = ds_by_name s"
  "ds_last_root (log_wal_entry F e s) = ds_last_root s"
  by (simp_all add: log_wal_entry_def split: option.split)

lemma create_snapshot_fields:
  assumes run: "create_snapshot B F F' now name s = (s', Ok e)" and ok: "snapshots_ok s" "next_version s \<noteq> 0"
  shows "se_version e = next_version s \<and> se_name e = name \<and> se_created_at e = now"
    and "ds_by_version s' = ds_by_version s @ [(next_version s, e)]"
    and "ds_by_name s' = (case name of None \<Rightarrow> ds_by_name s | Some n \<Rightarrow> (ds_by_name s)(n \<mapsto> next_version s))"
    and "ds_last_root s' = Some (se_root e)" and "snd (commit B F s) = Ok (se_root e)"
    and "ds_io s' = ds_io (fst (commit B F s))"
proof -
  obtain io root where c: "commit B F s =
      (log_wal_entry F (WalRootUpdate root) (s\<lparr>ds_io := io, ds_last_root := Some root\<rparr>), Ok root)"
    by (rule commit_steps)
  have v: "next_version (log_wal_entry F (WalRootUpdate root) (s\<lparr>ds_io := io, ds_last_root := Some root\<rparr>)) = next_version s"
    by (simp add: next_version_def)
  note ins = bt_insert_last [OF snapshots_ok_bound [OF ok]]
  have e: "e = \<lparr>se_version = next_version s, se_name = name, se_root = root, se_created_at = now\<rparr>"
    using run by (simp add: create_snapshot_def c v Let_def)
  then show "se_version e = next_version s \<and> se_name e = name \<and> se_created_at e = now" by simp
  show "ds_by_version s' = ds_by_version s @ [(next_version s, e)]"
    "ds_by_name s' = (case name of None \<Rightarrow> ds_by_name s | Some n \<Rightarrow> (ds_by_name s)(n \<mapsto> next_version s))"
    "ds_last_root s' = Some (se_root e)" "snd (commit B F s) = Ok (se_root e)" "ds_io s' = ds_io (fst (commit B F s))"
    using run by (auto simp: create_snapshot_def c v Let_def ins e hm_insert_def split: option.splits)
qed

lemma snapshot_names_snoc:
  "snapshot_names (m @ [(v, e)]) = snapshot_names m @ (case se_name e of None \<Rightarrow> [] | Some n \<Rightarrow> [(n, se_version e)])"
  by (simp add: snapshot_names_def map_filter_def split: option.split)

lemma create_snapshot_ok:
  assumes run: "create_snapshot B F F' now name s = (s', Ok e)" and ok: "snapshots_ok s" "next_version s \<noteq> 0"
  shows "snapshots_ok s'"
proof -
  note f = create_snapshot_fields [OF run ok]
  have ver: "se_version e = next_version s" "se_name e = name" using f(1) by simp_all
  have "bt_sorted (ds_by_version s @ [(next_version s, e)])"
    using ok snapshots_ok_bound [OF ok] by (simp add: snapshots_ok_def bt_sorted_def sorted_wrt_append)
  then show ?thesis
    using ok(1) ver f(2,3) unfolding snapshots_ok_def by (auto simp: snapshot_names_snoc split: option.split)
qed

lemma list_snapshots_values: "snapshots_ok s \<Longrightarrow> list_snapshots s = map snd (ds_by_version s)"
proof -
  assume ok: "snapshots_ok s"
  have "map se_version (map snd (ds_by_version s)) = map fst (ds_by_version s)"
    using ok by (auto simp: snapshots_ok_def)
  then have "sorted (map se_version (map snd (ds_by_version s)))"
    using ok by (metis bt_sorted_def snapshots_ok_def strict_sorted_imp_sorted)
  then show ?thesis by (simp add: list_snapshots_def sorted_sort_id sort_key_id_if_sorted)
qed

lemma set_snapshots_restores:
  assumes "snapshots_ok s"
  shows "ds_by_version (set_snapshots (list_snapshots s) t) = ds_by_version s"
    "ds_by_name (set_snapshots (list_snapshots s) t) = ds_by_name s"
proof -
  have "map (\<lambda>e. (se_version e, e)) (map snd (ds_by_version s)) = ds_by_version s"
    unfolding map_map comp_def by (rule map_idI) (use assms in \<open>auto simp: snapshots_ok_def\<close>)
  then show "ds_by_version (set_snapshots (list_snapshots s) t) = ds_by_version s"
    using assms by (simp add: set_snapshots_def list_snapshots_values bt_of_list_id snapshots_ok_def)
  show "ds_by_name (set_snapshots (list_snapshots s) t) = ds_by_name s"
    using assms by (simp add: set_snapshots_def list_snapshots_values) (simp add: snapshots_ok_def snapshot_names_def)
qed

subsection \<open>Reference counts\<close>

lemma get_refcount_ops:
  assumes "bt_sorted (ds_refcounts s)"
  shows "get_refcount d (increment_refcount d s) = refcount_inc (get_refcount d s)"
    "get_refcount d (decrement_refcount d s) = (case refcount_dec (get_refcount d s) of None \<Rightarrow> 0 | Some v \<Rightarrow> v)"
    "d' \<noteq> d \<Longrightarrow> get_refcount d' (increment_refcount d s) = get_refcount d' s"
    "d' \<noteq> d \<Longrightarrow> get_refcount d' (decrement_refcount d s) = get_refcount d' s"
    "bt_sorted (ds_refcounts (increment_refcount d s))" "bt_sorted (ds_refcounts (decrement_refcount d s))"
  using assms
  by (auto simp: get_refcount_def increment_refcount_def decrement_refcount_def refcount_inc_def refcount_dec_def
      Let_def bt_simps u64_max_def split: option.splits)

lemma find_snapshot_old:
  assumes "find_snapshot ref s = Some e'" "ds_by_version s' = ds_by_version s @ [(v, e)]"
    and "parse_u64 ref = None \<Longrightarrow> ds_by_name s' ref = ds_by_name s ref"
  shows "find_snapshot ref s' = Some e'"
  using assms by (auto simp: find_snapshot_def map_add_Some_iff split: option.splits)

lemma find_snapshot_maps:
  "ds_by_version t = ds_by_version s \<Longrightarrow> ds_by_name t = ds_by_name s \<Longrightarrow> find_snapshot ref t = find_snapshot ref s"
  by (simp add: find_snapshot_def cong: option.case_cong)

lemma increments:
  "bt_sorted (ds_refcounts s) \<Longrightarrow> bt_sorted (ds_refcounts ((increment_refcount d ^^ n) s)) \<and>
     unat (get_refcount d ((increment_refcount d ^^ n) s)) = min (unat (get_refcount d s) + n) (unat u64_max)"
proof (induction n)
  case 0
  then show ?case using word_le_nat_alt [of "get_refcount d s" u64_max] by (simp add: u64_max_def)
next
  case (Suc n)
  let ?s = "(increment_refcount d ^^ n) s" and ?c = "get_refcount d ((increment_refcount d ^^ n) s)"
  have IH: "bt_sorted (ds_refcounts ?s)" "unat ?c = min (unat (get_refcount d s) + n) (unat u64_max)"
    using Suc by auto
  have "unat (refcount_inc ?c) = min (Suc (unat ?c)) (unat u64_max)"
  proof (cases "?c = u64_max")
    case False
    then have "unat ?c < unat u64_max" by (metis u64_max_def word_less_nat_alt word_order.not_eq_extremum)
    with False show ?thesis by (simp add: refcount_inc_def unat_succ_u64)
  qed (simp add: refcount_inc_def)
  then show ?case using IH get_refcount_ops(1,5) [OF IH(1), of d] by auto
qed

lemma refcount_dec_inc: "v \<noteq> u64_max \<Longrightarrow> v + 1 \<noteq> u64_max \<Longrightarrow> (case refcount_dec (refcount_inc v) of None \<Rightarrow> 0 | Some w \<Rightarrow> w) = v"
  by (auto simp: refcount_dec_def refcount_inc_def word_le_nat_alt unat_succ_u64 unat_eq_0)

subsection \<open>Properties\<close>

text \<open>
  C2. A committed state is never lost: whatever operations ran before the commit and whatever
  operations and commits run after it, loading the committed root gives back a store that stands
  for exactly the state at the commit (all maps, link counts, attributes, reference counts and the
  inode allocator), with recomputed counters that are exact.
\<close>

theorem commit_load_roundtrip:
  assumes "blockset_laws B" and "run_allowed op_allowed spec_op opers (meta_init u g)"
    and s: "s = fst (run_all (run_op B) opers (store_new B u g io))" and a: "a = fst (run_all spec_op opers (meta_init u g))"
    and "a_inodes a 1 \<noteq> None" and "store_small s" and "commit B F s = (s', Ok r)"
    and t: "t = fst (run_all (run_op B) later s')" and "bs_ok B (ds_io t)"
  shows "\<exists>t'. load_from_root B (ds_io t) r = Ok t' \<and> same_maps s t' \<and> store_rel B t' a \<and> ds_last_root t' = Some r"
proof -
  have grows: "bs_grows B (ds_io s') (ds_io t)" unfolding t by (rule run_all_grows [OF assms(1)])
  have "bs_grows B (ds_io s) (ds_io s')" using commit_grows [OF assms(1), of s F] assms(7) by simp
  then have ok: "bs_ok B (ds_io s)" using bs_growsD(1) grows assms(9) by metis
  then have "bs_ok B (ds_io (store_new B u g io))" using store_sim.good_start assms(1) s by blast
  from store_sim.runs_rel [OF store_new_rel [OF assms(1) this] assms(2)] ok assms(1)
  have "store_rel B s a" by (simp add: s a)
  from commit_load_rel [OF assms(1) this assms(5-7) grows assms(9)] show ?thesis by blast
qed

definition demo_history :: "meta_op list" where
  "demo_history = [CreateInode (new_file 0 7 8 0x81A4), Link 1 (str ''f'') 2]"

definition demo_store :: "bytes list store" where
  "demo_store = fst (run_all (run_op list_blockset) demo_history (store_new list_blockset 7 8 []))"

lemma demo_history_spec:
  "run_allowed op_allowed spec_op demo_history (meta_init 7 8)"
  "fst (run_all spec_op demo_history (meta_init 7 8)) =
     \<lparr>a_inodes = [1 \<mapsto> new_directory 1 7 8 (S_IFDIR OR 0x1ED), 2 \<mapsto> new_file 2 7 8 0x81A4],
      a_dirs = [1 \<mapsto> [str ''.'' \<mapsto> 1, str ''..'' \<mapsto> 1, str ''f'' \<mapsto> 2]], a_manifests = Map.empty,
      a_xattrs = Map.empty, a_refs = Map.empty, a_next = 3\<rparr>"
  using demo_name dot_names(1) [symmetric]
  by (simp_all add: demo_history_def meta_init_def op_allowed_def total_size_def dir_room_def new_directory_def
      new_file_def u64_max_def)

lemma demo_store_rel: "store_rel list_blockset demo_store (fst (run_all spec_op demo_history (meta_init 7 8)))"
  and demo_store_io: "few_pushes 20 [] (ds_io demo_store)"
proof -
  have "few_pushes 20 [] (ds_io demo_store)"
    unfolding demo_store_def by (rule few_pushes_trans [OF store_new_few run_all_few]) (simp add: demo_history_def)
  then show "few_pushes 20 [] (ds_io demo_store)" .
  then have ok: "bs_ok list_blockset (ds_io demo_store)" by (simp add: few_pushes_def list_blockset_def)
  then have "bs_ok list_blockset (ds_io (store_new list_blockset 7 8 []))"
    unfolding demo_store_def using store_sim.good_start list_blockset_laws by blast
  from store_sim.runs_rel [OF store_new_rel [OF list_blockset_laws this] demo_history_spec(1)] ok
  show "store_rel list_blockset demo_store (fst (run_all spec_op demo_history (meta_init 7 8)))"
    unfolding demo_store_def using list_blockset_laws by blast
qed

lemma demo_store_small: "store_small demo_store"
  using store_relD(1-5) [OF demo_store_rel, THEN denotes_card]
  by (simp add: demo_history_spec(2) store_small_def)

theorem commit_load_roundtrip_witness:
  "\<exists>r t t'. snd (commit list_blockset no_fault demo_store) = Ok r \<and>
     t = fst (run_all (run_op list_blockset) [DeleteInode 2] (fst (commit list_blockset no_fault demo_store))) \<and>
     load_from_root list_blockset (ds_io t) r = Ok t' \<and> same_maps demo_store t'"
proof -
  obtain s' r where c: "commit list_blockset no_fault demo_store = (s', Ok r)" by (rule commit_steps) auto
  define t where "t = fst (run_all (run_op list_blockset) [DeleteInode 2] s')"
  have "few_pushes 8 (ds_io s') (ds_io t)" unfolding t_def using run_all_few [of "[DeleteInode 2]"] by simp
  then have "few_pushes 15 (ds_io demo_store) (ds_io t)"
    using few_pushes_trans [OF commit_few [of demo_store no_fault]] c by simp
  then have "few_pushes 35 [] (ds_io t)" using few_pushes_trans [OF demo_store_io] by simp
  then have ok: "bs_ok list_blockset (ds_io t)" by (simp add: few_pushes_def list_blockset_def)
  have root: "a_inodes (fst (run_all spec_op demo_history (meta_init 7 8))) 1 \<noteq> None" by (simp add: demo_history_spec(2))
  from commit_load_roundtrip [OF list_blockset_laws demo_history_spec(1) demo_store_def refl root
      demo_store_small c t_def ok] c t_def show ?thesis by auto
qed

text \<open>
  C8. Snapshots: a new snapshot gets the next version, is found by its version number and by its name
  (unless the name is itself a number), is listed last and becomes the current root. Every reference
  that resolved before still resolves to the same snapshot, except the name that is reused. Feeding
  the listing to \<^verbatim>\<open>set_snapshots\<close>, as a mount does, restores the catalogue.
\<close>

theorem snapshot_catalogue:
  assumes "snapshots_ok s" and "next_version s \<noteq> 0" and "create_snapshot B F F' now name s = (s', Ok e)"
  shows "snapshots_ok s' \<and> list_snapshots s' = list_snapshots s @ [e] \<and> current_root s' = Some (se_root e) \<and>
    find_snapshot (fmt_padded w (unat (se_version e))) s' = Some e \<and>
    (\<forall>n. name = Some n \<and> parse_u64 n = None \<longrightarrow> find_snapshot n s' = Some e) \<and>
    (\<forall>ref e'. find_snapshot ref s = Some e' \<and> name \<noteq> Some ref \<longrightarrow> find_snapshot ref s' = Some e') \<and>
    (\<forall>ref. find_snapshot ref (set_snapshots (list_snapshots s') t) = find_snapshot ref s')"
proof -
  note f = create_snapshot_fields [OF assms(3,1,2)]
  note ok' = create_snapshot_ok [OF assms(3,1,2)]
  have "distinct (map fst (ds_by_version s'))" using ok' by (simp add: snapshots_ok_def bt_sorted_distinct)
  then have get: "bt_get (ds_by_version s') (se_version e) = Some e"
    using f(1,2) by (intro map_of_is_SomeI) simp_all
  have "find_snapshot (fmt_padded w (unat (se_version e))) s' = Some e"
    using get unat_u64_less [of "se_version e"] by (simp add: find_snapshot_def parse_u64_padded)
  moreover have "find_snapshot n s' = Some e" if "name = Some n" "parse_u64 n = None" for n
    using that get f(1,3) by (simp add: find_snapshot_def)
  moreover have "find_snapshot ref s' = Some e'" if "find_snapshot ref s = Some e'" "name \<noteq> Some ref" for ref e'
    using that f(3) by (intro find_snapshot_old [OF that(1) f(2)]) (auto split: option.splits)
  moreover have "find_snapshot ref (set_snapshots (list_snapshots s') t) = find_snapshot ref s'" for ref
    by (rule find_snapshot_maps [OF set_snapshots_restores [OF ok']])
  moreover have "list_snapshots s' = list_snapshots s @ [e]"
    using list_snapshots_values [OF assms(1)] list_snapshots_values [OF ok'] f(2) by simp
  ultimately show ?thesis using ok' f(4) by (simp add: current_root_def)
qed

lemma demo_store_snapshots: "ds_by_version demo_store = []" "ds_by_name demo_store = Map.empty"
  by (simp_all add: demo_store_def demo_history_def store_new_def respond_def create_inode_def store_link_def Let_def
      split_def split: option.split sum.split)

theorem snapshot_catalogue_witness:
  "\<exists>s' e. create_snapshot list_blockset no_fault no_fault 9 (Some (str ''f'')) demo_store = (s', Ok e) \<and>
     se_version e = 1 \<and> find_snapshot (str ''f'') s' = Some e"
proof -
  have ok: "snapshots_ok demo_store" "next_version demo_store = 1"
    by (simp_all add: snapshots_ok_def demo_store_snapshots snapshot_names_def map_filter_def next_version_def)
  have next_ok: "next_version demo_store \<noteq> 0" using ok(2) by simp
  obtain s' e where c: "create_snapshot list_blockset no_fault no_fault 9 (Some (str ''f'')) demo_store = (s', Ok e)"
    by (rule commit_steps [of list_blockset demo_store no_fault]) (simp add: create_snapshot_def Let_def)
  moreover have "parse_u64 (str ''f'') = None" by code_simp
  ultimately show ?thesis
    using snapshot_catalogue [OF ok(1) next_ok c] create_snapshot_fields(1) [OF c ok(1) next_ok] ok(2) by auto
qed

text \<open>
  C9. Reference counts saturate instead of wrapping: \<open>n\<close> increments add \<open>n\<close> up to the largest 64-bit
  value, a saturated count never changes again, below saturation a decrement undoes an increment,
  and no operation on one digest changes the count of another.
\<close>

theorem refcount_saturation:
  assumes "bt_sorted (ds_refcounts s)"
  shows "unat (get_refcount d ((increment_refcount d ^^ n) s)) = min (unat (get_refcount d s) + n) (2 ^ 64 - 1) \<and>
    (get_refcount d s = u64_max \<longrightarrow> get_refcount d (increment_refcount d s) = u64_max \<and>
       get_refcount d (decrement_refcount d s) = u64_max) \<and>
    (get_refcount d s + 1 \<noteq> u64_max \<longrightarrow> get_refcount d s \<noteq> u64_max \<longrightarrow>
       get_refcount d (decrement_refcount d (increment_refcount d s)) = get_refcount d s) \<and>
    (d' \<noteq> d \<longrightarrow> get_refcount d' (increment_refcount d s) = get_refcount d' s \<and>
       get_refcount d' (decrement_refcount d s) = get_refcount d' s)"
proof -
  note ops = get_refcount_ops [OF assms]
  have "get_refcount d (decrement_refcount d (increment_refcount d s)) = get_refcount d s"
    if "get_refcount d s + 1 \<noteq> u64_max" "get_refcount d s \<noteq> u64_max"
    using get_refcount_ops(2) [OF ops(5)] refcount_dec_inc [OF that(2,1)] by (simp add: ops(1))
  moreover have "unat u64_max = 2 ^ 64 - 1" by (simp add: u64_max_def unsigned_minus_1_eq_mask mask_eq_exp_minus_1)
  moreover have "get_refcount d (increment_refcount d s) = u64_max \<and> get_refcount d (decrement_refcount d s) = u64_max"
    if "get_refcount d s = u64_max" using that by (simp add: ops refcount_inc_def refcount_dec_def)
  ultimately show ?thesis
    using increments [OF assms, where d = d and n = n] ops(3,4) by simp
qed

theorem refcount_saturation_witness:
  "get_refcount (Digest224 1 2 3 4 5 6 7)
     (decrement_refcount (Digest224 1 2 3 4 5 6 7) (increment_refcount (Digest224 1 2 3 4 5 6 7)
        (store_new list_blockset 7 8 []))) = 0"
proof -
  have new: "ds_refcounts (store_new list_blockset 7 8 []) = []" by (simp add: store_new_def Let_def split_def)
  then show ?thesis
    using refcount_saturation [of "store_new list_blockset 7 8 []" "Digest224 1 2 3 4 5 6 7" 0]
    by (simp add: get_refcount_def u64_max_def)
qed

text \<open>
  C35. Reading a stored map panics exactly when the 64-bit computation of its expected length wraps
  around to the actual length: a record whose count field overstates its contents by a multiple of
  \<open>2\<^sup>6\<^sup>2\<close>, such as the eight bytes of the count \<open>2\<^sup>6\<^sup>2\<close> alone. Every other damaged record is an error.
\<close>

theorem record_map_panics:
  assumes "storage_get B io key = Some bytes"
  shows "(load_u64_digest_map B io key = Err Panic \<longleftrightarrow>
      8 \<le> length bytes \<and> length bytes = unat (8 + u64_from_le (take 8 bytes) * 36) \<and>
      length bytes < 8 + unat (u64_from_le (take 8 bytes)) * 36) \<and>
    (bytes = u64_to_le (2 ^ 62) \<longrightarrow> load_u64_digest_map B io key = Err Panic)"
  using assms by (auto simp: load_u64_digest_map_def decode_record_map_panics)

theorem record_map_panics_witness:
  "load_u64_digest_map list_blockset [u64_to_le (2 ^ 62)] (Digest224 0 0 0 0 0 0 0) = Err Panic"
  using record_map_panics [of list_blockset "[u64_to_le (2 ^ 62)]" "Digest224 0 0 0 0 0 0 0" "u64_to_le (2 ^ 62)"]
  by (simp add: list_blockset_def list_get_def)

end
