(* ===== verification/File_IO.thy ===== *)
theory File_IO
  imports Filesystem Store_Persist
begin

section \<open>Contents of files\<close>

text \<open>
  What is written through a handle is what is read, before and after the handle is closed. The
  streaming and the buffered mode are both compared with one reference: \<open>pwrite\<close> on a byte list.
\<close>

subsection \<open>The storage only grows\<close>

definition op_grows :: "('io, 'st) blockset \<Rightarrow> (('io, 'st) fs, 'a) fs_op \<Rightarrow> bool" where
  "op_grows B m \<longleftrightarrow> (\<forall>s. bs_grows B (fs_io s) (fs_io (fst (m s))))"

lemma op_growsD: "op_grows B m \<Longrightarrow> m s = (s', r) \<Longrightarrow> bs_grows B (fs_io s) (fs_io s')"
  unfolding op_grows_def by (metis fst_conv)

lemma op_grows_fst: "op_grows B m \<Longrightarrow> bs_grows B (fs_io s) (fs_io (fst (m s)))"
  by (simp add: op_grows_def)

lemma and_then_grows [grows_intros]:
  assumes "op_grows B m" "\<And>x. op_grows B (f x)"
  shows "op_grows B (and_then m f)"
  using assms unfolding op_grows_def and_then_def
  by (auto split: prod.split sum.split) (metis bs_grows_trans fst_conv)+

lemma simple_grows [grows_intros]:
  "op_grows B (ret x)" "op_grows B (fail e)" "op_grows B (ask_meta g q)"
  by (simp_all add: op_grows_def ret_def fail_def ask_meta_def)

lemma on_meta_grows [grows_intros]:
  assumes "\<And>m. bs_grows B (ds_io m) (ds_io (fst (f m)))"
  shows "op_grows B (on_meta g f)"
  using assms by (simp add: op_grows_def on_meta_def split_def Let_def)

lemma modify_meta_grows [grows_intros]:
  assumes "\<And>m. bs_grows B (ds_io m) (ds_io (f m))"
  shows "op_grows B (modify_meta f)"
  using assms by (simp add: op_grows_def modify_meta_def)

lemma ds_io_refcount [simp]:
  "ds_io (increment_refcount d m) = ds_io m" "ds_io (decrement_refcount d m) = ds_io m"
  "ds_io (decrement_opt old m) = ds_io m"
  by (simp_all add: increment_refcount_def decrement_refcount_def decrement_opt_def Let_def split: option.split)

lemma fs_io_simps [simp]:
  "fs_io (set_io io s) = io" "fs_io (set_handle fh h s) = fs_io s" "fs_io (drop_handle fh s) = fs_io s"
  by (simp_all add: set_io_def set_handle_def drop_handle_def)

lemma hash_steps:
  assumes "blockset_laws B"
  shows "st_end B io st = (io', d) \<Longrightarrow> bs_grows B io io'"
    "st_push B io st xs = (e, io', st') \<Longrightarrow> bs_grows B io io'"
    "materialize B io st = (io', c) \<Longrightarrow> bs_grows B io io'"
    "push_fresh B io xs = (io', st') \<Longrightarrow> bs_grows B io io'"
    "finalize B io w = (io', d) \<Longrightarrow> bs_grows B io io'"
  by (auto simp: materialize_def push_fresh_def finalize_def split: prod.splits write_mode.splits
      dest!: st_end_grows [OF assms] st_push_grows [OF assms] intro: bs_grows_trans)

lemma store_size_grows [grows_intros]: "blockset_laws B \<Longrightarrow> op_grows B (store_size B touch i sz)"
  unfolding store_size_def by (intro grows_intros) auto

lemma commit_digest_grows [grows_intros]: "blockset_laws B \<Longrightarrow> op_grows B (commit_digest B i old d)"
  unfolding commit_digest_def by (intro grows_intros) (auto intro: grows_intros)

lemma test_write_grows [grows_intros]:
  assumes "blockset_laws B"
  shows "op_grows B (test_write B fh off data)"
  unfolding op_grows_def test_write_def write_fallback_def Let_def
  by (auto split: option.split write_mode.split prod.split dest: hash_steps [OF assms])

lemma test_release_grows [grows_intros]:
  fixes B :: "('io, 'st) blockset"
  assumes "blockset_laws B"
  shows "op_grows B (test_release B now i fh)"
proof -
  have tail: "bs_grows B io (fs_io (fst (and_then (commit_digest B i old d) (\<lambda>_. store_size B touch i sz) s)))"
    if "bs_grows B io (fs_io s)" for io s old d touch sz
    by (rule bs_grows_trans [OF that op_grows_fst]) (intro grows_intros assms)
  have set: "bs_grows B io (fs_io (fst (on_meta as_eio (set_manifest B i []) s)))" if "bs_grows B io (fs_io s)"
    for io and s :: "('io, 'st) fs"
    by (rule bs_grows_trans [OF that op_grows_fst]) (intro grows_intros assms)
  show ?thesis
    unfolding op_grows_def test_release_def Let_def
    by (auto split: option.split prod.split dest: hash_steps [OF assms] intro!: tail set)
qed

subsection \<open>The reference: writes to a byte list\<close>

lemma length_resize [simp]: "length (resize n buf) = n"
  by (simp add: resize_def)

lemma pwrite_append: "pwrite xs (length xs) data = xs @ data"
  by (cases "data = []") (simp_all add: pwrite_def resize_def Let_def)

lemma length_pwrite [simp]: "length (pwrite buf off data) = max (length buf) (off + length data)"
  by (auto simp: pwrite_def Let_def)

text \<open>
  One write through a handle, as the code does it: \<open>c\<close> is the committed contents of the file, the
  flag tells whether the handle is still streaming. Only the first write at a non-zero offset
  looks at \<open>c\<close>.
\<close>

definition ref_write :: "bytes \<Rightarrow> u64 \<times> bytes \<Rightarrow> bool \<times> bytes \<Rightarrow> bool \<times> bytes" where
  "ref_write c w st =
     (case st of (streaming, xs) \<Rightarrow> case w of (off, data) \<Rightarrow>
        if streaming \<and> unat off = length xs then (True, xs @ data)
        else (False, pwrite (if streaming \<and> xs = [] then c else xs) (unat off) data))"

text \<open>For a file without committed contents this is \<open>pwrite\<close>, in both modes.\<close>

lemma ref_write_empty: "snd (ref_write [] (off, data) (b, xs)) = pwrite xs (unat off) data"
  by (auto simp: ref_write_def pwrite_append)

lemma ref_writes_empty:
  "snd (fold (ref_write []) ws (b, xs)) = fold (\<lambda>(off, data) buf. pwrite buf (unat off) data) ws xs"
proof (induction ws arbitrary: b xs)
  case (Cons w ws)
  obtain off data where w: "w = (off, data)" by (cases w)
  obtain b' xs' where st: "ref_write [] (off, data) (b, xs) = (b', xs')" by (cases "ref_write [] (off, data) (b, xs)")
  have "xs' = pwrite xs (unat off) data" using ref_write_empty [of off data b xs] st by simp
  then show ?case using Cons.IH [of b' xs'] by (simp add: w st)
qed simp

subsection \<open>What a handle holds\<close>

definition handle_holds :: "('io, 'st) blockset \<Rightarrow> 'io \<Rightarrow> 'st open_file_state \<Rightarrow> bool \<times> bytes \<Rightarrow> bool" where
  "handle_holds B io h st \<longleftrightarrow>
     (case of_write_mode h of
        Streaming state n \<Rightarrow> fst st \<and> bs_absorbed B io state (snd st) \<and> n = of_nat (length (snd st))
      | Buffered buf \<Rightarrow> \<not> fst st \<and> buf = snd st) \<and>
     of_byte_count h = of_nat (length (snd st)) \<and> length (snd st) < 2 ^ 64"

definition file_has :: "('io, 'st) blockset \<Rightarrow> 'io \<Rightarrow> meta_state \<Rightarrow> u64 \<Rightarrow> bytes \<Rightarrow> bool" where
  "file_has B io a i c \<longleftrightarrow>
     (case a_manifests a i of Some (d # _) \<Rightarrow> storage_get B io d = Some c | _ \<Rightarrow> c = [])"

text \<open>The abstract states that differ in reference counts only.\<close>

definition same_but_refs :: "meta_state \<Rightarrow> meta_state \<Rightarrow> bool" where
  "same_but_refs a a' \<longleftrightarrow> a_inodes a' = a_inodes a \<and> a_dirs a' = a_dirs a \<and> a_manifests a' = a_manifests a \<and>
     a_xattrs a' = a_xattrs a \<and> a_next a' = a_next a"

lemma handle_holds_grows:
  "bs_grows B io io' \<Longrightarrow> bs_ok B io' \<Longrightarrow> handle_holds B io h st \<Longrightarrow> handle_holds B io' h st"
  unfolding handle_holds_def by (auto split: write_mode.splits dest: bs_growsD(3))

lemma file_has_grows:
  "bs_grows B io io' \<Longrightarrow> bs_ok B io' \<Longrightarrow> file_has B io a i c \<Longrightarrow> file_has B io' a i c"
  unfolding file_has_def by (auto split: option.splits list.splits dest: bs_growsD(2))

lemma file_has_unique: "file_has B io a i c \<Longrightarrow> file_has B io a i c' \<Longrightarrow> c = c'"
  by (auto simp: file_has_def split: option.splits list.splits)

lemma get_manifest_at:
  assumes "store_rel B m a"
  shows "get_manifest B i m = (case a_manifests a i of None \<Rightarrow> Err (NotFound i) | Some bl \<Rightarrow> Ok bl)"
  using store_relD(3) [OF assms] by (rule denotes_cases [where k = i]) (simp_all add: get_manifest_def load_at)

lemma committed_content_has:
  "store_rel B m a \<Longrightarrow> file_has B (ds_io m) a i c \<Longrightarrow> committed_content B i m = c"
  by (auto simp: committed_content_def file_has_def get_manifest_at unwrap_or_default_def split: option.splits list.splits)

lemma of_nat_length_eq: "n < 2 ^ 64 \<Longrightarrow> off = (of_nat n :: u64) \<longleftrightarrow> unat off = n"
  by (auto simp: unat_of_nat)

lemma of_nat_length_pos: "n < 2 ^ 64 \<Longrightarrow> (of_nat n :: u64) > 0 \<longleftrightarrow> n > 0"
  by (simp add: word_less_nat_alt unat_of_nat)

lemma materialize_holds:
  assumes "blockset_laws B" "materialize B io st = (io', r)" "bs_absorbed B io st xs" "bs_ok B io'"
  shows "r = Some xs"
proof -
  obtain d where "st_end B io st = (io', d)" "r = storage_get B io' d"
    using assms(2) by (auto simp: materialize_def split: prod.splits)
  then show ?thesis using st_end_get [OF assms(1) _ assms(3,4)] by simp
qed

lemma new_handle_holds: "blockset_laws B \<Longrightarrow> handle_holds B io (new_handle B i) (True, [])"
  by (simp add: handle_holds_def new_handle_def st_default_absorbed)

text \<open>Changing reference counts keeps the relation.\<close>

lemma same_but_refs_put: "same_but_refs a (a\<lparr>a_refs := r\<rparr>)" "same_but_refs a a"
  by (simp_all add: same_but_refs_def)

lemma same_but_refs_trans: "same_but_refs a b \<Longrightarrow> same_but_refs b c \<Longrightarrow> same_but_refs a c"
  by (simp add: same_but_refs_def)

lemma decrement_refcount_rel:
  assumes "store_rel B m a"
  shows "\<exists>a'. same_but_refs a a' \<and> store_rel B (decrement_refcount d m) a'"
proof (cases "\<exists>v. decrement_refcount d m = m\<lparr>ds_refcounts := bt_insert d v (ds_refcounts m)\<rparr>")
  case True
  then show ?thesis using store_rel_put(4) [OF assms] same_but_refs_put(1) by metis
next
  case False
  then have "decrement_refcount d m = m \<or> decrement_refcount d m = m\<lparr>ds_refcounts := bt_remove d (ds_refcounts m)\<rparr>"
    by (auto simp: decrement_refcount_def split: option.splits if_splits)
  then show ?thesis using store_rel_put(5) [OF assms] same_but_refs_put assms by metis
qed

lemma increment_refcount_rel:
  assumes "store_rel B m a"
  shows "\<exists>a'. same_but_refs a a' \<and> store_rel B (increment_refcount d m) a'"
proof -
  have "\<exists>v. increment_refcount d m = m\<lparr>ds_refcounts := bt_insert d v (ds_refcounts m)\<rparr>"
    unfolding increment_refcount_def Let_def by metis
  then show ?thesis using store_rel_put(4) [OF assms] same_but_refs_put(1) by metis
qed

lemma decrement_opt_rel:
  assumes "store_rel B m a"
  shows "\<exists>a'. same_but_refs a a' \<and> store_rel B (decrement_opt old m) a'"
  using decrement_refcount_rel [OF assms] assms same_but_refs_put(2) [of a]
  by (cases old) (auto simp: decrement_opt_def)

lemma file_has_refs: "same_but_refs a a' \<Longrightarrow> file_has B io a' i c \<longleftrightarrow> file_has B io a i c"
  by (simp add: file_has_def same_but_refs_def)

subsection \<open>One write\<close>

definition fs_rel :: "('io, 'st) blockset \<Rightarrow> ('io, 'st) fs \<Rightarrow> meta_state \<Rightarrow> bool" where
  "fs_rel B s a \<longleftrightarrow> store_rel B (fs_meta s) a \<and> bt_sorted (fs_open_files s)"

lemma fs_rel_io:
  assumes "fs_rel B s a" "bs_grows B (fs_io s) io" "bs_ok B io"
  shows "fs_rel B (set_io io s) a"
  using assms store_rel_grows by (auto simp: fs_rel_def set_io_def)

lemma fs_rel_handle [simp]:
  "fs_rel B s a \<Longrightarrow> fs_rel B (set_handle fh h s) a" "fs_rel B s a \<Longrightarrow> fs_rel B (drop_handle fh s) a"
  by (auto simp: fs_rel_def set_handle_def drop_handle_def bt_sorted_insert bt_sorted_remove)

lemma fs_handles [simp]:
  "bt_get (fs_open_files (set_handle fh h s)) = (bt_get (fs_open_files s))(fh \<mapsto> h)"
  "fs_open_files (set_io io s) = fs_open_files s"
  "bt_sorted (fs_open_files s) \<Longrightarrow> bt_get (fs_open_files (drop_handle fh s)) = (bt_get (fs_open_files s))(fh := None)"
  by (simp_all add: set_handle_def drop_handle_def set_io_def bt_get_insert bt_get_remove)

text \<open>The result of a write on a handle that holds \<open>st\<close>, in a file with committed contents \<open>c\<close>.\<close>

definition write_result ::
  "('io, 'st) blockset \<Rightarrow> u64 \<Rightarrow> 'st open_file_state \<Rightarrow> bool \<times> bytes \<Rightarrow> bytes \<Rightarrow> ('io, 'st) fs \<Rightarrow> meta_state \<Rightarrow>
   ('io, 'st) fs \<times> (fs_fault + u32) \<Rightarrow> bool" where
  "write_result B fh h st data s a r \<longleftrightarrow>
     snd r = Ok (of_nat (length data)) \<and> (\<exists>a'. same_but_refs a a' \<and> fs_rel B (fst r) a') \<and>
     (\<exists>h'. bt_get (fs_open_files (fst r)) = (bt_get (fs_open_files s))(fh \<mapsto> h') \<and>
        handle_holds B (fs_io (fst r)) h' st \<and> of_ino h' = of_ino h \<and> \<not> of_cas_committed h')"

lemma buffered_handle_holds:
  "length buf < 2 ^ 64 \<Longrightarrow> of_write_mode h = Buffered buf \<Longrightarrow> of_byte_count h = of_nat (length buf) \<Longrightarrow>
   handle_holds B io h (False, buf)"
  by (simp add: handle_holds_def)

lemma no_wrap: "unat off + length data < 2 ^ 64 \<Longrightarrow> \<not> end_wraps off data"
  by (simp add: end_wraps_def)

lemma write_fallback_correct:
  assumes laws: "blockset_laws B" and rel: "fs_rel B s a" and holds: "handle_holds B (fs_io s) h (True, xs)"
    and mode: "of_write_mode h = Streaming state n" and has: "file_has B (fs_io s) a (of_ino h) c" "length c < 2 ^ 64"
    and fits: "unat off + length data < 2 ^ 64"
    and ok: "bs_ok B (fs_io (fst (write_fallback B fh h state off data s)))"
  shows "write_result B fh h (False, pwrite (if xs = [] then c else xs) (unat off) data) data s a
    (write_fallback B fh h state off data s)"
proof -
  define base where "base = (if xs = [] then c else xs)"
  have xs: "bs_absorbed B (fs_io s) state xs" "of_byte_count h = of_nat (length xs)" "length xs < 2 ^ 64"
    using holds mode by (auto simp: handle_holds_def)
  have base: "length base < 2 ^ 64" using xs has by (simp add: base_def)
  define q where "q = (if of_byte_count h > 0
    then let (io, r) = materialize B (fs_io s) state in (set_io io s, unwrap_or_default r)
    else (s, committed_content B (of_ino h) (fs_meta s)))"
  have run: "write_fallback B fh h state off data s =
     (let buf = pwrite (snd q) (unat off) data in
      (set_handle fh (h\<lparr>of_write_mode := Buffered buf, of_byte_count := of_nat (length buf),
         of_cas_committed := False, of_last_committed_root := None\<rparr>)
         ((fst q)\<lparr>fs_meta := decrement_opt (of_last_committed_root h) (fs_meta (fst q))\<rparr>), Ok (of_nat (length data))))"
    using no_wrap [OF fits] by (simp add: write_fallback_def q_def [symmetric] split_def Let_def)
  have ok': "bs_ok B (fs_io (fst q))" using ok by (simp add: run Let_def)
  have q: "snd q = base \<and> fs_rel B (fst q) a \<and> fs_open_files (fst q) = fs_open_files s"
  proof (cases "xs = []")
    case True
    then show ?thesis using rel xs(2) committed_content_has [OF _ has(1)] by (simp add: q_def base_def fs_rel_def)
  next
    case False
    obtain io r where mat: "materialize B (fs_io s) state = (io, r)" by (cases "materialize B (fs_io s) state")
    have q: "q = (set_io io s, unwrap_or_default r)"
      using False xs(2,3) by (simp add: q_def mat of_nat_length_pos)
    have io: "bs_ok B io" using ok' by (simp add: q)
    have "r = Some xs" by (rule materialize_holds [OF laws mat xs(1) io])
    then show ?thesis using False fs_rel_io [OF rel hash_steps(3) [OF laws mat] io]
      by (simp add: q base_def unwrap_or_default_def)
  qed
  obtain a' where a': "same_but_refs a a'" "store_rel B (decrement_opt (of_last_committed_root h) (fs_meta (fst q))) a'"
    using decrement_opt_rel q unfolding fs_rel_def by metis
  have "fs_rel B ((fst q)\<lparr>fs_meta := decrement_opt (of_last_committed_root h) (fs_meta (fst q))\<rparr>) a'"
    using a'(2) q by (auto simp: fs_rel_def)
  then show ?thesis
    using a'(1) q base fits unfolding write_result_def run base_def [symmetric] Let_def
    by (auto intro!: exI [of _ a'] buffered_handle_holds)
qed

lemma test_write_correct:
  assumes laws: "blockset_laws B" and rel: "fs_rel B s a" and h: "bt_get (fs_open_files s) fh = Some h"
    and holds: "handle_holds B (fs_io s) h st" and has: "file_has B (fs_io s) a (of_ino h) c" "length c < 2 ^ 64"
    and fits: "unat off + length data < 2 ^ 64" and ok: "bs_ok B (fs_io (fst (test_write B fh off data s)))"
  shows "write_result B fh h (ref_write c (off, data) st) data s a (test_write B fh off data s)"
proof (cases "of_write_mode h")
  case (Buffered buf)
  then have st: "st = (False, buf)" "length buf < 2 ^ 64" using holds by (auto simp: handle_holds_def prod_eq_iff)
  show ?thesis
    using rel fits st(2) no_wrap [OF fits]
    by (auto simp: write_result_def test_write_def h Buffered st(1) ref_write_def Let_def
        intro!: buffered_handle_holds exI [of _ a] same_but_refs_put(2))
next
  case (Streaming state n)
  then obtain xs where st: "st = (True, xs)" "bs_absorbed B (fs_io s) state xs" "n = of_nat (length xs)"
      "of_byte_count h = of_nat (length xs)" "length xs < 2 ^ 64"
    using holds by (cases st) (auto simp: handle_holds_def)
  have off: "off = n \<longleftrightarrow> unat off = length xs" unfolding st(3) by (rule of_nat_length_eq [OF st(5)])
  show ?thesis
  proof (cases "off = n")
    case False
    then have "test_write B fh off data s = write_fallback B fh h state off data s"
      by (simp add: test_write_def h Streaming)
    moreover have "ref_write c (off, data) st = (False, pwrite (if xs = [] then c else xs) (unat off) data)"
      using False off by (simp add: ref_write_def st(1))
    ultimately show ?thesis
      using write_fallback_correct [OF laws rel holds [unfolded st(1)] Streaming has fits] ok by metis
  next
    case True
    obtain e io st' where push: "st_push B (fs_io s) state data = (e, io, st')" by (metis surj_pair)
    have "fs_io (fst (test_write B fh off data s)) = io"
      using True by (simp add: test_write_def h Streaming push Let_def)
    then have io: "bs_ok B io" using ok by simp
    note abs = st_push_absorbed [OF laws push io st(2)]
    let ?h = "h\<lparr>of_write_mode := Streaming st' (n + of_nat (length data)),
      of_byte_count := of_byte_count h + of_nat (length data), of_cas_committed := False\<rparr>"
    have run: "test_write B fh off data s = (set_handle fh ?h (set_io io s), Ok (of_nat (length data)))"
      using True abs by (simp add: test_write_def h Streaming push Let_def)
    have "fs_rel B (set_io io s) a" by (rule fs_rel_io [OF rel hash_steps(2) [OF laws push] io])
    moreover have "length (xs @ data) < 2 ^ 64" using fits True off by simp
    moreover have "ref_write c (off, data) st = (True, xs @ data)" using True off by (simp add: ref_write_def st(1))
    ultimately show ?thesis
      using abs st(3,4) same_but_refs_put(2) [of a]
      unfolding write_result_def run fst_conv snd_conv by (auto simp: handle_holds_def)
  qed
qed

subsection \<open>Storing a digest and a size\<close>

lemma set_manifest_step:
  assumes "blockset_laws B" "store_rel B m a" "set_manifest B i bl m = (m', r)" "bs_ok B (ds_io m')"
  shows "r = Ok () \<and> store_rel B m' (a\<lparr>a_manifests := (a_manifests a)(i \<mapsto> bl)\<rparr>)"
proof -
  have "r = Ok ()" using assms(3) by (auto simp: set_manifest_def Let_def split: prod.splits)
  then show ?thesis
    using set_manifest_refines [OF assms(1,2), of i bl] assms(3,4) by (simp add: refine_simps)
qed

text \<open>The states of a file system that agree on the handles, and their relation to an abstract state.\<close>

definition fs_step :: "('io, 'st) blockset \<Rightarrow> ('io, 'st) fs \<Rightarrow> ('io, 'st) fs \<times> (fs_fault + 'a) \<Rightarrow> 'a \<Rightarrow> meta_state \<Rightarrow> bool" where
  "fs_step B s r x a' \<longleftrightarrow> snd r = Ok x \<and> fs_rel B (fst r) a' \<and> fs_open_files (fst r) = fs_open_files s"

lemma modify_refs_step:
  assumes "fs_rel B s a" and "\<And>m. store_rel B m a \<Longrightarrow> \<exists>a'. same_but_refs a a' \<and> store_rel B (f m) a'"
  shows "\<exists>a'. same_but_refs a a' \<and> fs_step B s (modify_meta f s) () a'"
  using assms unfolding fs_rel_def fs_step_def modify_meta_def by fastforce

lemma on_set_manifest_step:
  assumes "blockset_laws B" "fs_rel B s a" "bs_ok B (fs_io (fst (on_meta g (set_manifest B i bl) s)))"
  shows "fs_step B s (on_meta g (set_manifest B i bl) s) () (a\<lparr>a_manifests := (a_manifests a)(i \<mapsto> bl)\<rparr>)"
  using assms set_manifest_step [OF assms(1), of "fs_meta s" a i bl]
  by (cases "set_manifest B i bl (fs_meta s)") (auto simp: fs_step_def on_meta_def fs_rel_def map_errno_def)

lemma and_then_step:
  assumes "fs_step B s (m s) x a'"
  shows "and_then m f s = f x (fst (m s))"
  using assms by (cases "m s") (simp add: fs_step_def and_then_def)

lemma op_grows_ok: "op_grows B m \<Longrightarrow> bs_ok B (fs_io (fst (m s))) \<Longrightarrow> bs_ok B (fs_io s)"
  using bs_growsD(1) [OF op_grows_fst] by blast

lemma commit_digest_step:
  assumes laws: "blockset_laws B" and rel: "fs_rel B s a" and ok: "bs_ok B (fs_io (fst (commit_digest B i old d s)))"
  shows "\<exists>a'. same_but_refs (a\<lparr>a_manifests := (a_manifests a)(i \<mapsto> [d])\<rparr>) a' \<and> fs_step B s (commit_digest B i old d s) () a'"
proof -
  let ?f = "if old = Some d then id else decrement_opt old" and ?g = "if old = Some d then id else increment_refcount d"
  obtain a1 where 1: "same_but_refs a a1" "fs_step B s (modify_meta ?f s) () a1"
  proof -
    have "store_rel B m a \<Longrightarrow> \<exists>a'. same_but_refs a a' \<and> store_rel B (?f m) a'" for m
      using decrement_opt_rel [of B m a old] same_but_refs_put(2) [of a] by (cases "old = Some d") auto
    then show thesis using modify_refs_step [OF rel, of ?f] that by blast
  qed
  define s1 where "s1 = fst (modify_meta ?f s)"
  define s2 where "s2 = fst (on_meta as_eio (set_manifest B i [d]) s1)"
  have run: "commit_digest B i old d s =
      and_then (on_meta as_eio (set_manifest B i [d])) (\<lambda>_. modify_meta ?g) s1"
    unfolding commit_digest_def s1_def by (rule and_then_step [of B s "modify_meta ?f", OF 1(2)])
  have rel1: "fs_rel B s1 a1" using 1(2) by (simp add: fs_step_def s1_def)
  have "op_grows B (modify_meta ?g)" by (intro grows_intros) simp
  moreover have "bs_ok B (fs_io (fst (modify_meta ?g s2)))"
    using ok unfolding run s2_def by (simp add: and_then_def on_meta_def set_manifest_def map_errno_def split_def Let_def)
  ultimately have ok2: "bs_ok B (fs_io s2)" by (rule op_grows_ok)
  note 2 = on_set_manifest_step [OF laws rel1, of as_eio i "[d]", folded s2_def, OF ok2]
  have rel2: "fs_rel B s2 (a1\<lparr>a_manifests := (a_manifests a1)(i \<mapsto> [d])\<rparr>)" using 2 by (simp add: fs_step_def s2_def)
  obtain a3 where 3: "same_but_refs (a1\<lparr>a_manifests := (a_manifests a1)(i \<mapsto> [d])\<rparr>) a3" "fs_step B s2 (modify_meta ?g s2) () a3"
  proof -
    have "store_rel B m b \<Longrightarrow> \<exists>a'. same_but_refs b a' \<and> store_rel B (?g m) a'" for m b
      using increment_refcount_rel [of B m b d] same_but_refs_put(2) [of b] by (cases "old = Some d") auto
    then show thesis using modify_refs_step [OF rel2, of ?g] that by blast
  qed
  have "commit_digest B i old d s = modify_meta ?g s2" unfolding run s2_def by (rule and_then_step [of B s1 "on_meta as_eio (set_manifest B i [d])", OF 2])
  moreover have "fs_open_files s2 = fs_open_files s" using 1(2) 2 by (simp add: fs_step_def s1_def s2_def)
  moreover have "same_but_refs (a\<lparr>a_manifests := (a_manifests a)(i \<mapsto> [d])\<rparr>) a3"
    using 1(1) 3(1) by (simp add: same_but_refs_def)
  ultimately show ?thesis using 3(2) unfolding fs_step_def by metis
qed

lemma store_size_step:
  assumes laws: "blockset_laws B" and rel: "fs_rel B s a" and m: "a_inodes a i = Some m"
    and touch: "\<And>m. ino (touch m) = ino m \<and> size (touch m) = size m"
    and fits: "total_size ((a_inodes a)(i := None)) + unat sz < 2 ^ 64"
    and ok: "bs_ok B (fs_io (fst (store_size B touch i sz s)))"
  shows "fs_step B s (store_size B touch i sz s) () (a\<lparr>a_inodes := (a_inodes a)(i \<mapsto> touch (m\<lparr>size := sz\<rparr>))\<rparr>)"
proof -
  let ?m = "touch (m\<lparr>size := sz\<rparr>)"
  have store: "store_rel B (fs_meta s) a" using rel by (simp add: fs_rel_def)
  have i: "ino ?m = i" "size ?m = sz" using store_relD(8) [OF store m] touch by auto
  have run: "store_size B touch i sz s = on_meta as_eio (update_inode B ?m) s"
    by (simp add: store_size_def and_then_def ask_meta_def get_inode_at [OF store] m map_errno_def)
  obtain m' r where upd: "update_inode B ?m (fs_meta s) = (m', r)" by (cases "update_inode B ?m (fs_meta s)")
  have "total_size ((a_inodes a)(ino ?m \<mapsto> ?m)) < 2 ^ 64"
    using total_size_insert [OF store_relD(11) [OF store], of i ?m] fits i by simp
  moreover have "a_inodes a (ino ?m) = Some m" using m i by simp
  moreover have "bs_ok B (ds_io m')" using ok by (simp add: run on_meta_def upd Let_def)
  ultimately have "store_rel B m' (a\<lparr>a_inodes := (a_inodes a)(ino ?m \<mapsto> ?m)\<rparr>) \<and> r = Ok ()"
    using update_inode_step [OF laws store _ _ upd] by blast
  then show ?thesis using rel i by (simp add: fs_step_def run on_meta_def upd map_errno_def fs_rel_def)
qed

lemma finalize_holds:
  assumes laws: "blockset_laws B" and holds: "handle_holds B io h st" and fin: "finalize B io (of_write_mode h) = (io', d)"
    and ok: "bs_ok B io'"
  shows "storage_get B io' d = Some (snd st)"
proof (cases "of_write_mode h")
  case (Streaming state n)
  then show ?thesis using holds fin st_end_get [OF laws _ _ ok] by (auto simp: handle_holds_def finalize_def)
next
  case (Buffered buf)
  then have buf: "buf = snd st" using holds by (simp add: handle_holds_def)
  obtain io1 st1 where push: "push_fresh B io buf = (io1, st1)" by (cases "push_fresh B io buf")
  have "end": "st_end B io1 st1 = (io', d)" using fin by (simp add: finalize_def Buffered push)
  have "bs_ok B io1" using bs_growsD(1) [OF hash_steps(1) [OF laws "end"] ok] .
  then have "bs_absorbed B io1 st1 buf"
    using push st_push_absorbed [OF laws _ _ st_default_absorbed [OF laws]]
    by (auto simp: push_fresh_def split: prod.splits)
  then show ?thesis using st_end_get [OF laws "end" _ ok] by (simp add: buf)
qed

end
