(* ===== verification/Session.thy ===== *)
theory Session
  imports File_IO
begin

section \<open>A session on an open file\<close>

text \<open>
  A process opens a file and writes, reads, flushes and resizes it through one handle. The record
  \<open>session\<close> is what the code promises about such a session: the bytes of the handle, the committed
  bytes of the file and its size. \<open>session_spec\<close> is the effect of each operation on it, and the
  session of the model refines it: the handle modes, the hash states, the manifests and the inode
  records are gone.
\<close>

record session =
  ss_streaming :: bool \<comment> \<open>still only appending\<close>
  ss_buf :: bytes \<comment> \<open>the bytes of the handle\<close>
  ss_file :: "bytes option" \<comment> \<open>the committed bytes; \<open>None\<close> when there is no manifest yet\<close>
  ss_size :: u64 \<comment> \<open>the size in the inode\<close>
  ss_rest :: nat \<comment> \<open>the bytes of all other files\<close>

datatype session_op = SWrite u64 bytes | SRead u64 u32 | SFlush clock | SResize clock u64

datatype session_resp = SWritten u32 | SData bytes | SDone

definition session_step ::
  "('io, 'st) blockset \<Rightarrow> ((u64, 'st open_file_state) btree \<Rightarrow> (u64 \<times> 'st open_file_state) list) \<Rightarrow> u64 \<Rightarrow> u64 \<Rightarrow>
   session_op \<Rightarrow> (('io, 'st) fs, session_resp) fs_op" where
  "session_step B iter i fh oper =
     (case oper of
        SWrite off data \<Rightarrow> and_then (test_write B fh off data) (\<lambda>n. ret (SWritten n))
      | SRead off sz \<Rightarrow> and_then (test_read B iter i off sz) (\<lambda>d. ret (SData d))
      | SFlush now \<Rightarrow> and_then (test_flush B now i fh) (\<lambda>_. ret SDone)
      | SResize now n \<Rightarrow> and_then (test_setattr_size B now i (Some fh) n) (\<lambda>_. ret SDone))"

definition file_bytes :: "session \<Rightarrow> bytes" where
  "file_bytes r = unwrap_or_default (ss_file r)"

definition spec_commit :: "session \<Rightarrow> session" where
  "spec_commit r =
     (if ss_buf r = [] then r else r\<lparr>ss_file := Some (ss_buf r), ss_size := of_nat (length (ss_buf r))\<rparr>)"

definition spec_resize :: "u64 \<Rightarrow> session \<Rightarrow> session" where
  "spec_resize n r = r\<lparr>ss_size := n, ss_buf := resize (unat n) (ss_buf r)\<rparr>"

definition session_spec :: "session_op \<Rightarrow> session \<Rightarrow> session \<times> (fs_fault + session_resp)" where
  "session_spec oper r =
     (case oper of
        SWrite off data \<Rightarrow>
          (case ref_write (file_bytes r) (off, data) (ss_streaming r, ss_buf r) of
             (b, xs) \<Rightarrow> (r\<lparr>ss_streaming := b, ss_buf := xs\<rparr>, Ok (SWritten (of_nat (length data)))))
      | SRead off sz \<Rightarrow>
          (r, if ss_buf r \<noteq> [] then Ok (SData (sub_range (ss_buf r) off sz))
              else case ss_file r of None \<Rightarrow> Err (Errno EIO) | Some c \<Rightarrow> Ok (SData (sub_range c off sz)))
      | SFlush now \<Rightarrow> (spec_commit r, Ok SDone)
      | SResize now n \<Rightarrow> (spec_resize n r, Ok SDone))"

definition session_allowed :: "session_op \<Rightarrow> session \<Rightarrow> bool" where
  "session_allowed oper r =
     (case oper of
        SWrite off data \<Rightarrow> unat off + length data < 2 ^ 64
      | SRead off sz \<Rightarrow> True
      | SFlush now \<Rightarrow> ss_rest r + length (ss_buf r) < 2 ^ 64
      | SResize now n \<Rightarrow> ss_rest r + unat n < 2 ^ 64)"

definition spec_release :: "session \<Rightarrow> session" where
  "spec_release r = (let r = spec_commit r in r\<lparr>ss_file := Some (file_bytes r), ss_buf := []\<rparr>)"

subsection \<open>The relation to the file system\<close>

definition only_writer :: "u64 \<Rightarrow> u64 \<Rightarrow> ('io, 'st) fs \<Rightarrow> bool" where
  "only_writer i fh s \<longleftrightarrow>
     (\<forall>fh' h. bt_get (fs_open_files s) fh' = Some h \<longrightarrow> of_ino h = i \<longrightarrow> fh' \<noteq> fh \<longrightarrow> of_byte_count h = 0)"

text \<open>The part of the relation that does not mention the handle.\<close>

definition file_rel :: "('io, 'st) blockset \<Rightarrow> u64 \<Rightarrow> ('io, 'st) fs \<Rightarrow> meta_state \<Rightarrow> session \<Rightarrow> bool" where
  "file_rel B i s a r \<longleftrightarrow> fs_rel B s a \<and>
     (a_manifests a i = None \<longleftrightarrow> ss_file r = None) \<and> file_has B (fs_io s) a i (file_bytes r) \<and>
     length (file_bytes r) < 2 ^ 64 \<and> total_size ((a_inodes a)(i := None)) = ss_rest r \<and>
     map_option size (a_inodes a i) = Some (ss_size r)"

definition handle_rel :: "('io, 'st) blockset \<Rightarrow> 'io \<Rightarrow> 'st open_file_state \<Rightarrow> session \<Rightarrow> bool" where
  "handle_rel B io h r \<longleftrightarrow> handle_holds B io h (ss_streaming r, ss_buf r) \<and>
     (of_cas_committed h \<longrightarrow> ss_buf r \<noteq> [] \<and> spec_commit r = r)"

definition session_rel :: "('io, 'st) blockset \<Rightarrow> u64 \<Rightarrow> u64 \<Rightarrow> ('io, 'st) fs \<Rightarrow> session \<Rightarrow> bool" where
  "session_rel B i fh s r \<longleftrightarrow> (\<exists>a. file_rel B i s a r) \<and> only_writer i fh s \<and>
     (\<exists>h. bt_get (fs_open_files s) fh = Some h \<and> of_ino h = i \<and> handle_rel B (fs_io s) h r)"

lemma session_relE:
  assumes "session_rel B i fh s r"
  obtains a h where "file_rel B i s a r" "only_writer i fh s" "bt_get (fs_open_files s) fh = Some h"
    "of_ino h = i" "handle_rel B (fs_io s) h r"
  using assms unfolding session_rel_def by blast

lemma session_relI:
  "file_rel B i s a r \<Longrightarrow> only_writer i fh s \<Longrightarrow> bt_get (fs_open_files s) fh = Some h \<Longrightarrow> of_ino h = i \<Longrightarrow>
   handle_rel B (fs_io s) h r \<Longrightarrow> session_rel B i fh s r"
  unfolding session_rel_def by blast

lemma file_rel_refs:
  "file_rel B i s a r \<Longrightarrow> same_but_refs a a' \<Longrightarrow> fs_rel B s' a' \<Longrightarrow> bs_grows B (fs_io s) (fs_io s') \<Longrightarrow>
   bs_ok B (fs_io s') \<Longrightarrow> file_rel B i s' a' r"
  using file_has_grows [of B "fs_io s" "fs_io s'" a i] file_has_refs [of a a' B "fs_io s'" i]
  by (auto simp: file_rel_def same_but_refs_def)

lemma file_rel_buf: "file_rel B i s a (r\<lparr>ss_buf := xs\<rparr>) = file_rel B i s a r"
  "file_rel B i s a (r\<lparr>ss_streaming := b\<rparr>) = file_rel B i s a r"
  by (simp_all add: file_rel_def file_bytes_def)

lemma only_writer_put:
  "only_writer i fh s \<Longrightarrow> bt_get (fs_open_files s') = (bt_get (fs_open_files s))(fh \<mapsto> h) \<Longrightarrow> only_writer i fh s'"
  "only_writer i fh s \<Longrightarrow> fs_open_files s' = fs_open_files s \<Longrightarrow> only_writer i fh s'"
  by (simp_all add: only_writer_def)

lemma and_then_ret:
  "and_then m (\<lambda>x. ret (f x)) s = (fst (m s), case snd (m s) of Err e \<Rightarrow> Err e | Ok x \<Rightarrow> Ok (f x))"
  by (cases "m s") (simp add: and_then_def ret_def split: sum.splits)

subsection \<open>Writing\<close>

lemma session_write:
  assumes laws: "blockset_laws B" and rel: "session_rel B i fh s r" and fits: "unat off + length data < 2 ^ 64"
    and ok: "bs_ok B (fs_io (fst (test_write B fh off data s)))"
    and st: "ref_write (file_bytes r) (off, data) (ss_streaming r, ss_buf r) = (b, xs)"
  shows "snd (test_write B fh off data s) = Ok (of_nat (length data)) \<and>
    session_rel B i fh (fst (test_write B fh off data s)) (r\<lparr>ss_streaming := b, ss_buf := xs\<rparr>)"
proof -
  from rel obtain a h where a: "file_rel B i s a r" "only_writer i fh s" "bt_get (fs_open_files s) fh = Some h"
    "of_ino h = i" "handle_rel B (fs_io s) h r" by (rule session_relE)
  let ?s = "fst (test_write B fh off data s)"
  have "write_result B fh h (b, xs) data s a (test_write B fh off data s)"
    using test_write_correct [OF laws _ a(3) _ _ _ fits ok, of a "(ss_streaming r, ss_buf r)" "file_bytes r"] a(1,4,5) st
    by (simp add: file_rel_def handle_rel_def)
  then obtain a' h' where w: "snd (test_write B fh off data s) = Ok (of_nat (length data))" "same_but_refs a a'"
      "fs_rel B ?s a'" "bt_get (fs_open_files ?s) = (bt_get (fs_open_files s))(fh \<mapsto> h')"
      "handle_holds B (fs_io ?s) h' (b, xs)" "of_ino h' = of_ino h" "\<not> of_cas_committed h'"
    unfolding write_result_def by auto
  have "file_rel B i ?s a' r" by (rule file_rel_refs [OF a(1) w(2,3) op_grows_fst [OF test_write_grows [OF laws]] ok])
  then have "session_rel B i fh ?s (r\<lparr>ss_streaming := b, ss_buf := xs\<rparr>)"
    using only_writer_put(1) [OF a(2) w(4)] w(4-7) a(4)
    by (intro session_relI [of _ _ _ a' _ _ h']) (simp_all add: file_rel_buf handle_rel_def)
  then show ?thesis using w(1) by simp
qed

subsection \<open>Reading\<close>

lemma find_unique:
  assumes "x \<in> set xs" "P x" and uniq: "\<And>y. y \<in> set xs \<Longrightarrow> P y \<Longrightarrow> y = x"
  shows "find P xs = Some x"
proof (cases "find P xs")
  case None
  then show ?thesis using assms(1,2) by (simp add: find_None_iff)
next
  case (Some y)
  then have "y \<in> set xs" "P y" by (auto simp: find_Some_iff)
  then show ?thesis using uniq Some by blast
qed

lemma bt_get_set: "bt_sorted m \<Longrightarrow> (k, v) \<in> set m \<longleftrightarrow> bt_get m k = Some v"
  by (rule map_of_eq_Some_iff [OF bt_sorted_distinct, symmetric])

lemma only_writerD:
  "only_writer i fh s \<Longrightarrow> bt_get (fs_open_files s) fh' = Some h \<Longrightarrow> of_ino h = i \<Longrightarrow> of_byte_count h > 0 \<Longrightarrow> fh' = fh"
  unfolding only_writer_def by force

lemma find_writer:
  assumes iter: "set (iter (fs_open_files s)) = set (fs_open_files s)" and sorted: "bt_sorted (fs_open_files s)"
    and only: "only_writer i fh s" and h: "bt_get (fs_open_files s) fh = Some h" "of_ino h = i"
  shows "find (\<lambda>(_, h). of_ino h = i \<and> of_byte_count h > 0) (iter (fs_open_files s)) =
    (if of_byte_count h > 0 then Some (fh, h) else None)" (is "find ?P ?xs = _")
proof -
  have uniq: "kv = (fh, h)" if "kv \<in> set ?xs" "?P kv" for kv
  proof -
    obtain k v where kv: "kv = (k, v)" by (cases kv)
    have get: "bt_get (fs_open_files s) k = Some v" using that(1) bt_get_set [OF sorted, of k v] by (simp only: iter kv)
    have "k = fh" using only_writerD [OF only get] that(2) by (simp add: kv)
    then show ?thesis using get h(1) by (simp add: kv)
  qed
  have "(fh, h) \<in> set ?xs" using h(1) bt_get_set [OF sorted, of fh h] by (simp only: iter)
  then have "of_byte_count h > 0 \<Longrightarrow> find ?P ?xs = Some (fh, h)"
    by (rule find_unique) (use h(2) uniq in simp_all)
  moreover have "\<not> of_byte_count h > 0 \<Longrightarrow> find ?P ?xs = None"
    unfolding find_None_iff using uniq by fastforce
  ultimately show ?thesis by simp
qed

text \<open>A read that finds no handle with bytes returns the committed contents.\<close>

lemma read_committed:
  assumes "find (\<lambda>(_, h). of_ino h = i \<and> of_byte_count h > 0) (iter (fs_open_files s)) = None"
    and "file_rel B i s a r"
  shows "test_read B iter i off sz s =
    (s, case ss_file r of None \<Rightarrow> Err (Errno EIO) | Some c \<Rightarrow> Ok (sub_range c off sz))"
proof -
  have store: "store_rel B (fs_meta s) a" using assms(2) by (simp add: file_rel_def fs_rel_def)
  have nil: "sub_range [] off sz = []" by (simp add: sub_range_def slice_def)
  show ?thesis
    using assms(2)
    by (auto simp: test_read_def assms(1) and_then_def ask_meta_def map_errno_def get_manifest_at [OF store] nil
        file_rel_def file_has_def file_bytes_def unwrap_or_default_def split: option.splits list.splits)
qed

lemma session_read:
  assumes laws: "blockset_laws B" and iter: "\<forall>m. set (iter m) = set m" and rel: "session_rel B i fh s r"
    and ok: "bs_ok B (fs_io (fst (test_read B iter i off sz s)))"
  shows "snd (test_read B iter i off sz s) =
      (if ss_buf r \<noteq> [] then Ok (sub_range (ss_buf r) off sz)
       else case ss_file r of None \<Rightarrow> Err (Errno EIO) | Some c \<Rightarrow> Ok (sub_range c off sz)) \<and>
    session_rel B i fh (fst (test_read B iter i off sz s)) r"
proof -
  from rel obtain a h where a: "file_rel B i s a r" "only_writer i fh s" "bt_get (fs_open_files s) fh = Some h"
    "of_ino h = i" "handle_rel B (fs_io s) h r" by (rule session_relE)
  have sorted: "bt_sorted (fs_open_files s)" using a(1) by (simp add: file_rel_def fs_rel_def)
  have holds: "handle_holds B (fs_io s) h (ss_streaming r, ss_buf r)" using a(5) by (simp add: handle_rel_def)
  then have pos: "of_byte_count h > 0 \<longleftrightarrow> ss_buf r \<noteq> []" using of_nat_length_pos by (auto simp: handle_holds_def)
  note find = find_writer [of iter s, OF iter [rule_format] sorted a(2,3,4), unfolded pos]
  show ?thesis
  proof (cases "ss_buf r = []")
    case True
    then show ?thesis using find rel by (simp add: read_committed [OF _ a(1)])
  next
    case False
    show ?thesis
    proof (cases "of_write_mode h")
      case (Buffered buf)
      then show ?thesis using False find holds rel by (simp add: test_read_def handle_holds_def)
    next
      case (Streaming state n)
      obtain io c where mat: "materialize B (fs_io s) state = (io, c)" by (cases "materialize B (fs_io s) state")
      have io: "bs_ok B io" using ok False by (auto simp: test_read_def find Streaming mat split: option.splits)
      have c: "c = Some (ss_buf r)"
        using materialize_holds [OF laws mat _ io] holds Streaming by (simp add: handle_holds_def)
      note grows = hash_steps(3) [OF laws mat]
      have "file_rel B i (set_io io s) a r"
        using a(1) grows io fs_rel_io [OF _ grows io, of a]
        by (intro file_rel_refs [OF a(1) same_but_refs_put(2)]) (simp_all add: file_rel_def)
      then have "session_rel B i fh (set_io io s) r"
        using only_writer_put(2) [OF a(2), of "set_io io s"] a(3-5) handle_holds_grows [OF grows io holds]
        by (intro session_relI [of _ _ _ a _ _ h]) (simp_all add: handle_rel_def)
      then show ?thesis using False by (simp add: test_read_def find Streaming mat c)
    qed
  qed
qed

subsection \<open>Flushing\<close>

lemma file_rel_handle: "file_rel B i s a r \<Longrightarrow> file_rel B i (set_handle fh h s) a r"
  "file_rel B i s a r \<Longrightarrow> file_rel B i (drop_handle fh s) a r"
  by (simp_all add: file_rel_def)

lemma file_rel_io:
  assumes "file_rel B i s a r" "bs_grows B (fs_io s) io" "bs_ok B io"
  shows "file_rel B i (set_io io s) a r"
  using assms fs_rel_io [OF _ assms(2,3), of a]
  by (intro file_rel_refs [OF assms(1) same_but_refs_put(2)]) (simp_all add: file_rel_def)

lemma commit_file:
  assumes laws: "blockset_laws B" and rel: "file_rel B i s a r" and d: "storage_get B (fs_io s) d = Some xs" "length xs < 2 ^ 64"
    and ok: "bs_ok B (fs_io (fst (commit_digest B i old d s)))"
  shows "\<exists>a'. snd (commit_digest B i old d s) = Ok () \<and> fs_open_files (fst (commit_digest B i old d s)) = fs_open_files s \<and>
    file_rel B i (fst (commit_digest B i old d s)) a' (r\<lparr>ss_file := Some xs\<rparr>)"
proof -
  have "fs_rel B s a" using rel by (simp add: file_rel_def)
  then obtain a' where a': "same_but_refs (a\<lparr>a_manifests := (a_manifests a)(i \<mapsto> [d])\<rparr>) a'"
      "fs_step B s (commit_digest B i old d s) () a'"
    using commit_digest_step [OF laws _ ok] by blast
  have "storage_get B (fs_io (fst (commit_digest B i old d s))) d = Some xs"
    by (rule bs_growsD(2) [OF op_grows_fst [OF commit_digest_grows [OF laws]] ok d(1)])
  then have "file_rel B i (fst (commit_digest B i old d s)) a' (r\<lparr>ss_file := Some xs\<rparr>)"
    using a' rel d(2) by (simp add: file_rel_def fs_step_def same_but_refs_def file_has_def file_bytes_def unwrap_or_default_def)
  then show ?thesis using a'(2) by (auto simp: fs_step_def)
qed

lemma size_file:
  assumes laws: "blockset_laws B" and rel: "file_rel B i s a r"
    and touch: "\<And>m. ino (touch m) = ino m \<and> size (touch m) = size m" and fits: "ss_rest r + unat n < 2 ^ 64"
    and ok: "bs_ok B (fs_io (fst (store_size B touch i n s)))"
  shows "\<exists>a'. snd (store_size B touch i n s) = Ok () \<and> fs_open_files (fst (store_size B touch i n s)) = fs_open_files s \<and>
    file_rel B i (fst (store_size B touch i n s)) a' (r\<lparr>ss_size := n\<rparr>)"
proof -
  obtain m where m: "a_inodes a i = Some m" using rel by (auto simp: file_rel_def)
  have "fs_rel B s a" "total_size ((a_inodes a)(i := None)) + unat n < 2 ^ 64" using rel fits by (auto simp: file_rel_def)
  note step = store_size_step [OF laws this(1) m touch this(2) ok]
  let ?a = "a\<lparr>a_inodes := (a_inodes a)(i \<mapsto> touch (m\<lparr>size := n\<rparr>))\<rparr>"
  have "file_has B (fs_io (fst (store_size B touch i n s))) ?a i (file_bytes r)"
    using rel file_has_grows [OF op_grows_fst [OF store_size_grows [OF laws]] ok, of a i "file_bytes r"]
    by (simp add: file_rel_def file_has_def)
  then have "file_rel B i (fst (store_size B touch i n s)) ?a (r\<lparr>ss_size := n\<rparr>)"
    using step rel touch by (simp add: file_rel_def fs_step_def file_bytes_def)
  then show ?thesis using step by (auto simp: fs_step_def)
qed

lemma touch_size: "ino (touch_times now m) = ino m \<and> size (touch_times now m) = size m"
  "ino (touch_ctime now m) = ino m \<and> size (touch_ctime now m) = size m"
  by (simp_all add: touch_times_def touch_ctime_def split: prod.splits)

text \<open>The digest of the handle's bytes is committed and the size stored.\<close>

lemma commit_and_size:
  assumes laws: "blockset_laws B" and rel: "file_rel B i s a r" and d: "storage_get B (fs_io s) d = Some xs"
    and fits: "ss_rest r + length xs < 2 ^ 64" and between: "g = (\<lambda>s. s) \<or> g = set_handle fh h"
    and run: "q = and_then (commit_digest B i old d) (\<lambda>_. and_then (\<lambda>s. (g s, Ok ()))
      (\<lambda>_. store_size B touch i (of_nat (length xs)))) s"
    and ok: "bs_ok B (fs_io (fst q))" and touch: "\<And>m. ino (touch m) = ino m \<and> size (touch m) = size m"
  shows "\<exists>a'. snd q = Ok () \<and> fs_open_files (fst q) = fs_open_files (g s) \<and>
    file_rel B i (fst q) a' (r\<lparr>ss_file := Some xs, ss_size := of_nat (length xs)\<rparr>)"
proof -
  let ?n = "of_nat (length xs) :: u64"
  define s1 where "s1 = fst (commit_digest B i old d s)"
  have n: "unat ?n = length xs" using fits by (simp add: unat_of_nat)
  have io: "fs_io (g s) = fs_io s" for s using between by auto
  have q: "q = (case snd (commit_digest B i old d s) of Err e \<Rightarrow> (s1, Err e)
      | Ok _ \<Rightarrow> store_size B touch i ?n (g s1))"
    by (simp add: run s1_def and_then_def split_def split: sum.splits)
  have "bs_grows B (fs_io s1) (fs_io (fst q))"
    using op_grows_fst [OF store_size_grows [OF laws, of touch i ?n], of "g s1"]
    by (auto simp: q io split: sum.splits)
  then have ok1: "bs_ok B (fs_io s1)" by (rule bs_growsD(1) [OF _ ok])
  obtain a1 where 1: "snd (commit_digest B i old d s) = Ok ()" "fs_open_files s1 = fs_open_files s"
      "file_rel B i s1 a1 (r\<lparr>ss_file := Some xs\<rparr>)"
    using commit_file [OF laws rel d _ ok1 [unfolded s1_def]] fits unfolding s1_def by auto
  have rel1: "file_rel B i (g s1) a1 (r\<lparr>ss_file := Some xs\<rparr>)"
    using between 1(3) file_rel_handle(1) by auto
  have q: "q = store_size B touch i ?n (g s1)" by (simp add: q 1(1))
  have "fs_open_files (g s1) = fs_open_files (g s)"
    using between 1(2) by (auto simp: set_handle_def)
  then show ?thesis
    using size_file [OF laws rel1 touch _ ok [unfolded q]] fits n by (auto simp: q)
qed

lemma handle_count:
  "handle_holds B io h st \<Longrightarrow> of_byte_count h = 0 \<longleftrightarrow> snd st = []"
  "handle_holds B io h st \<Longrightarrow> of_byte_count h = of_nat (length (snd st))"
  using of_nat_length_pos [of "length (snd st)"] by (auto simp: handle_holds_def word_gt_0)

lemma flush_tail_grows:
  fixes B :: "('io, 'st) blockset"
  assumes "blockset_laws B" and "\<And>s. fs_io (g s) = fs_io s"
  shows "bs_grows B (fs_io s) (fs_io (fst (and_then (commit_digest B i old d) (\<lambda>_.
      and_then (\<lambda>s. (g s, Ok ())) (\<lambda>_. store_size B touch i n)) s)))"
proof -
  have "op_grows B (\<lambda>s :: ('io, 'st) fs. (g s, Ok () :: fs_fault + unit))" by (simp add: op_grows_def assms(2))
  then show ?thesis by (intro op_grows_fst grows_intros assms)
qed

lemma test_flush_grows: "blockset_laws B \<Longrightarrow> op_grows B (test_flush B now i fh)"
  unfolding op_grows_def test_flush_def flush_buffer_for_fsync_def Let_def
  by (auto split: option.split prod.split dest: hash_steps intro!: bs_grows_trans [OF _ flush_tail_grows])

lemma session_flush:
  assumes laws: "blockset_laws B" and rel: "session_rel B i fh s r" and fits: "ss_rest r + length (ss_buf r) < 2 ^ 64"
    and ok: "bs_ok B (fs_io (fst (test_flush B now i fh s)))"
  shows "snd (test_flush B now i fh s) = Ok () \<and> session_rel B i fh (fst (test_flush B now i fh s)) (spec_commit r)"
proof -
  from rel obtain a h where a: "file_rel B i s a r" "only_writer i fh s" "bt_get (fs_open_files s) fh = Some h"
    "of_ino h = i" "handle_rel B (fs_io s) h r" by (rule session_relE)
  have holds: "handle_holds B (fs_io s) h (ss_streaming r, ss_buf r)" using a(5) by (simp add: handle_rel_def)
  note cnt = handle_count [OF holds, unfolded snd_conv]
  show ?thesis
  proof (cases "ss_buf r = []")
    case True
    then show ?thesis using rel a(3) cnt(1) by (simp add: test_flush_def flush_buffer_for_fsync_def spec_commit_def)
  next
    case False
    let ?h = "h\<lparr>of_cas_committed := True\<rparr>"
    obtain io d where fin: "finalize B (fs_io s) (of_write_mode h) = (io, d)" by (cases "finalize B (fs_io s) (of_write_mode h)")
    define s0 where "s0 = set_io io (set_handle fh ?h s)"
    let ?h' = "?h\<lparr>of_last_committed_root := Some d\<rparr>"
    define q where "q = test_flush B now i fh s"
    have q: "q = and_then (commit_digest B i (of_last_committed_root h) d) (\<lambda>_.
        and_then (\<lambda>s. (set_handle fh ?h' s, Ok ())) (\<lambda>_. store_size B (touch_times now) i (of_nat (length (ss_buf r))))) s0"
      using False cnt by (simp add: q_def test_flush_def flush_buffer_for_fsync_def a(3) fin Let_def s0_def)
    have "bs_grows B (fs_io s0) (fs_io (fst q))" unfolding q by (rule flush_tail_grows [OF laws]) simp
    then have grows: "bs_grows B io (fs_io (fst q))" by (simp add: s0_def)
    have ok': "bs_ok B (fs_io (fst q))" using ok by (simp add: q_def)
    have io: "bs_ok B io" by (rule bs_growsD(1) [OF grows ok'])
    note gio = hash_steps(5) [OF laws fin]
    have "storage_get B (fs_io s0) d = Some (ss_buf r)"
      using finalize_holds [OF laws holds fin io] by (simp add: s0_def)
    moreover have "file_rel B i s0 a r"
      unfolding s0_def by (rule file_rel_io [OF file_rel_handle(1) [OF a(1)] _ io]) (simp add: gio)
    ultimately obtain a' where res: "snd q = Ok ()" "fs_open_files (fst q) = fs_open_files (set_handle fh ?h' s0)"
        "file_rel B i (fst q) a' (r\<lparr>ss_file := Some (ss_buf r), ss_size := of_nat (length (ss_buf r))\<rparr>)"
      using commit_and_size [OF laws _ _ fits _ q ok' touch_size(1), of a fh ?h'] by blast
    have files: "bt_get (fs_open_files (fst q)) = (bt_get (fs_open_files s))(fh \<mapsto> ?h')" by (simp add: res(2) s0_def)
    have "handle_holds B (fs_io (fst q)) h (ss_streaming r, ss_buf r)"
      by (rule handle_holds_grows [OF bs_grows_trans [OF gio grows] ok' holds])
    then have "handle_rel B (fs_io (fst q)) ?h' (spec_commit r)"
      using False by (simp add: handle_rel_def handle_holds_def spec_commit_def)
    then have "session_rel B i fh (fst q) (spec_commit r)"
      using res(3) only_writer_put(1) [OF a(2) files] files a(4) False
      by (intro session_relI [of _ _ _ a' _ _ ?h']) (simp_all add: spec_commit_def)
    then show ?thesis using res(1) by (simp add: q_def)
  qed
qed

subsection \<open>Resizing\<close>

lemma truncate_handle_grows:
  "blockset_laws B \<Longrightarrow> bs_grows B (fs_io s) (fs_io (truncate_handle B fh h n s))"
  unfolding truncate_handle_def Let_def
  by (auto split: write_mode.split prod.split if_splits dest: hash_steps intro: bs_grows_trans)

lemma resize_simps [simp]: "resize 0 xs = []" "resize n xs = [] \<longleftrightarrow> n = 0"
  by (auto simp: resize_def)

text \<open>The handle after a resize: its bytes are resized in whatever mode it is.\<close>

lemma forget_root_handle:
  assumes "fs_rel B s a" and "handle_holds B (fs_io s) h' st" "of_ino h' = i" "\<not> of_cas_committed h'"
    and "t = (set_handle fh h' s)\<lparr>fs_meta := decrement_opt old (fs_meta (set_handle fh h' s))\<rparr>"
  shows "\<exists>a' h'. same_but_refs a a' \<and> fs_rel B t a' \<and> bt_get (fs_open_files t) = (bt_get (fs_open_files s))(fh \<mapsto> h') \<and>
     handle_holds B (fs_io t) h' st \<and> of_ino h' = i \<and> \<not> of_cas_committed h'"
proof -
  obtain a' where "same_but_refs a a'" "store_rel B (decrement_opt old (fs_meta s)) a'"
    using decrement_opt_rel [of B "fs_meta s" a] assms(1) by (auto simp: fs_rel_def)
  then show ?thesis using assms
    by (auto simp: fs_rel_def set_handle_def bt_get_insert bt_sorted_insert intro!: exI [of _ a'] exI [of _ h'])
qed

lemma push_fresh_absorbed:
  assumes laws: "blockset_laws B" and "push_fresh B io xs = (io', st)" "bs_ok B io'"
  shows "bs_absorbed B io' st xs"
  using assms(2,3) st_push_absorbed [OF laws _ _ st_default_absorbed [OF laws]]
  by (auto simp: push_fresh_def split: prod.splits)

lemma truncate_handle_correct:
  assumes laws: "blockset_laws B" and rel: "fs_rel B s a" and h: "bt_get (fs_open_files s) fh = Some h"
    and holds: "handle_holds B (fs_io s) h (b, xs)" and ok: "bs_ok B (fs_io (truncate_handle B fh h n s))"
  shows "\<exists>a' h'. same_but_refs a a' \<and> fs_rel B (truncate_handle B fh h n s) a' \<and>
     bt_get (fs_open_files (truncate_handle B fh h n s)) = (bt_get (fs_open_files s))(fh \<mapsto> h') \<and>
     handle_holds B (fs_io (truncate_handle B fh h n s)) h' (b, resize (unat n) xs) \<and> of_ino h' = of_ino h \<and>
     \<not> of_cas_committed h'"
proof (cases "of_write_mode h")
  case (Buffered buf)
  then have buf: "\<not> b" "buf = xs" using holds by (auto simp: handle_holds_def)
  show ?thesis
  proof (cases "n = 0")
    case False
    then show ?thesis using buf rel same_but_refs_put(2) [of a] unat_u64_less [of n]
      by (intro exI [of _ a] exI [of _ "h\<lparr>of_write_mode := Buffered (resize (unat n) xs), of_byte_count := n,
            of_cas_committed := False\<rparr>"]) (simp add: truncate_handle_def Buffered handle_holds_def)
  next
    case True
    then show ?thesis
      by (intro forget_root_handle [OF rel, where h' = "h\<lparr>of_write_mode := Buffered [], of_byte_count := 0,
            of_cas_committed := False, of_last_committed_root := None\<rparr>"])
         (simp_all add: truncate_handle_def Buffered handle_holds_def buf Let_def)
  qed
next
  case (Streaming state k)
  then have st: b "bs_absorbed B (fs_io s) state xs" using holds by (auto simp: handle_holds_def)
  note cnt = handle_count(1) [OF holds, unfolded snd_conv]
  show ?thesis
  proof (cases "n = 0")
    case True
    then show ?thesis
      by (intro forget_root_handle [OF rel, where h' = "h\<lparr>of_write_mode := Streaming (st_default B) 0, of_byte_count := 0,
            of_cas_committed := False, of_last_committed_root := None\<rparr>"])
         (simp_all add: truncate_handle_def Streaming handle_holds_def st st_default_absorbed [OF laws] Let_def)
  next
    case False
    obtain io1 c1 where c1: "(if of_byte_count h = 0 then (fs_io s, [])
        else let (io, r) = materialize B (fs_io s) state in (io, unwrap_or_default r)) = (io1, c1)"
      by (metis surj_pair)
    obtain io2 fresh where push: "push_fresh B io1 (resize (unat n) c1) = (io2, fresh)" by (metis surj_pair)
    let ?h = "h\<lparr>of_write_mode := Streaming fresh n, of_byte_count := n, of_cas_committed := False, of_last_committed_root := None\<rparr>"
    have run: "truncate_handle B fh h n s = (set_handle fh ?h (set_io io2 s))\<lparr>fs_meta :=
        decrement_opt (of_last_committed_root h) (fs_meta (set_handle fh ?h (set_io io2 s)))\<rparr>"
      using False by (simp add: truncate_handle_def Streaming c1 push Let_def)
    have ok2: "bs_ok B io2" using ok by (simp add: run)
    have g2: "bs_grows B io1 io2" by (rule hash_steps(4) [OF laws push])
    have ok1: "bs_ok B io1" by (rule bs_growsD(1) [OF g2 ok2])
    have c: "c1 = xs \<and> bs_grows B (fs_io s) io1"
      using c1 cnt materialize_holds [OF laws _ st(2) ok1] hash_steps(3) [OF laws]
      by (auto simp: unwrap_or_default_def split: if_splits prod.splits)
    have "fs_rel B (set_io io2 s) a" using fs_rel_io [OF rel bs_grows_trans [OF _ g2] ok2] c by blast
    moreover have "bs_absorbed B io2 fresh (resize (unat n) xs)" using push_fresh_absorbed [OF laws push ok2] c by simp
    ultimately show ?thesis unfolding fs_handles(2) [of io2 s, symmetric] using st(1) unat_u64_less [of n]
      by (intro forget_root_handle [OF _ _ _ _ run]) (simp_all add: handle_holds_def)
  qed
qed

lemma session_resize:
  assumes laws: "blockset_laws B" and rel: "session_rel B i fh s r" and fits: "ss_rest r + unat n < 2 ^ 64"
    and ok: "bs_ok B (fs_io (fst (test_setattr_size B now i (Some fh) n s)))"
  shows "snd (test_setattr_size B now i (Some fh) n s) = Ok () \<and>
    session_rel B i fh (fst (test_setattr_size B now i (Some fh) n s)) (spec_resize n r)"
proof -
  from rel obtain a h where a: "file_rel B i s a r" "only_writer i fh s" "bt_get (fs_open_files s) fh = Some h"
    "of_ino h = i" "handle_rel B (fs_io s) h r" by (rule session_relE)
  define s1 where "s1 = truncate_handle B fh h n s"
  define q where "q = test_setattr_size B now i (Some fh) n s"
  have q: "q = store_size B (touch_ctime now) i n s1" by (simp add: q_def test_setattr_size_def a(3) s1_def)
  have ok': "bs_ok B (fs_io (fst q))" using ok by (simp add: q_def)
  have g: "bs_grows B (fs_io s1) (fs_io (fst q))" unfolding q by (rule op_grows_fst [OF store_size_grows [OF laws]])
  have ok1: "bs_ok B (fs_io s1)" by (rule bs_growsD(1) [OF g ok'])
  obtain a' h' where 1: "same_but_refs a a'" "fs_rel B s1 a'" "bt_get (fs_open_files s1) = (bt_get (fs_open_files s))(fh \<mapsto> h')"
      "handle_holds B (fs_io s1) h' (ss_streaming r, resize (unat n) (ss_buf r))" "of_ino h' = of_ino h" "\<not> of_cas_committed h'"
    using truncate_handle_correct [OF laws _ a(3) _ ok1 [unfolded s1_def], of a "ss_streaming r" "ss_buf r"] a(1,5)
    unfolding s1_def [symmetric] file_rel_def handle_rel_def by blast
  have rel1: "file_rel B i s1 a' r"
    by (rule file_rel_refs [OF a(1) 1(1,2) _ ok1]) (simp add: s1_def truncate_handle_grows [OF laws])
  obtain a2 where 2: "snd q = Ok ()" "fs_open_files (fst q) = fs_open_files s1" "file_rel B i (fst q) a2 (r\<lparr>ss_size := n\<rparr>)"
    using size_file [OF laws rel1 touch_size(2) fits ok' [unfolded q]] unfolding q [symmetric] by blast
  have files: "bt_get (fs_open_files (fst q)) = (bt_get (fs_open_files s))(fh \<mapsto> h')" by (simp only: 2(2) 1(3))
  have "session_rel B i fh (fst q) (spec_resize n r)"
    using 2(3) only_writer_put(1) [OF a(2) files] files 1(5,6) a(4) handle_holds_grows [OF g ok' 1(4)]
    by (intro session_relI [of _ _ _ a2 _ _ h']) (simp_all add: spec_resize_def handle_rel_def file_rel_buf)
  then show ?thesis using 2(1) by (simp add: q_def)
qed

subsection \<open>Sessions\<close>

lemma test_read_grows: "blockset_laws B \<Longrightarrow> op_grows B (test_read B iter i off sz)"
  unfolding op_grows_def test_read_def and_then_def ask_meta_def
  by (auto split: option.split write_mode.split prod.split list.split sum.split dest: hash_steps)

lemma truncate_committed_grows:
  fixes B :: "('io, 'st) blockset"
  assumes "blockset_laws B"
  shows "op_grows B (truncate_committed B i n)"
proof -
  have store: "bs_grows B io (fs_io (fst (and_then (on_meta as_eio (set_manifest B i [d])) (\<lambda>_. modify_meta (increment_refcount d)) s)))"
    if "bs_grows B io (fs_io s)" for io d and s :: "('io, 'st) fs"
    by (rule bs_grows_trans [OF that op_grows_fst]) (intro grows_intros assms, simp)
  have set: "bs_grows B (fs_io s) (fs_io (fst (on_meta as_eio (set_manifest B i []) s)))" for s :: "('io, 'st) fs"
    by (rule op_grows_fst) (intro grows_intros assms)
  have tail: "op_grows B (\<lambda>s. if c = [] then on_meta as_eio (set_manifest B i []) s
      else let (io, d) = push_all B (fs_io s) c in
        and_then (on_meta as_eio (set_manifest B i [d])) (\<lambda>_. modify_meta (increment_refcount d)) (set_io io s))" for c
    unfolding op_grows_def using push_all_grows [OF assms] by (auto intro!: set store split: prod.split)
  have "op_grows B (and_then (modify_meta (case old of [] \<Rightarrow> id | d # _ \<Rightarrow> decrement_refcount d)) (\<lambda>_ s.
      let c = resize (unat n) content in if c = [] then on_meta as_eio (set_manifest B i []) s
      else let (io, d) = push_all B (fs_io s) c in
        and_then (on_meta as_eio (set_manifest B i [d])) (\<lambda>_. modify_meta (increment_refcount d)) (set_io io s)))" for old content
    unfolding Let_def [where s = "resize (unat n) content"]
    by (intro grows_intros tail) (simp split: list.split)
  from op_grows_fst [OF this] show ?thesis
    unfolding op_grows_def truncate_committed_def by (auto split: sum.split option.split)
qed

lemma test_setattr_size_grows:
  assumes "blockset_laws B"
  shows "op_grows B (test_setattr_size B now i fh n)"
proof -
  have "op_grows B (and_then (truncate_committed B i n) (\<lambda>_. store_size B (touch_ctime now) i n))"
    by (intro grows_intros truncate_committed_grows assms)
  from op_grows_fst [OF this] show ?thesis
    unfolding op_grows_def test_setattr_size_def
    using bs_grows_trans [OF truncate_handle_grows [OF assms] op_grows_fst [OF store_size_grows [OF assms]]]
    by (auto split: option.split)
qed

lemma session_step_grows:
  assumes "blockset_laws B"
  shows "bs_grows B (fs_io s) (fs_io (fst (session_step B iter i fh oper s)))"
  by (cases oper)
    (simp_all add: session_step_def and_then_ret op_grows_fst [OF test_setattr_size_grows [OF assms]]
      op_grows_fst [OF test_write_grows [OF assms]] op_grows_fst [OF test_read_grows [OF assms]]
      op_grows_fst [OF test_flush_grows [OF assms]])

text \<open>The iteration order over the open files is a parameter: any enumeration of them.\<close>

abbreviation enumerates :: "(('k, 'v) btree \<Rightarrow> ('k \<times> 'v) list) \<Rightarrow> bool" where
  "enumerates iter \<equiv> \<forall>m. set (iter m) = set m"

lemma session_step_refines:
  assumes "blockset_laws B" "enumerates iter" "session_rel B i fh s r" "session_allowed oper r"
    and "bs_ok B (fs_io (fst (session_step B iter i fh oper s)))"
  shows "session_rel B i fh (fst (session_step B iter i fh oper s)) (fst (session_spec oper r)) \<and>
    snd (session_step B iter i fh oper s) = snd (session_spec oper r)"
proof (cases oper)
  case (SWrite off data)
  then show ?thesis using assms session_write [OF assms(1,3), of off data]
    by (auto simp: session_step_def and_then_ret session_spec_def session_allowed_def split: prod.splits)
next
  case (SRead off sz)
  then show ?thesis using assms session_read [OF assms(1-3), of off sz]
    by (auto simp: session_step_def and_then_ret session_spec_def split: option.splits)
next
  case (SFlush now)
  then show ?thesis using assms session_flush [OF assms(1,3), of now]
    by (simp add: session_step_def and_then_ret session_spec_def session_allowed_def)
next
  case (SResize now n)
  then show ?thesis using assms session_resize [OF assms(1,3), of n now]
    by (simp add: session_step_def and_then_ret session_spec_def session_allowed_def)
qed

interpretation session_sim: simulation "session_step B iter i fh" session_spec session_allowed "session_rel B i fh"
  "\<lambda>s. blockset_laws B \<and> enumerates iter \<and> bs_ok B (fs_io s)" "(=)"
  using session_step_refines bs_growsD(1) [OF session_step_grows] by unfold_locales blast+

text \<open>Closing a handle without bytes gives a file that never had contents an empty manifest.\<close>

lemma release_empty:
  assumes laws: "blockset_laws B" and rel: "file_rel B i s a r"
    and run: "q = (if \<not> has_existing B i (fs_meta s) then on_meta as_eio (set_manifest B i []) s else (s, Ok ()))"
    and ok: "bs_ok B (fs_io (fst q))"
  shows "snd q = Ok () \<and> fs_open_files (fst q) = fs_open_files s \<and> (\<exists>a. file_rel B i (fst q) a (r\<lparr>ss_file := Some (file_bytes r)\<rparr>))"
proof (cases "has_existing B i (fs_meta s)")
  case True
  then have "ss_file r = Some (file_bytes r)"
    using rel get_manifest_at [of B "fs_meta s" a i]
    by (auto simp: has_existing_def file_rel_def fs_rel_def file_bytes_def unwrap_or_default_def split: option.splits)
  then have "r\<lparr>ss_file := Some (file_bytes r)\<rparr> = r" by (cases r) simp
  then show ?thesis using True rel by (auto simp: run)
next
  case False
  let ?a = "a\<lparr>a_manifests := (a_manifests a)(i \<mapsto> [])\<rparr>"
  have empty: "file_bytes r = []"
    using False rel get_manifest_at [of B "fs_meta s" a i]
    by (auto simp: has_existing_def file_rel_def fs_rel_def file_has_def split: option.splits list.splits)
  have "fs_step B s q () ?a"
    using on_set_manifest_step [OF laws, of s a as_eio i "[]"] rel ok False by (simp add: run file_rel_def)
  then have "file_rel B i (fst q) ?a (r\<lparr>ss_file := Some (file_bytes r)\<rparr>)"
    using rel empty by (simp add: file_rel_def fs_step_def file_has_def file_bytes_def unwrap_or_default_def)
  then show ?thesis using \<open>fs_step B s q () ?a\<close> by (auto simp: fs_step_def)
qed

lemma session_release:
  assumes laws: "blockset_laws B" and rel: "session_rel B i fh s r" and fits: "ss_rest r + length (ss_buf r) < 2 ^ 64"
    and ok: "bs_ok B (fs_io (fst (test_release B now i fh s)))"
  shows "snd (test_release B now i fh s) = Ok () \<and>
    bt_get (fs_open_files (fst (test_release B now i fh s))) = (bt_get (fs_open_files s))(fh := None) \<and>
    (\<exists>a. file_rel B i (fst (test_release B now i fh s)) a (spec_release r))"
proof -
  from rel obtain a h where a: "file_rel B i s a r" "only_writer i fh s" "bt_get (fs_open_files s) fh = Some h"
    "of_ino h = i" "handle_rel B (fs_io s) h r" by (rule session_relE)
  have holds: "handle_holds B (fs_io s) h (ss_streaming r, ss_buf r)" using a(5) by (simp add: handle_rel_def)
  note cnt = handle_count [OF holds, unfolded snd_conv]
  let ?s = "drop_handle fh s" and ?q = "test_release B now i fh s"
  have sorted: "bt_sorted (fs_open_files s)" using a(1) by (simp add: file_rel_def fs_rel_def)
  have rel0: "file_rel B i ?s a r" by (rule file_rel_handle(2) [OF a(1)])
  show ?thesis
  proof (cases "ss_buf r = []")
    case True
    have "snd ?q = Ok () \<and> fs_open_files (fst ?q) = fs_open_files ?s \<and> (\<exists>a. file_rel B i (fst ?q) a (r\<lparr>ss_file := Some (file_bytes r)\<rparr>))"
      using release_empty [OF laws rel0] a(3,5) cnt ok True by (simp add: test_release_def handle_rel_def Let_def)
    then show ?thesis using True sorted by (simp add: spec_release_def spec_commit_def file_rel_buf)
  next
    case False
    obtain io d where fin: "finalize B (fs_io s) (of_write_mode h) = (io, d)" by (cases "finalize B (fs_io s) (of_write_mode h)")
    define s0 where "s0 = set_io io ?s"
    have q: "?q = (if of_last_committed_root h = Some d \<and> of_cas_committed h then (s0, Ok ())
        else and_then (commit_digest B i (of_last_committed_root h) d) (\<lambda>_. and_then (\<lambda>s. (s, Ok ()))
          (\<lambda>_. store_size B (touch_times now) i (of_nat (length (ss_buf r))))) s0)"
      using False cnt by (simp add: test_release_def a(3) fin Let_def s0_def and_then_def)
    have "bs_grows B (fs_io s0) (fs_io (fst ?q))" unfolding q using flush_tail_grows [OF laws refl] by simp
    then have io: "bs_ok B io" using bs_growsD(1) [OF _ ok] by (simp add: s0_def)
    note gio = hash_steps(5) [OF laws fin]
    have s0: "file_rel B i s0 a r" "storage_get B (fs_io s0) d = Some (ss_buf r)" "fs_open_files s0 = fs_open_files ?s"
      using file_rel_io [OF rel0 _ io] gio finalize_holds [OF laws holds fin io] by (simp_all add: s0_def)
    have "\<exists>a'. snd ?q = Ok () \<and> fs_open_files (fst ?q) = fs_open_files s0 \<and> file_rel B i (fst ?q) a' (spec_commit r)"
    proof (cases "of_last_committed_root h = Some d \<and> of_cas_committed h")
      case True
      then show ?thesis using s0(1) a(5) by (auto simp: q handle_rel_def)
    next
      case no: False
      note q' = q [unfolded if_not_P [OF no]]
      show ?thesis
        using commit_and_size [OF laws s0(1,2) fits disjI1 [OF refl] q' ok touch_size(1)] \<open>ss_buf r \<noteq> []\<close>
        by (simp add: spec_commit_def)
    qed
    moreover have "spec_release r = (spec_commit r)\<lparr>ss_buf := []\<rparr>" using False
      by (cases r) (simp add: spec_release_def spec_commit_def file_bytes_def unwrap_or_default_def)
    ultimately show ?thesis using sorted s0(3) by (auto simp: file_rel_buf)
  qed
qed

end
