(* ===== verification/Namespace.thy ===== *)
theory Namespace
  imports Session
begin

unbundle bit_operations_syntax

section \<open>The name space\<close>

text \<open>
  What the operations on names do (\<^verbatim>\<open>mknod\<close>, \<^verbatim>\<open>mkdir\<close>, \<^verbatim>\<open>unlink\<close>, \<^verbatim>\<open>rmdir\<close>, \<^verbatim>\<open>link\<close>, \<^verbatim>\<open>rename\<close>,
  \<^verbatim>\<open>symlink\<close>, \<^verbatim>\<open>lookup\<close>), as functions on the finite maps of \<open>meta_state\<close>, and that the operations
  of \<^verbatim>\<open>SliceFsFilesystem\<close> refine them, errors included. The consequences for the links are drawn on the maps.
\<close>

subsection \<open>Refinement of an operation\<close>

text \<open>The operation \<open>m\<close> behaves on a file system related to \<open>a\<close> as \<open>p\<close> does on \<open>a\<close>; open files are not touched.\<close>

definition refines :: "('io, 'st) blockset \<Rightarrow> (('io, 'st) fs, 'a) fs_op \<Rightarrow> (meta_state, 'a) fs_op \<Rightarrow> meta_state \<Rightarrow> bool" where
  "refines B m p a \<longleftrightarrow> (\<forall>s. fs_rel B s a \<longrightarrow> bs_ok B (fs_io (fst (m s))) \<longrightarrow>
     fs_rel B (fst (m s)) (fst (p a)) \<and> snd (m s) = snd (p a) \<and> fs_open_files (fst (m s)) = fs_open_files s)"

lemma refinesD:
  assumes "refines B m p a" "fs_rel B s a" "bs_ok B (fs_io (fst (m s)))"
  shows "fs_rel B (fst (m s)) (fst (p a))" "snd (m s) = snd (p a)" "fs_open_files (fst (m s)) = fs_open_files s"
  using assms by (auto simp: refines_def)

lemma refines_and_then:
  fixes f :: "'a \<Rightarrow> (('io, 'st) fs, 'b) fs_op"
  assumes m: "refines B m p a" and grows: "\<And>x. op_grows B (f x)"
    and f: "\<And>x. snd (p a) = Ok x \<Longrightarrow> refines B (f x) (g x) (fst (p a))"
  shows "refines B (and_then m f) (and_then p g) a"
  unfolding refines_def
proof (intro allI impI)
  fix s
  assume rel: "fs_rel B s a" and ok: "bs_ok B (fs_io (fst (and_then m f s)))"
  have run: "and_then m f s = (case snd (m s) of Err e \<Rightarrow> (fst (m s), Err e) | Ok x \<Rightarrow> f x (fst (m s)))"
    by (simp add: and_then_def split_def)
  have "bs_grows B (fs_io (fst (m s))) (fs_io (fst (and_then m f s)))"
    using op_grows_fst [OF grows] by (simp add: run split: sum.split)
  then have ok': "bs_ok B (fs_io (fst (m s)))" by (rule bs_growsD(1) [OF _ ok])
  note m' = refinesD [OF m rel ok']
  show "fs_rel B (fst (and_then m f s)) (fst (and_then p g a)) \<and> snd (and_then m f s) = snd (and_then p g a) \<and>
      fs_open_files (fst (and_then m f s)) = fs_open_files s"
  proof (cases "snd (m s)")
    case (Inl e)
    then show ?thesis using m' by (simp add: run) (simp add: and_then_def split_def)
  next
    case (Inr x)
    then have p: "snd (p a) = Ok x" using m'(2) by simp
    have steps: "and_then m f s = f x (fst (m s))" "and_then p g a = g x (fst (p a))"
      using Inr p by (simp_all add: run) (simp add: and_then_def split_def)
    from refinesD [OF f [OF p] m'(1) ok [unfolded steps]] show ?thesis unfolding steps using m'(3) by simp
  qed
qed

lemma refines_simple:
  "refines B (ret x) (ret x) a" "refines B (fail e) (fail e) a"
  by (simp_all add: refines_def ret_def fail_def)

lemma refines_if:
  "(c \<Longrightarrow> refines B m p a) \<Longrightarrow> (\<not> c \<Longrightarrow> refines B m' p' a) \<Longrightarrow> refines B (if c then m else m') (if c then p else p') a"
  by simp

lemma op_grows_if [grows_intros]: "op_grows B m \<Longrightarrow> op_grows B m' \<Longrightarrow> op_grows B (if c then m else m')"
  by simp

text \<open>The same behaviour on the maps, given that they are the maps of some file system.\<close>

lemma refines_eq: "refines B m p a \<Longrightarrow> (\<And>s. fs_rel B s a \<Longrightarrow> p a = p' a) \<Longrightarrow> refines B m p' a"
  unfolding refines_def by metis

subsection \<open>The calls of the store\<close>

definition a_op :: "((rstring \<rightharpoonup> u64) resp \<Rightarrow> 'a) \<Rightarrow> (meta_error \<Rightarrow> errno) \<Rightarrow> meta_op \<Rightarrow> (meta_state, 'a) fs_op" where
  "a_op un g oper a = (fst (spec_op oper a), map_errno g (map_sum id un (snd (spec_op oper a))))"

definition un_ino :: "'d resp \<Rightarrow> u64" where "un_ino r = (case r of RIno i \<Rightarrow> i | _ \<Rightarrow> 0)"
definition un_meta :: "'d resp \<Rightarrow> inode_meta" where "un_meta r = (case r of RMeta m \<Rightarrow> m | _ \<Rightarrow> new_file 0 0 0 0)"
definition un_unit :: "'d resp \<Rightarrow> unit" where "un_unit r = ()"

lemma on_meta_refines:
  assumes laws: "blockset_laws B" and allowed: "op_allowed oper a"
    and run: "\<And>s. run_op B oper s = respond c (f s)" and un: "\<And>x y. rel_resp lists_dir (c x) y \<Longrightarrow> un y = x"
  shows "refines B (on_meta g f) (a_op un g oper) a"
  unfolding refines_def
proof (intro allI impI)
  fix s :: "('a, 'b) fs"
  assume rel: "fs_rel B s a" and ok: "bs_ok B (fs_io (fst (on_meta g f s)))"
  obtain m r where f: "f (fs_meta s) = (m, r)" by (cases "f (fs_meta s)")
  have "bs_ok B (ds_io m)" using ok by (simp add: on_meta_def f)
  then have "store_rel B m (fst (spec_op oper a))" "same_resp (map_sum id c r) (snd (spec_op oper a))"
    using run_op_refines [OF laws _ allowed, of "fs_meta s"] rel
    by (auto simp: fs_rel_def op_refines_def run f respond_def)
  moreover from this(2) have "r = map_sum id un (snd (spec_op oper a))"
    using un by (cases r; cases "snd (spec_op oper a)") (auto simp: same_resp_def)
  ultimately show "fs_rel B (fst (on_meta g f s)) (fst (a_op un g oper a)) \<and> snd (on_meta g f s) = snd (a_op un g oper a) \<and>
      fs_open_files (fst (on_meta g f s)) = fs_open_files s"
    using rel by (simp add: on_meta_def f a_op_def fs_rel_def)
qed

lemma ask_meta_on: "ask_meta g f = on_meta g (\<lambda>m. (m, f m))"
  by (simp add: ask_meta_def on_meta_def fun_eq_iff)

lemma store_calls_refine:
  assumes "blockset_laws B"
  shows "op_allowed (CreateInode m) a \<Longrightarrow> refines B (on_meta g (create_inode B m)) (a_op un_ino g (CreateInode m)) a"
    "refines B (ask_meta g (get_inode B i)) (a_op un_meta g (GetInode i)) a"
    "op_allowed (UpdateInode m) a \<Longrightarrow> refines B (on_meta g (update_inode B m)) (a_op un_unit g (UpdateInode m)) a"
    "refines B (on_meta g (delete_inode B i)) (a_op un_unit g (DeleteInode i)) a"
    "op_allowed (CreateDirectory p n m) a \<Longrightarrow>
       refines B (on_meta g (create_directory B p n m)) (a_op un_ino g (CreateDirectory p n m)) a"
    "refines B (on_meta g (store_lookup B p n)) (a_op un_ino g (Lookup p n)) a"
    "op_allowed (Link p n i) a \<Longrightarrow> refines B (on_meta g (store_link B p n i)) (a_op un_unit g (Link p n i)) a"
    "refines B (on_meta g (store_unlink B p n)) (a_op un_unit g (Unlink p n)) a"
  unfolding ask_meta_on
  by (rule on_meta_refines [OF assms]; (simp add: un_ino_def un_meta_def un_unit_def op_allowed_def)?;
      (auto simp: un_ino_def un_meta_def un_unit_def elim: resp.rel_cases)?)+

subsection \<open>The operations on finite maps\<close>

definition resolve :: "u64 \<Rightarrow> rstring \<Rightarrow> meta_state \<Rightarrow> errno + u64" where
  "resolve p n a =
     (case a_dirs a p of None \<Rightarrow> Err ENOTDIR | Some dir \<Rightarrow> (case dir n of None \<Rightarrow> Err ENOENT | Some i \<Rightarrow> Ok i))"

definition add_name :: "u64 \<Rightarrow> rstring \<Rightarrow> u64 \<Rightarrow> (meta_state, unit) fs_op" where
  "add_name p n i a =
     (case a_dirs a p of
        None \<Rightarrow> fail ENOTDIR a
      | Some dir \<Rightarrow>
          if n \<in> dots then fail EINVAL a
          else if dir n \<noteq> None then fail EEXIST a
          else (a\<lparr>a_dirs := (a_dirs a)(p \<mapsto> dir(n \<mapsto> i))\<rparr>, Ok ()))"

definition drop_name :: "u64 \<Rightarrow> rstring \<Rightarrow> (meta_state, unit) fs_op" where
  "drop_name p n a =
     (case a_dirs a p of
        None \<Rightarrow> fail ENOTDIR a
      | Some dir \<Rightarrow>
          if n \<in> dots then fail EINVAL a
          else if dir n = None then fail ENOENT a
          else (a\<lparr>a_dirs := (a_dirs a)(p \<mapsto> dir(n := None))\<rparr>, Ok ()))"

definition put_inode :: "inode_meta \<Rightarrow> meta_state \<Rightarrow> meta_state" where
  "put_inode m a = a\<lparr>a_inodes := (a_inodes a)(ino m \<mapsto> m)\<rparr>"

definition count_down :: "digest224 \<Rightarrow> (digest224 \<rightharpoonup> u64) \<Rightarrow> (digest224 \<rightharpoonup> u64)" where
  "count_down d r = r(d := Option.bind (r d) refcount_dec)"

text \<open>The last link of a file is gone: its blocks lose a reference and the inode is deleted.\<close>

definition forget :: "u64 \<Rightarrow> meta_state \<Rightarrow> meta_state" where
  "forget i a =
     a\<lparr>a_inodes := (a_inodes a)(i := None),
       a_refs := fold count_down (case a_manifests a i of None \<Rightarrow> [] | Some ds \<Rightarrow> ds) (a_refs a)\<rparr>"

definition spec_create :: "u64 \<Rightarrow> rstring \<Rightarrow> inode_meta \<Rightarrow> (meta_state, u64) fs_op" where
  "spec_create p n m a =
     (let i = a_next a; r = add_name p n i (a\<lparr>a_next := i + 1\<rparr>) in
      case snd r of
        Err e \<Rightarrow> (fst r, Err e)
      | Ok _ \<Rightarrow> (put_inode (m\<lparr>ino := i\<rparr>) (fst r), Ok i))"

definition spec_mkdir :: "u64 \<Rightarrow> rstring \<Rightarrow> inode_meta \<Rightarrow> (meta_state, u64) fs_op" where
  "spec_mkdir p n m = a_op un_ino meta_error_to_errno (CreateDirectory p n m)"

definition spec_unlink :: "u64 \<Rightarrow> rstring \<Rightarrow> (meta_state, unit) fs_op" where
  "spec_unlink p n a =
     (case resolve p n a of
        Err e \<Rightarrow> fail e a
      | Ok i \<Rightarrow>
          (case a_inodes a i of
             None \<Rightarrow> fail ENOENT a
           | Some m \<Rightarrow>
               if is_dir_mode (mode m) then fail EISDIR a
               else and_then (drop_name p n) (\<lambda>_ a.
                 (if nlinks m \<le> 1 then forget i a else put_inode (m\<lparr>nlinks := nlinks m - 1\<rparr>) a, Ok ())) a))"

definition spec_rmdir :: "u64 \<Rightarrow> rstring \<Rightarrow> (meta_state, unit) fs_op" where
  "spec_rmdir p n a =
     (case resolve p n a of
        Err e \<Rightarrow> fail e a
      | Ok i \<Rightarrow>
          (case a_inodes a i of
             None \<Rightarrow> fail ENOENT a
           | Some m \<Rightarrow>
               if \<not> is_dir_mode (mode m) then fail ENOTDIR a
               else case a_dirs a i of
                 None \<Rightarrow> fail ENOTDIR a
               | Some dir \<Rightarrow>
                   if \<not> dom dir \<subseteq> dots then fail ENOTEMPTY a
                   else and_then (drop_name p n) (\<lambda>_ a.
                     let a = a\<lparr>a_inodes := (a_inodes a)(i := None)\<rparr> in
                     case a_inodes a p of
                       None \<Rightarrow> fail ENOENT a
                     | Some pm \<Rightarrow>
                         (if nlinks pm > 0 then put_inode (pm\<lparr>nlinks := nlinks pm - 1\<rparr>) a else a, Ok ())) a))"

definition spec_link :: "clock \<Rightarrow> u64 \<Rightarrow> u64 \<Rightarrow> rstring \<Rightarrow> (meta_state, u64) fs_op" where
  "spec_link now i p n a =
     (case a_inodes a i of
        None \<Rightarrow> fail ENOENT a
      | Some m \<Rightarrow>
          if is_dir_mode (mode m) then fail EPERM a
          else and_then (add_name p n i) (\<lambda>_ a.
            (put_inode (touch_ctime now (m\<lparr>nlinks := nlinks m + 1\<rparr>)) a, Ok i)) a)"

text \<open>A rename takes the target's name away from the inode \<open>j\<close> that has it.\<close>

definition displaced :: "u64 \<Rightarrow> inode_meta \<Rightarrow> meta_state \<Rightarrow> meta_state" where
  "displaced j m a =
     (if nlinks m > 1 then put_inode (m\<lparr>nlinks := nlinks m - 1\<rparr>) a
      else if is_dir_mode (mode m) then a else forget j a)"

definition spec_displace :: "u64 \<Rightarrow> rstring \<Rightarrow> u64 \<Rightarrow> (meta_state, unit) fs_op" where
  "spec_displace p n j a =
     (case a_inodes a j of
        None \<Rightarrow> fail ENOENT a
      | Some m \<Rightarrow> and_then (drop_name p n) (\<lambda>_ a. (displaced j m a, Ok ())) a)"

definition spec_touch :: "clock \<Rightarrow> u64 \<Rightarrow> (meta_state, unit) fs_op" where
  "spec_touch now i a =
     (case a_inodes a i of None \<Rightarrow> fail ENOENT a | Some m \<Rightarrow> (put_inode (touch_ctime now m) a, Ok ()))"

definition spec_rename :: "clock \<Rightarrow> u64 \<Rightarrow> rstring \<Rightarrow> u64 \<Rightarrow> rstring \<Rightarrow> u32 \<Rightarrow> (meta_state, unit) fs_op" where
  "spec_rename now p n p' n' flags a =
     (if flags AND 2 \<noteq> 0 then fail ENOSYS a
      else case resolve p n a of
        Err _ \<Rightarrow> fail ENOENT a
      | Ok i \<Rightarrow>
          (let target = resolve p' n' a in
           if flags AND 1 \<noteq> 0 \<and> \<not> isl target then fail EEXIST a
           else and_then (case target of Err _ \<Rightarrow> ret () | Ok j \<Rightarrow> spec_displace p' n' j)
             (\<lambda>_. and_then (add_name p' n' i) (\<lambda>_. and_then (drop_name p n) (\<lambda>_. spec_touch now i))) a))"

subsection \<open>The operations refine them\<close>

lemma refines_rel: "(\<And>s. fs_rel B s a \<Longrightarrow> refines B m p a) \<Longrightarrow> refines B m p a"
  unfolding refines_def by blast

lemma fs_rel_inode: "fs_rel B s a \<Longrightarrow> a_inodes a i = Some m \<Longrightarrow> ino m = i \<and> i < a_next a"
  using store_relD(8) unfolding fs_rel_def by blast

lemma same_size_allowed:
  assumes rel: "fs_rel B s a" and m: "a_inodes a (ino m') = Some m" and sz: "size m' = size m"
  shows "op_allowed (UpdateInode m') a"
proof -
  have store: "store_rel B (fs_meta s) a" using rel by (simp add: fs_rel_def)
  have "total_size ((a_inodes a)(ino m' \<mapsto> m')) = total_size (a_inodes a)"
    using total_size_insert [OF store_relD(11) [OF store], of "ino m'" m'] total_size_split [OF store_relD(11) [OF store] m] sz
    by simp
  also have "\<dots> = unat (ds_logical_bytes (fs_meta s))" using store_relD(9) [OF store] by simp
  finally show ?thesis using unat_u64_less [of "ds_logical_bytes (fs_meta s)"] by (simp add: op_allowed_def)
qed

text \<open>An update of an inode that keeps its size, with the error mapped or ignored.\<close>

lemma update_refines:
  assumes laws: "blockset_laws B" and m: "a_inodes a (ino m') = Some m" and sz: "size m' = size m"
  shows "refines B (on_meta g (update_inode B m')) (\<lambda>a. (put_inode m' a, Ok ())) a"
    "refines B (modify_meta (\<lambda>s. fst (update_inode B m' s))) (\<lambda>a. (put_inode m' a, Ok ())) a"
proof -
  have on: "refines B (on_meta g (update_inode B m')) (\<lambda>a. (put_inode m' a, Ok ())) a" for g
  proof (rule refines_rel, rule refines_eq)
    fix s assume "fs_rel B s a"
    then show "refines B (on_meta g (update_inode B m')) (a_op un_unit g (UpdateInode m')) a"
      by (rule store_calls_refine(3) [OF laws same_size_allowed [OF _ m sz]])
    show "a_op un_unit g (UpdateInode m') a = (put_inode m' a, Ok ())"
      using m by (simp add: a_op_def put_inode_def map_errno_def un_unit_def)
  qed
  then show "refines B (on_meta g (update_inode B m')) (\<lambda>a. (put_inode m' a, Ok ())) a" .
  show "refines B (modify_meta (\<lambda>s. fst (update_inode B m' s))) (\<lambda>a. (put_inode m' a, Ok ())) a"
    using on [of as_eio] by (simp add: refines_def modify_meta_def on_meta_def split_def Let_def)
qed

lemma drop_refs_rel:
  assumes "store_rel B m a"
  shows "store_rel B (fold decrement_refcount ds m) (a\<lparr>a_refs := fold count_down ds (a_refs a)\<rparr>)"
  using assms
proof (induction ds arbitrary: m a)
  case (Cons d ds)
  have get: "bt_get (ds_refcounts m) d = a_refs a d"
    by (rule denotes_cases [OF store_relD(5) [OF Cons.prems], where k = d]) simp_all
  have keep: "store_rel B m (a\<lparr>a_refs := (a_refs a)(d := x)\<rparr>)" if "a_refs a d = x" for x
    using Cons.prems that by (simp add: fun_upd_idem)
  have "store_rel B (decrement_refcount d m) (a\<lparr>a_refs := count_down d (a_refs a)\<rparr>)"
    using store_rel_put(4,5) [OF Cons.prems, of d] get
    by (auto simp: decrement_refcount_def count_down_def refcount_dec_def split: option.split intro: keep)
  from Cons.IH [OF this] show ?case by simp
qed simp

lemma forget_refines:
  assumes laws: "blockset_laws B"
  shows "refines B (modify_meta (forget_inode B i)) (\<lambda>a. (forget i a, Ok ())) a"
  unfolding refines_def
proof (intro allI impI)
  fix s
  assume rel: "fs_rel B s a" and ok: "bs_ok B (fs_io (fst (modify_meta (forget_inode B i) s)))"
  let ?m = "drop_manifest_refs B i (fs_meta s)" and ?ds = "case a_manifests a i of None \<Rightarrow> [] | Some ds \<Rightarrow> ds"
  let ?a = "a\<lparr>a_refs := fold count_down ?ds (a_refs a)\<rparr>"
  have store: "store_rel B (fs_meta s) a" using rel by (simp add: fs_rel_def)
  have "store_rel B ?m ?a"
    using drop_refs_rel [OF store, of ?ds] by (simp add: drop_manifest_refs_def get_manifest_at [OF store] split: option.splits)
  from delete_inode_refines [OF this, of i] ok
  have "store_rel B (fst (delete_inode B i ?m)) (fst (spec_op (DeleteInode i) ?a))"
    by (simp add: refine_simps modify_meta_def forget_inode_def)
  moreover have "fst (spec_op (DeleteInode i) ?a) = forget i a" by (auto simp: forget_def fun_upd_idem)
  ultimately show "fs_rel B (fst (modify_meta (forget_inode B i) s)) (fst (forget i a, Ok ())) \<and>
      snd (modify_meta (forget_inode B i) s) = snd (forget i a, Ok ()) \<and>
      fs_open_files (fst (modify_meta (forget_inode B i) s)) = fs_open_files s"
    using rel by (simp add: modify_meta_def forget_inode_def fs_rel_def)
qed

lemma call_forms:
  "a_op un_ino meta_error_to_errno (Lookup p n) a = (a, case resolve p n a of Err e \<Rightarrow> Err (Errno e) | Ok i \<Rightarrow> Ok i)"
  "a_op un_ino (\<lambda>_. ENOENT) (Lookup p n) a = (a, case resolve p n a of Err e \<Rightarrow> Err (Errno ENOENT) | Ok i \<Rightarrow> Ok i)"
  "a_op un_meta meta_error_to_errno (GetInode i) a =
     (a, case a_inodes a i of None \<Rightarrow> Err (Errno ENOENT) | Some m \<Rightarrow> Ok m)"
  "a_op un_unit meta_error_to_errno (Link p n i) a = add_name p n i a"
  "a_op un_unit meta_error_to_errno (Unlink p n) a = drop_name p n a"
  by (simp_all add: a_op_def map_errno_def resolve_def add_name_def drop_name_def fail_def un_ino_def un_meta_def
      un_unit_def split: option.split)

lemma ds_io_forget [simp]: "ds_io (forget_inode B i m) = ds_io m" "ds_io (drop_manifest_refs B i m) = ds_io m"
proof -
  have fold: "ds_io (fold decrement_refcount ds m) = ds_io m" for ds by (induction ds arbitrary: m) simp_all
  show drop: "ds_io (drop_manifest_refs B i m) = ds_io m" by (simp add: drop_manifest_refs_def fold split: sum.split)
  show "ds_io (forget_inode B i m) = ds_io m"
    by (simp add: forget_inode_def drop delete_inode_def Let_def split: option.split)
qed

lemma update_grows: "blockset_laws B \<Longrightarrow> bs_grows B (ds_io m) (ds_io (fst (update_inode B x m)))"
  by (rule store_ops_grow)

lemma inner_grows [grows_intros]:
  assumes "blockset_laws B"
  shows "bs_grows B (ds_io s) (ds_io (forget_inode B i s))" "bs_grows B (ds_io s) (ds_io (displace B i m s))"
  using update_grows [OF assms] by (auto simp: displace_def Let_def)

lemma a_inodes_names [simp]:
  "a_inodes (fst (add_name p n i a)) = a_inodes a" "a_inodes (fst (drop_name p n a)) = a_inodes a"
  by (simp_all add: add_name_def drop_name_def fail_def split: option.split)

lemma link_count:
  fixes c :: u32
  shows "c \<le> 1 \<longleftrightarrow> c = 0 \<or> c = 1" "c < 1 \<longleftrightarrow> c = 0" "c > 1 \<longleftrightarrow> c \<noteq> 0 \<and> c \<noteq> 1"
proof -
  have "unat c \<le> 1 \<longleftrightarrow> unat c = 0 \<or> unat c = 1" by auto
  then show le: "c \<le> 1 \<longleftrightarrow> c = 0 \<or> c = 1" by (simp add: word_le_nat_alt word_unat_eq_iff)
  show "c < 1 \<longleftrightarrow> c = 0" by (simp add: word_less_nat_alt word_unat_eq_iff)
  show "c > 1 \<longleftrightarrow> c \<noteq> 0 \<and> c \<noteq> 1" using le not_le [of c 1] by blast
qed

lemma drop_link_refines:
  assumes laws: "blockset_laws B" and m: "a_inodes a i = Some m"
  shows "refines B (let m' = (if nlinks m > 0 then m\<lparr>nlinks := nlinks m - 1\<rparr> else m) in
      if nlinks m' = 0 then modify_meta (forget_inode B i) else on_meta as_errno (update_inode B m'))
    (\<lambda>a. (if nlinks m \<le> 1 then forget i a else put_inode (m\<lparr>nlinks := nlinks m - 1\<rparr>) a, Ok ())) a"
proof (rule refines_rel)
  fix s assume "fs_rel B s a"
  then have "ino m = i" using fs_rel_inode m by blast
  then have "refines B (on_meta as_errno (update_inode B (m\<lparr>nlinks := nlinks m - 1\<rparr>)))
      (\<lambda>a. (put_inode (m\<lparr>nlinks := nlinks m - 1\<rparr>) a, Ok ())) a"
    by (intro update_refines(1) [OF laws, of _ _ m]) (simp_all add: m)
  moreover have "nlinks (if nlinks m > 0 then m\<lparr>nlinks := nlinks m - 1\<rparr> else m) = 0 \<longleftrightarrow> nlinks m \<le> 1"
    by (auto simp: link_count word_gt_0)
  moreover have "\<not> nlinks m \<le> 1 \<Longrightarrow> nlinks m > 0" by (simp add: link_count word_gt_0)
  ultimately show ?thesis using forget_refines [OF laws, of i a] by (cases "nlinks m \<le> 1") (simp_all add: Let_def)
qed

lemma unlink_refines:
  assumes laws: "blockset_laws B"
  shows "refines B (simulate_unlink B p n) (spec_unlink p n) a"
proof (rule refines_rel, rule refines_eq)
  fix s0 assume rel: "fs_rel B s0 a"
  let ?fin = "\<lambda>i m (_ :: unit) a. (if nlinks m \<le> 1 then forget i a else put_inode (m\<lparr>nlinks := nlinks m - 1\<rparr>) a, Ok ())"
  let ?P = "and_then (a_op un_ino as_errno (Lookup p n)) (\<lambda>i. and_then (a_op un_meta as_errno (GetInode i)) (\<lambda>m.
      if is_dir_mode (mode m) then fail EISDIR else and_then (a_op un_unit as_errno (Unlink p n)) (?fin i m)))"
  show "refines B (simulate_unlink B p n) ?P a"
    unfolding simulate_unlink_def
  proof (intro refines_and_then refines_if refines_simple store_calls_refine laws grows_intros)
    fix i m u
    assume "snd (a_op un_ino as_errno (Lookup p n) a) = Ok i"
      "snd (a_op un_meta as_errno (GetInode i) (fst (a_op un_ino as_errno (Lookup p n) a))) = Ok m"
    then have m: "a_inodes a i = Some m" by (auto simp: call_forms split: option.splits)
    show "refines B (let m' = (if nlinks m > 0 then m\<lparr>nlinks := nlinks m - 1\<rparr> else m) in
        if nlinks m' = 0 then modify_meta (forget_inode B i) else on_meta as_errno (update_inode B m')) (?fin i m u)
        (fst (a_op un_unit as_errno (Unlink p n) (fst (a_op un_meta as_errno (GetInode i) (fst (a_op un_ino as_errno (Lookup p n) a))))))"
      using drop_link_refines [OF laws, of "fst (drop_name p n a)" i m] m by (simp add: call_forms)
  qed (auto intro: grows_intros laws)
  show "?P a = spec_unlink p n a"
    by (simp add: spec_unlink_def and_then_def call_forms fail_def split: sum.split option.split)
qed

text \<open>A directory is empty when the listing has only the two dot entries.\<close>

lemma real_entries_dots: "lists_dir l dir \<Longrightarrow> real_entries l = [] \<longleftrightarrow> dom dir \<subseteq> dots"
proof -
  assume "lists_dir l dir"
  then have "dir = map_of (map (\<lambda>e. (de_name e, de_ino e)) l)" by (simp add: lists_dir_def)
  then have "dom dir = de_name ` set l" by (simp only: dom_map_of_conv_image_fst) (simp add: image_image)
  then show ?thesis by (auto simp: real_entries_def filter_empty_conv dots_def)
qed

lemma empty_check_refines:
  assumes laws: "blockset_laws B" and grows: "op_grows B m" and m: "refines B m p a"
  shows "refines B (and_then (ask_meta as_errno (list_directory B i)) (\<lambda>l. if real_entries l \<noteq> [] then fail ENOTEMPTY else m))
    (\<lambda>a. case a_dirs a i of None \<Rightarrow> fail ENOTDIR a | Some dir \<Rightarrow> if \<not> dom dir \<subseteq> dots then fail ENOTEMPTY a else p a) a"
    (is "refines B ?m ?p a")
  unfolding refines_def
proof (intro allI impI)
  fix s assume rel: "fs_rel B s a" and ok: "bs_ok B (fs_io (fst (?m s)))"
  have store: "store_rel B (fs_meta s) a" using rel by (simp add: fs_rel_def)
  have "op_grows B ?m" by (intro grows_intros grows)
  then have "bs_ok B (fs_io s)" using ok by (rule op_grows_ok)
  then have list: "same_resp (map_sum id REntries (list_directory B i (fs_meta s))) (snd (spec_op (ListDirectory i) a))"
    using list_directory_refines [OF store, of i] by (simp add: refine_simps)
  show "fs_rel B (fst (?m s)) (fst (?p a)) \<and> snd (?m s) = snd (?p a) \<and> fs_open_files (fst (?m s)) = fs_open_files s"
  proof (cases "a_dirs a i")
    case None
    then have "list_directory B i (fs_meta s) = Err (NotADirectory i)"
      using list by (cases "list_directory B i (fs_meta s)") (auto simp: same_resp_def)
    then show ?thesis using rel None by (simp add: and_then_def ask_meta_def map_errno_def fail_def)
  next
    case (Some dir)
    then obtain l where l: "list_directory B i (fs_meta s) = Ok l" "lists_dir l dir"
      using list by (cases "list_directory B i (fs_meta s)") (auto simp: same_resp_def)
    have run: "?m s = (if \<not> dom dir \<subseteq> dots then fail ENOTEMPTY else m) s"
      by (simp add: and_then_def ask_meta_def map_errno_def l(1) real_entries_dots [OF l(2)])
    show ?thesis using refinesD [OF m rel] ok rel unfolding run by (auto simp: Some fail_def)
  qed
qed

lemma rmdir_refines:
  assumes laws: "blockset_laws B"
  shows "refines B (simulate_rmdir B p n) (spec_rmdir p n) a"
proof (rule refines_rel, rule refines_eq)
  fix s0 assume rel: "fs_rel B s0 a"
  let ?check = "\<lambda>i q a. case a_dirs a i of None \<Rightarrow> fail ENOTDIR a | Some dir \<Rightarrow> if \<not> dom dir \<subseteq> dots then fail ENOTEMPTY a else q a"
  let ?fin = "\<lambda>m. if nlinks m > 0 then (\<lambda>a. (put_inode (m\<lparr>nlinks := nlinks m - 1\<rparr>) a, Ok ())) else ret ()"
  let ?P = "and_then (a_op un_ino as_errno (Lookup p n)) (\<lambda>i. and_then (a_op un_meta as_errno (GetInode i)) (\<lambda>m.
      if \<not> is_dir_mode (mode m) then fail ENOTDIR else ?check i (and_then (a_op un_unit as_errno (Unlink p n)) (\<lambda>_.
        and_then (a_op un_unit as_errno (DeleteInode i)) (\<lambda>_. and_then (a_op un_meta as_errno (GetInode p)) ?fin)))))"
  show "refines B (simulate_rmdir B p n) ?P a"
    unfolding simulate_rmdir_def
  proof (intro refines_and_then refines_if refines_simple store_calls_refine empty_check_refines laws grows_intros)
    fix i m u v pm a'
    show "refines B (on_meta as_errno (update_inode B (pm\<lparr>nlinks := nlinks pm - 1\<rparr>)))
       (\<lambda>a. (put_inode (pm\<lparr>nlinks := nlinks pm - 1\<rparr>) a, Ok ())) (fst (a_op un_meta as_errno (GetInode p) a'))"
      if "snd (a_op un_meta as_errno (GetInode p) a') = Ok pm"
    proof (rule refines_rel)
      have m: "a_inodes a' p = Some pm" using that by (auto simp: call_forms split: option.splits)
      fix s assume "fs_rel B s (fst (a_op un_meta as_errno (GetInode p) a'))"
      then have "ino pm = p" using fs_rel_inode [of B s a' p pm] m by (simp add: call_forms)
      then show ?thesis by (intro update_refines(1) [OF laws, of _ _ pm]) (simp_all add: m call_forms)
    qed
  qed
  have del: "snd (drop_name p n a) = Ok () \<Longrightarrow> a_inodes a i \<noteq> None \<Longrightarrow>
      a_op un_unit as_errno (DeleteInode i) (fst (drop_name p n a)) =
      ((fst (drop_name p n a))\<lparr>a_inodes := (a_inodes a)(i := None)\<rparr>, Ok ())" for i
    by (auto simp: a_op_def map_errno_def un_unit_def)
  show "?P a = spec_rmdir p n a"
    by (cases "snd (drop_name p n a)")
      (simp_all add: spec_rmdir_def and_then_def [of "drop_name p n"] and_then_def [of "a_op un x y" for un x y] call_forms
        fail_def ret_def del split_def Let_def split: sum.split option.split)
qed

lemma link_refines:
  assumes laws: "blockset_laws B" and allowed: "op_allowed (Link p n i) a"
  shows "refines B (simulate_link B now i p n) (spec_link now i p n) a"
proof (rule refines_rel, rule refines_eq)
  fix s0 assume rel: "fs_rel B s0 a"
  let ?P = "and_then (a_op un_meta as_errno (GetInode i)) (\<lambda>m. if is_dir_mode (mode m) then fail EPERM
     else and_then (a_op un_unit as_errno (Link p n i)) (\<lambda>_.
       and_then (\<lambda>a. (put_inode (touch_ctime now (m\<lparr>nlinks := nlinks m + 1\<rparr>)) a, Ok ())) (\<lambda>_. ret i)))"
  show "refines B (simulate_link B now i p n) ?P a"
    unfolding simulate_link_def
  proof (intro refines_and_then refines_if refines_simple store_calls_refine laws grows_intros)
    show "op_allowed (Link p n i) (fst (a_op un_meta as_errno (GetInode i) a))" using allowed by (simp add: call_forms)
    fix m assume "snd (a_op un_meta as_errno (GetInode i) a) = Ok m"
    then have m: "a_inodes a i = Some m" by (auto simp: call_forms split: option.splits)
    then have "ino m = i" using fs_rel_inode [OF rel] by blast
    then show "refines B (on_meta as_errno (update_inode B (touch_ctime now (m\<lparr>nlinks := nlinks m + 1\<rparr>))))
        (\<lambda>a. (put_inode (touch_ctime now (m\<lparr>nlinks := nlinks m + 1\<rparr>)) a, Ok ()))
        (fst (a_op un_unit as_errno (Link p n i) (fst (a_op un_meta as_errno (GetInode i) a))))"
      by (intro update_refines(1) [OF laws, of _ _ m]) (simp_all add: m call_forms touch_ctime_def)
  qed
  show "?P a = spec_link now i p n a"
    by (simp add: spec_link_def and_then_def call_forms fail_def ret_def split: sum.split option.split prod.split)
qed

lemma mkdir_refines:
  assumes laws: "blockset_laws B" and allowed: "op_allowed (CreateDirectory p n m) a"
  shows "refines B (on_meta as_errno (create_directory B p n m)) (spec_mkdir p n m) a"
  unfolding spec_mkdir_def by (rule store_calls_refine(5) [OF laws allowed])

text \<open>A new inode whose link is refused is deleted again: only its number is used up.\<close>

definition link_or_undo :: "('io, 'st) blockset \<Rightarrow> u64 \<Rightarrow> rstring \<Rightarrow> u64 \<Rightarrow> (('io, 'st) fs, u64) fs_op" where
  "link_or_undo B p n i s =
     (case store_link B p n i (fs_meta s) of
        (m, Err e) \<Rightarrow> (s\<lparr>fs_meta := fst (delete_inode B i m)\<rparr>, Err (Errno (meta_error_to_errno e)))
      | (m, Ok _) \<Rightarrow> (s\<lparr>fs_meta := m\<rparr>, Ok i))"

lemma create_linked_undo: "create_linked B p n m = and_then (on_meta as_errno (create_inode B m)) (link_or_undo B p n)"
  unfolding create_linked_def link_or_undo_def by (rule refl)

lemma ds_io_delete [simp]: "ds_io (fst (delete_inode B i m)) = ds_io m"
  by (simp add: delete_inode_def Let_def split: option.split)

lemma link_or_undo_grows [grows_intros]: "blockset_laws B \<Longrightarrow> op_grows B (link_or_undo B p n i)"
  using store_ops_grow(5) [of B] unfolding op_grows_def link_or_undo_def split_def by (auto split: sum.split)

lemma link_or_undo_refines:
  assumes laws: "blockset_laws B" and allowed: "op_allowed (Link p n i) a" and i: "a_inodes a i \<noteq> None"
  shows "refines B (link_or_undo B p n i) (\<lambda>a. case snd (add_name p n i a) of
      Err e \<Rightarrow> (a\<lparr>a_inodes := (a_inodes a)(i := None)\<rparr>, Err e) | Ok _ \<Rightarrow> (fst (add_name p n i a), Ok i)) a"
    (is "refines B ?m ?p a")
  unfolding refines_def
proof (intro allI impI)
  fix s assume rel: "fs_rel B s a" and ok: "bs_ok B (fs_io (fst (?m s)))"
  obtain m r where link: "store_link B p n i (fs_meta s) = (m, r)" by (cases "store_link B p n i (fs_meta s)")
  have "bs_ok B (ds_io m)" using ok by (auto simp: link_or_undo_def link split: sum.splits)
  then have "bs_ok B (fs_io (fst (on_meta as_errno (store_link B p n i) s)))" by (simp add: on_meta_def link)
  note 1 = refinesD [OF store_calls_refine(7) [OF laws allowed] rel this, unfolded call_forms]
  show "fs_rel B (fst (?m s)) (fst (?p a)) \<and> snd (?m s) = snd (?p a) \<and> fs_open_files (fst (?m s)) = fs_open_files s"
  proof (cases r)
    case (Inr x)
    then show ?thesis using 1 by (auto simp: link_or_undo_def link on_meta_def map_errno_def split: sum.splits)
  next
    case (Inl e)
    then have e: "snd (add_name p n i a) = Err (Errno (as_errno e))" using 1(2) by (simp add: on_meta_def link map_errno_def)
    then have "fst (add_name p n i a) = a" by (auto simp: add_name_def fail_def split: option.splits if_splits)
    then have "store_rel B m a" using 1(1) by (simp add: on_meta_def link fs_rel_def)
    from delete_inode_refines [OF this, of i] \<open>bs_ok B (ds_io m)\<close> i
    have "store_rel B (fst (delete_inode B i m)) (a\<lparr>a_inodes := (a_inodes a)(i := None)\<rparr>)" by (simp add: refine_simps)
    then show ?thesis using Inl rel by (simp add: link_or_undo_def link e fs_rel_def)
  qed
qed

lemma create_refines:
  assumes laws: "blockset_laws B" and allowed: "op_allowed (CreateInode m) a" "op_allowed (Link p n i) a"
  shows "refines B (create_linked B p n m) (spec_create p n m) a"
proof (rule refines_rel, rule refines_eq)
  fix s0 assume rel: "fs_rel B s0 a"
  let ?i = "a_next a"
  let ?a1 = "a\<lparr>a_inodes := (a_inodes a)(?i \<mapsto> m\<lparr>ino := ?i\<rparr>), a_next := ?i + 1\<rparr>"
  let ?P = "and_then (a_op un_ino as_errno (CreateInode m)) (\<lambda>i a. case snd (add_name p n i a) of
      Err e \<Rightarrow> (a\<lparr>a_inodes := (a_inodes a)(i := None)\<rparr>, Err e) | Ok _ \<Rightarrow> (fst (add_name p n i a), Ok i))"
  have create: "a_op un_ino as_errno (CreateInode m) a = (?a1, Ok ?i)" by (simp add: a_op_def map_errno_def un_ino_def)
  show "refines B (create_linked B p n m) ?P a"
    unfolding create_linked_undo
  proof (intro refines_and_then store_calls_refine link_or_undo_refines laws grows_intros allowed(1))
    fix i' assume "snd (a_op un_ino as_errno (CreateInode m) a) = Ok i'"
    then have i': "i' = ?i" by (simp add: create)
    show "op_allowed (Link p n i') (fst (a_op un_ino as_errno (CreateInode m) a))"
      using allowed(2) by (simp add: create op_allowed_def dir_room_def)
    show "a_inodes (fst (a_op un_ino as_errno (CreateInode m) a)) i' \<noteq> None" by (simp add: create i')
  qed
  have "a_inodes a ?i = None" using fs_rel_inode [OF rel, of ?i] by (cases "a_inodes a ?i") auto
  then show "?P a = spec_create p n m a"
    by (simp add: and_then_def create spec_create_def add_name_def fail_def put_inode_def fun_upd_idem Let_def
        split: option.split)
qed

lemma touch_refines:
  assumes laws: "blockset_laws B"
  shows "refines B (and_then (ask_meta as_errno (get_inode B i)) (\<lambda>m. on_meta as_errno (update_inode B (touch_ctime now m))))
    (spec_touch now i) a"
proof (rule refines_rel, rule refines_eq)
  fix s0 assume rel: "fs_rel B s0 a"
  let ?P = "and_then (a_op un_meta as_errno (GetInode i)) (\<lambda>m a. (put_inode (touch_ctime now m) a, Ok ()))"
  show "refines B (and_then (ask_meta as_errno (get_inode B i)) (\<lambda>m. on_meta as_errno (update_inode B (touch_ctime now m)))) ?P a"
  proof (intro refines_and_then store_calls_refine laws grows_intros)
    fix m assume "snd (a_op un_meta as_errno (GetInode i) a) = Ok m"
    then have m: "a_inodes a i = Some m" by (auto simp: call_forms split: option.splits)
    then have "ino m = i" using fs_rel_inode [OF rel] by blast
    then show "refines B (on_meta as_errno (update_inode B (touch_ctime now m)))
        (\<lambda>a. (put_inode (touch_ctime now m) a, Ok ())) (fst (a_op un_meta as_errno (GetInode i) a))"
      by (intro update_refines(1) [OF laws, of _ _ m]) (simp_all add: m call_forms touch_ctime_def)
  qed
  show "?P a = spec_touch now i a"
    by (simp add: spec_touch_def and_then_def call_forms fail_def split: sum.split option.split)
qed

lemma displace_refines:
  assumes laws: "blockset_laws B" and m: "a_inodes a j = Some m"
  shows "refines B (modify_meta (displace B j m)) (\<lambda>a. (displaced j m a, Ok ())) a"
proof (rule refines_rel)
  fix s assume "fs_rel B s a"
  then have "ino m = j" using fs_rel_inode m by blast
  then have "refines B (modify_meta (\<lambda>s. fst (update_inode B (m\<lparr>nlinks := nlinks m - 1\<rparr>) s)))
      (\<lambda>a. (put_inode (m\<lparr>nlinks := nlinks m - 1\<rparr>) a, Ok ())) a"
    by (intro update_refines(2) [OF laws, of _ _ m]) (simp_all add: m)
  moreover have "refines B (modify_meta (\<lambda>s. s)) (\<lambda>a. (a, Ok ())) a" by (simp add: refines_def modify_meta_def)
  moreover have "displace B j m = (if nlinks m > 1 then (\<lambda>s. fst (update_inode B (m\<lparr>nlinks := nlinks m - 1\<rparr>) s))
      else if is_dir_mode (mode m) then (\<lambda>s. s) else forget_inode B j)"
    by (auto simp: displace_def fun_eq_iff Let_def link_count word_gt_0)
  ultimately show ?thesis using forget_refines [OF laws, of j a] by (simp add: displaced_def)
qed

text \<open>The lookup of the target of a rename, whose error is looked at but not returned.\<close>

definition try_lookup :: "('io, 'st) blockset \<Rightarrow> u64 \<Rightarrow> rstring \<Rightarrow> (('io, 'st) fs, meta_error + u64) fs_op" where
  "try_lookup B p n s = (s\<lparr>fs_meta := fst (store_lookup B p n (fs_meta s))\<rparr>, Ok (snd (store_lookup B p n (fs_meta s))))"

lemma try_lookup_refines:
  assumes laws: "blockset_laws B"
  shows "refines B (try_lookup B p n) (\<lambda>a. (a, Ok (map_sum id un_ino (snd (spec_op (Lookup p n) a))))) a"
  unfolding refines_def
proof (intro allI impI)
  fix s :: "('a, 'b) fs"
  assume rel: "fs_rel B s a" and ok: "bs_ok B (fs_io (fst (try_lookup B p n s)))"
  have "store_rel B (fs_meta s) a" using rel by (simp add: fs_rel_def)
  from store_lookup_refines [OF laws this, of p n] ok
  have "store_rel B (fst (store_lookup B p n (fs_meta s))) a"
    "same_resp (map_sum id RIno (snd (store_lookup B p n (fs_meta s)))) (snd (spec_op (Lookup p n) a))"
    by (simp_all add: refine_simps try_lookup_def)
  moreover from this(2) have "snd (store_lookup B p n (fs_meta s)) = map_sum id un_ino (snd (spec_op (Lookup p n) a))"
    by (cases "snd (store_lookup B p n (fs_meta s))"; cases "snd (spec_op (Lookup p n) a)")
      (auto simp: same_resp_def un_ino_def elim: resp.rel_cases)
  ultimately show "fs_rel B (fst (try_lookup B p n s)) (fst (a, Ok (map_sum id un_ino (snd (spec_op (Lookup p n) a))))) \<and>
      snd (try_lookup B p n s) = snd (a, Ok (map_sum id un_ino (snd (spec_op (Lookup p n) a)))) \<and>
      fs_open_files (fst (try_lookup B p n s)) = fs_open_files s"
    using rel by (simp add: try_lookup_def fs_rel_def)
qed

lemma try_lookup_grows [grows_intros]: "blockset_laws B \<Longrightarrow> op_grows B (try_lookup B p n)"
  using store_ops_grow(4) [of B] by (simp add: op_grows_def try_lookup_def)

lemma op_grows_case_sum [grows_intros]:
  "(\<And>x. op_grows B (f x)) \<Longrightarrow> (\<And>x. op_grows B (g x)) \<Longrightarrow> op_grows B (case r of Err x \<Rightarrow> f x | Ok x \<Rightarrow> g x)"
  by (simp split: sum.split)

definition rename_tail ::
  "('io, 'st) blockset \<Rightarrow> clock \<Rightarrow> u64 \<Rightarrow> rstring \<Rightarrow> u64 \<Rightarrow> rstring \<Rightarrow> u64 \<Rightarrow> (('io, 'st) fs, unit) fs_op" where
  "rename_tail B now p n p' n' i =
     and_then (on_meta as_errno (store_link B p' n' i)) (\<lambda>_. and_then (on_meta as_errno (store_unlink B p n)) (\<lambda>_.
       and_then (ask_meta as_errno (get_inode B i)) (\<lambda>m. on_meta as_errno (update_inode B (touch_ctime now m)))))"

definition rename_displace :: "('io, 'st) blockset \<Rightarrow> u64 \<Rightarrow> rstring \<Rightarrow> u64 \<Rightarrow> (('io, 'st) fs, unit) fs_op" where
  "rename_displace B p' n' j =
     and_then (ask_meta as_errno (get_inode B j)) (\<lambda>m. and_then (on_meta as_errno (store_unlink B p' n')) (\<lambda>_.
       modify_meta (displace B j m)))"

lemma try_then: "and_then (try_lookup B p n) f s = f (snd (store_lookup B p n (fs_meta s))) (fst (try_lookup B p n s))"
  by (simp add: and_then_def try_lookup_def)

lemma pure_then: "and_then (\<lambda>a. (a, Ok (f a))) F a = F (f a) a"
  by (simp add: and_then_def)

lemma rename_forms:
  "simulate_rename B now p n p' n' flags =
     (if flags AND 2 \<noteq> 0 then fail ENOSYS
      else and_then (on_meta (\<lambda>_. ENOENT) (store_lookup B p n)) (\<lambda>i. and_then (try_lookup B p' n') (\<lambda>target.
        if flags AND 1 \<noteq> 0 \<and> \<not> isl target then fail EEXIST
        else and_then (case target of Err _ \<Rightarrow> ret () | Ok j \<Rightarrow> rename_displace B p' n' j) (\<lambda>_. rename_tail B now p n p' n' i))))"
  unfolding simulate_rename_def rename_displace_def rename_tail_def
  by (rule if_cong [OF refl refl], rule arg_cong [of _ _ "and_then _"], intro ext)
    (simp add: try_then split_def Let_def fail_def try_lookup_def)

lemma rename_tail_grows [grows_intros]: "blockset_laws B \<Longrightarrow> op_grows B (rename_tail B now p n p' n' i)"
  unfolding rename_tail_def by (intro grows_intros)

lemma rename_displace_grows [grows_intros]: "blockset_laws B \<Longrightarrow> op_grows B (rename_displace B p' n' j)"
  unfolding rename_displace_def by (intro grows_intros)

lemma rename_tail_refines:
  assumes laws: "blockset_laws B" and allowed: "op_allowed (Link p' n' i) a"
  shows "refines B (rename_tail B now p n p' n' i)
    (and_then (add_name p' n' i) (\<lambda>_. and_then (drop_name p n) (\<lambda>_. spec_touch now i))) a"
  unfolding rename_tail_def call_forms(4,5) [abs_def, symmetric]
  by (intro refines_and_then store_calls_refine touch_refines laws grows_intros allowed)

lemma rename_displace_refines:
  assumes laws: "blockset_laws B"
  shows "refines B (rename_displace B p' n' j) (spec_displace p' n' j) a"
proof (rule refines_eq)
  let ?P = "and_then (a_op un_meta as_errno (GetInode j)) (\<lambda>m. and_then (a_op un_unit as_errno (Unlink p' n'))
      (\<lambda>_ a. (displaced j m a, Ok ())))"
  show "refines B (rename_displace B p' n' j) ?P a"
    unfolding rename_displace_def
  proof (intro refines_and_then store_calls_refine laws grows_intros displace_refines)
    fix m assume "snd (a_op un_meta as_errno (GetInode j) a) = Ok m"
    then show "a_inodes (fst (a_op un_unit as_errno (Unlink p' n') (fst (a_op un_meta as_errno (GetInode j) a)))) j = Some m"
      by (auto simp: call_forms split: option.splits)
  qed
  show "?P a = spec_displace p' n' j a"
    by (simp add: spec_displace_def and_then_def call_forms fail_def split: option.split)
qed

lemma displace_room: "dir_room a p \<Longrightarrow> dir_room (fst (spec_displace p n j a)) p"
proof -
  have dirs: "a_dirs (displaced j m a) = a_dirs a" for m a by (simp add: displaced_def put_inode_def forget_def)
  have "card (dom (dir(n := None))) \<le> card (dom dir)" for dir :: "rstring \<rightharpoonup> u64" by (simp add: card_Diff1_le)
  then show "dir_room a p \<Longrightarrow> dir_room (fst (spec_displace p n j a)) p"
    by (auto simp: spec_displace_def and_then_def drop_name_def fail_def dir_room_def dirs split: option.splits if_splits
        intro: le_less_trans)
qed

lemma rename_refines:
  assumes laws: "blockset_laws B" and allowed: "name_ok n'" "dir_room a p'"
  shows "refines B (simulate_rename B now p n p' n' flags) (spec_rename now p n p' n' flags) a"
proof (rule refines_eq)
  let ?t = "\<lambda>a. (a, Ok (map_sum id un_ino (snd (spec_op (Lookup p' n') a))))"
  let ?P = "if flags AND 2 \<noteq> 0 then fail ENOSYS
      else and_then (a_op un_ino (\<lambda>_. ENOENT) (Lookup p n)) (\<lambda>i. and_then ?t (\<lambda>target :: meta_error + u64.
        if flags AND 1 \<noteq> 0 \<and> \<not> isl target then fail EEXIST
        else and_then (case target of Err _ \<Rightarrow> ret () | Ok j \<Rightarrow> spec_displace p' n' j)
          (\<lambda>_. and_then (add_name p' n' i) (\<lambda>_. and_then (drop_name p n) (\<lambda>_. spec_touch now i)))))"
  have displace: "refines B (case target of Err _ \<Rightarrow> ret () | Ok j \<Rightarrow> rename_displace B p' n' j)
      (case target of Err _ \<Rightarrow> ret () | Ok j \<Rightarrow> spec_displace p' n' j) a" for target :: "meta_error + u64" and a
    using rename_displace_refines [OF laws] refines_simple by (auto split: sum.split)
  have room: "dir_room (fst ((case target of Err _ \<Rightarrow> ret () | Ok j \<Rightarrow> spec_displace p' n' j) a)) p'" for target :: "meta_error + u64"
    using displace_room [OF allowed(2)] allowed(2) by (simp add: ret_def split: sum.split)
  show "refines B (simulate_rename B now p n p' n' flags) ?P a"
    unfolding rename_forms
    by (intro refines_if refines_simple refines_and_then store_calls_refine try_lookup_refines displace rename_tail_refines
        laws grows_intros) (simp_all add: op_allowed_def allowed room call_forms)
  show "?P a = spec_rename now p n p' n' flags a"
    by (auto simp: spec_rename_def and_then_def [of "a_op x y z" for x y z] pure_then call_forms resolve_def
        fail_def un_ino_def Let_def split: option.split)
qed

end
