(* ===== verification/Links.thy ===== *)
theory Links
  imports Namespace
begin

unbundle bit_operations_syntax

section \<open>Names and links\<close>

text \<open>
  Sequences of operations on names: they refine the operations on maps, and they keep the invariant
  \<open>links_ok\<close>, under which every name leads to an inode, a directory has one name at most and the link
  count of a file is the number of its names.
\<close>

subsection \<open>The operations\<close>

datatype ns_op =
    NMknod u64 rstring u32 u32 u32 u32
  | NMkdir u64 rstring u32 u32 u32 u32
  | NUnlink u64 rstring
  | NRmdir u64 rstring
  | NLink clock u64 u64 rstring
  | NRename clock u64 rstring u64 rstring u32

primrec run_ns :: "('io, 'st) blockset \<Rightarrow> ns_op \<Rightarrow> (('io, 'st) fs, u64 option) fs_op" where
  "run_ns B (NMknod p n m u g umask) = and_then (test_mknod B p n m u g umask) (\<lambda>i. ret (Some i))"
| "run_ns B (NMkdir p n m umask u g) = and_then (simulate_mkdir B p n m umask u g) (\<lambda>i. ret (Some i))"
| "run_ns B (NUnlink p n) = and_then (simulate_unlink B p n) (\<lambda>_. ret None)"
| "run_ns B (NRmdir p n) = and_then (simulate_rmdir B p n) (\<lambda>_. ret None)"
| "run_ns B (NLink now i p n) = and_then (simulate_link B now i p n) (\<lambda>i. ret (Some i))"
| "run_ns B (NRename now p n p' n' flags) = and_then (simulate_rename B now p n p' n' flags) (\<lambda>_. ret None)"

primrec spec_ns :: "ns_op \<Rightarrow> (meta_state, u64 option) fs_op" where
  "spec_ns (NMknod p n m u g umask) =
     (if m AND S_IFMT \<noteq> S_IFREG \<and> m AND S_IFMT \<noteq> 0 then fail ENOSYS
      else and_then (spec_create p n (new_file 0 u g (file_mode S_IFREG m umask))) (\<lambda>i. ret (Some i)))"
| "spec_ns (NMkdir p n m umask u g) =
     and_then (spec_mkdir p n (new_directory 0 u g (file_mode S_IFDIR m umask))) (\<lambda>i. ret (Some i))"
| "spec_ns (NUnlink p n) = and_then (spec_unlink p n) (\<lambda>_. ret None)"
| "spec_ns (NRmdir p n) = and_then (spec_rmdir p n) (\<lambda>_. ret None)"
| "spec_ns (NLink now i p n) = and_then (spec_link now i p n) (\<lambda>i. ret (Some i))"
| "spec_ns (NRename now p n p' n' flags) = and_then (spec_rename now p n p' n' flags) (\<lambda>_. ret None)"

text \<open>
  The calls covered: names are Rust strings and not one of the dot entries that the kernel resolves
  itself, the directory has room, and inode numbers and link counts do not overflow.
\<close>

definition new_name_ok :: "u64 \<Rightarrow> rstring \<Rightarrow> meta_state \<Rightarrow> bool" where
  "new_name_ok p n a \<longleftrightarrow> name_ok n \<and> dir_room a p"

primrec ns_allowed :: "ns_op \<Rightarrow> meta_state \<Rightarrow> bool" where
  "ns_allowed (NMknod p n m u g umask) a = (a_next a \<noteq> u64_max \<and> new_name_ok p n a)"
| "ns_allowed (NMkdir p n m umask u g) a = (a_next a \<noteq> u64_max \<and> new_name_ok p n a)"
| "ns_allowed (NUnlink p n) a = True"
| "ns_allowed (NRmdir p n) a = True"
| "ns_allowed (NLink now i p n) a =
     (new_name_ok p n a \<and> (case a_inodes a i of None \<Rightarrow> True | Some m \<Rightarrow> nlinks m \<noteq> - 1))"
| "ns_allowed (NRename now p n p' n' flags) a = (n \<notin> dots \<and> new_name_ok p' n' a)"

lemma size_0_allowed:
  assumes "fs_rel B s a" "size m = 0" "a_next a \<noteq> u64_max"
  shows "op_allowed (CreateInode m) a"
proof -
  have "unat (ds_logical_bytes (fs_meta s)) = total_size (a_inodes a)" using store_relD(9) assms(1) by (auto simp: fs_rel_def)
  then show ?thesis using unat_u64_less [of "ds_logical_bytes (fs_meta s)"] assms(2,3) by (simp add: op_allowed_def)
qed

lemma ret_grows: "op_grows B (ret x)"
  by (rule simple_grows)

lemma run_ns_refines:
  assumes laws: "blockset_laws B" and rel: "fs_rel B s a" and allowed: "ns_allowed oper a"
  shows "refines B (run_ns B oper) (spec_ns oper) a"
proof (cases oper)
  case (NMknod p n m u g umask)
  have "size (new_file 0 u g (file_mode S_IFREG m umask)) = 0" by (simp add: new_file_def)
  then have "refines B (create_linked B p n (new_file 0 u g (file_mode S_IFREG m umask)))
      (spec_create p n (new_file 0 u g (file_mode S_IFREG m umask))) a"
    using allowed size_0_allowed [OF rel] by (intro create_refines [OF laws, where i = 0])
      (simp_all add: NMknod op_allowed_def new_name_ok_def)
  then have "refines B (and_then (create_linked B p n (new_file 0 u g (file_mode S_IFREG m umask))) (\<lambda>i. ret (Some i)))
      (and_then (spec_create p n (new_file 0 u g (file_mode S_IFREG m umask))) (\<lambda>i. ret (Some i))) a"
    by (intro refines_and_then ret_grows refines_simple)
  moreover have "and_then (fail ENOSYS) f = fail ENOSYS" for f :: "u64 \<Rightarrow> (('a, 'b) fs, u64 option) fs_op"
    by (simp add: and_then_def fail_def fun_eq_iff)
  ultimately show ?thesis by (simp add: NMknod test_mknod_def Let_def refines_simple)
next
  case (NMkdir p n m umask u g)
  then show ?thesis using allowed
    by (auto simp: simulate_mkdir_def new_directory_def op_allowed_def new_name_ok_def
        intro!: refines_and_then ret_grows refines_simple mkdir_refines laws)
next
  case (NRename now p n p' n' flags)
  then show ?thesis using allowed
    by (auto simp: new_name_ok_def intro!: refines_and_then ret_grows refines_simple rename_refines laws)
next
  case (NLink now i p n)
  then show ?thesis using allowed
    by (auto simp: new_name_ok_def op_allowed_def intro!: refines_and_then ret_grows refines_simple link_refines laws)
qed (auto intro!: refines_and_then ret_grows refines_simple unlink_refines rmdir_refines laws)

lemma run_ns_grows:
  assumes "blockset_laws B"
  shows "op_grows B (run_ns B oper)"
  by (cases oper)
    (auto simp: simulate_mkdir_def simulate_unlink_def simulate_rmdir_def simulate_link_def rename_forms test_mknod_def
      create_linked_undo Let_def intro!: grows_intros assms)

interpretation ns_sim: simulation "run_ns B" spec_ns ns_allowed "fs_rel B"
  "\<lambda>s. blockset_laws B \<and> bs_ok B (fs_io s)" "(=)"
proof
  fix s a oper
  assume "fs_rel B s a" "ns_allowed oper a" "blockset_laws B \<and> bs_ok B (fs_io (fst (run_ns B oper s)))"
  then show "fs_rel B (fst (run_ns B oper s)) (fst (spec_ns oper a)) \<and> snd (run_ns B oper s) = snd (spec_ns oper a)"
    using refinesD [OF run_ns_refines] by blast
next
  fix s oper
  assume "blockset_laws B \<and> bs_ok B (fs_io (fst (run_ns B oper s)))"
  then show "blockset_laws B \<and> bs_ok B (fs_io s)" using op_grows_ok [OF run_ns_grows] by blast
qed

subsection \<open>The names of an inode\<close>

definition names :: "meta_state \<Rightarrow> u64 \<Rightarrow> (u64 \<times> rstring) set" where
  "names a i = {(p, n). n \<notin> dots \<and> resolve p n a = Ok i}"

definition count_ok :: "inode_meta \<Rightarrow> (u64 \<times> rstring) set \<Rightarrow> bool" where
  "count_ok m N \<longleftrightarrow> finite N \<and> (if is_dir_mode (mode m) then card N \<le> 1 else card N = unat (nlinks m))"

definition links_ok :: "meta_state \<Rightarrow> bool" where
  "links_ok a \<longleftrightarrow>
     (\<forall>i. a_inodes a i = None \<longrightarrow> names a i = {}) \<and>
     (\<forall>i m. a_inodes a i = Some m \<longrightarrow> count_ok m (names a i) \<and> i < a_next a \<and> ino m = i) \<and>
     (\<forall>p dir. a_dirs a p = Some dir \<longrightarrow> p < a_next a \<and> (\<forall>m. a_inodes a p = Some m \<longrightarrow> is_dir_mode (mode m)))"

lemma names_frame: "a_dirs a' = a_dirs a \<Longrightarrow> names a' = names a"
  by (simp add: names_def resolve_def fun_eq_iff)

lemma names_put [simp]:
  "names (put_inode m a) = names a" "names (forget i a) = names a" "names (a\<lparr>a_inodes := f\<rparr>) = names a"
  "names (a\<lparr>a_next := x\<rparr>) = names a"
  by (rule names_frame, simp add: put_inode_def forget_def)+

lemma put_frame [simp]:
  "a_next (put_inode m a) = a_next a" "a_dirs (put_inode m a) = a_dirs a" "a_inodes (put_inode m a) = (a_inodes a)(ino m \<mapsto> m)"
  "a_next (forget i a) = a_next a" "a_dirs (forget i a) = a_dirs a" "a_inodes (forget i a) = (a_inodes a)(i := None)"
  by (simp_all add: put_inode_def forget_def)

lemma add_nameE:
  assumes "snd (add_name p n i a) = Ok ()"
  obtains dir where "a_dirs a p = Some dir" "n \<notin> dots" "dir n = None"
    "fst (add_name p n i a) = a\<lparr>a_dirs := (a_dirs a)(p \<mapsto> dir(n \<mapsto> i))\<rparr>"
  using assms by (auto simp: add_name_def fail_def split: option.splits if_splits)

lemma drop_nameE:
  assumes "snd (drop_name p n a) = Ok ()"
  obtains dir i where "a_dirs a p = Some dir" "n \<notin> dots" "dir n = Some i"
    "fst (drop_name p n a) = a\<lparr>a_dirs := (a_dirs a)(p \<mapsto> dir(n := None))\<rparr>"
  using assms by (auto simp: drop_name_def fail_def split: option.splits if_splits)

lemma in_names: "(p, n) \<in> names a i \<longleftrightarrow> n \<notin> dots \<and> (\<exists>dir. a_dirs a p = Some dir \<and> dir n = Some i)"
  by (simp add: names_def resolve_def split: option.split)

lemma add_name_names:
  assumes "snd (add_name p n i a) = Ok ()"
  shows "names (fst (add_name p n i a)) j = (if j = i then insert (p, n) (names a i) else names a j)"
    "(p, n) \<notin> names a j" "n \<notin> dots"
proof -
  from assms obtain dir where dir: "a_dirs a p = Some dir" "n \<notin> dots" "dir n = None"
    "fst (add_name p n i a) = a\<lparr>a_dirs := (a_dirs a)(p \<mapsto> dir(n \<mapsto> i))\<rparr>" by (rule add_nameE)
  show "(p, n) \<notin> names a j" "n \<notin> dots" using dir by (simp_all add: in_names)
  have "(q, k) \<in> names (fst (add_name p n i a)) j \<longleftrightarrow> (q, k) \<in> (if j = i then insert (p, n) (names a i) else names a j)" for q k
    using dir by (simp add: in_names)
  then show "names (fst (add_name p n i a)) j = (if j = i then insert (p, n) (names a i) else names a j)" by auto
qed

lemma drop_name_names:
  assumes "snd (drop_name p n a) = Ok ()"
  shows "names (fst (drop_name p n a)) j = names a j - {(p, n)}" "n \<notin> dots" "\<exists>i. resolve p n a = Ok i"
proof -
  from assms obtain dir i where dir: "a_dirs a p = Some dir" "n \<notin> dots" "dir n = Some i"
    "fst (drop_name p n a) = a\<lparr>a_dirs := (a_dirs a)(p \<mapsto> dir(n := None))\<rparr>" by (rule drop_nameE)
  show "n \<notin> dots" "\<exists>i. resolve p n a = Ok i" using dir by (simp_all add: resolve_def)
  have "(q, k) \<in> names (fst (drop_name p n a)) j \<longleftrightarrow> (q, k) \<in> names a j - {(p, n)}" for q k
    using dir by (auto simp: in_names)
  then show "names (fst (drop_name p n a)) j = names a j - {(p, n)}" by auto
qed

lemma name_steps_frame:
  "a_next (fst (add_name p n i a)) = a_next a" "a_next (fst (drop_name p n a)) = a_next a"
  "a_dirs (fst (add_name p n i a)) q = None \<longleftrightarrow> a_dirs a q = None"
  "a_dirs (fst (drop_name p n a)) q = None \<longleftrightarrow> a_dirs a q = None"
  by (auto simp: add_name_def drop_name_def fail_def split: option.splits if_splits)

lemma name_steps_error:
  "snd (add_name p n i a) = Err e \<Longrightarrow> fst (add_name p n i a) = a"
  "snd (drop_name p n a) = Err e \<Longrightarrow> fst (drop_name p n a) = a"
  by (auto simp: add_name_def drop_name_def fail_def split: option.splits if_splits)

lemma names_resolve: "n \<notin> dots \<Longrightarrow> resolve p n a = Ok i \<longleftrightarrow> (p, n) \<in> names a i"
  by (simp add: names_def)

lemma names_unique: "x \<in> names a i \<Longrightarrow> x \<in> names a j \<Longrightarrow> i = j"
  by (auto simp: names_def)

lemma links_okD:
  assumes "links_ok a"
  shows "a_inodes a i = None \<Longrightarrow> names a i = {}" "a_inodes a i = Some m \<Longrightarrow> count_ok m (names a i)"
    "a_inodes a i = Some m \<Longrightarrow> i < a_next a" "a_dirs a p \<noteq> None \<Longrightarrow> p < a_next a"
    "a_dirs a p \<noteq> None \<Longrightarrow> a_inodes a p = Some m \<Longrightarrow> is_dir_mode (mode m)"
    "a_inodes a i = Some m \<Longrightarrow> ino m = i"
  using assms unfolding links_ok_def by auto

lemma file_count: "links_ok a \<Longrightarrow> a_inodes a i = Some m \<Longrightarrow> is_dir_mode (mode m) \<or> unat (nlinks m) = card (names a i)"
  using links_okD(2) [of a i m] by (auto simp: count_ok_def split: if_splits)

text \<open>The invariant from the names, the inodes, the directories and the next number of another state.\<close>

lemma links_okI:
  assumes ok: "links_ok a" and N: "\<And>j. names a' j = N j"
    and none: "\<And>j. a_inodes a' j = None \<Longrightarrow> N j = {}"
    and some: "\<And>j m. a_inodes a' j = Some m \<Longrightarrow> count_ok m (N j) \<and> j < a_next a' \<and> ino m = j"
    and dirs: "\<And>q. a_dirs a' q \<noteq> None \<Longrightarrow> a_dirs a q \<noteq> None" and "next": "a_next a \<le> a_next a'"
    and modes: "\<And>q m. a_dirs a q \<noteq> None \<Longrightarrow> a_inodes a' q = Some m \<Longrightarrow> is_dir_mode (mode m)"
  shows "links_ok a'"
proof -
  have "q < a_next a'" if "a_dirs a' q = Some dir" for q dir
    using links_okD(4) [OF ok dirs, of q] that "next" by auto
  moreover have "is_dir_mode (mode m)" if "a_dirs a' q = Some dir" "a_inodes a' q = Some m" for q dir m
    using modes [OF dirs that(2)] that(1) by simp
  ultimately show ?thesis unfolding links_ok_def N using none some by blast
qed

subsection \<open>The operations keep the invariant\<close>

lemma next_less: "i \<noteq> u64_max \<Longrightarrow> i < i + (1 :: u64)"
  using unat_succ_u64 [of i] by (simp add: word_less_nat_alt word_unat_eq_iff)

lemma links_fresh:
  assumes "links_ok a"
  shows "a_inodes a (a_next a) = None" "names a (a_next a) = {}" "a_dirs a (a_next a) = None"
  using links_okD [OF assms] by (metis less_irrefl option.exhaust)+

lemma inode_less: "links_ok a \<Longrightarrow> a_next a \<noteq> u64_max \<Longrightarrow> a_inodes a i = Some m \<Longrightarrow> i < a_next a + 1"
  using links_okD(3) next_less by (blast intro: less_trans)

lemma links_next:
  assumes ok: "links_ok a" and "a_next a \<noteq> u64_max"
  shows "links_ok (a\<lparr>a_next := a_next a + 1\<rparr>)"
  using next_less [OF assms(2)] links_okD [OF ok] inode_less [OF assms]
  by (intro links_okI [OF ok, where N = "names a"]) auto

lemma links_create:
  assumes ok: "links_ok a" and "next": "a_next a \<noteq> u64_max" and m: "nlinks m = 1" "\<not> is_dir_mode (mode m)"
  shows "links_ok (fst (spec_create p n m a))"
proof (cases "snd (add_name p n (a_next a) (a\<lparr>a_next := a_next a + 1\<rparr>))")
  case (Inl e)
  then show ?thesis using links_next [OF ok "next"] name_steps_error(1) [OF Inl] by (simp add: spec_create_def)
next
  case (Inr x)
  let ?i = "a_next a" and ?m = "m\<lparr>ino := a_next a\<rparr>" and ?a1 = "a\<lparr>a_next := a_next a + 1\<rparr>"
  let ?a2 = "fst (add_name p n ?i ?a1)"
  have add: "snd (add_name p n ?i ?a1) = Ok ()" using Inr by simp
  have ok1: "links_ok ?a1" by (rule links_next [OF ok "next"])
  have N: "names (put_inode ?m ?a2) j = (if j = ?i then {(p, n)} else names a j)" for j
    using add_name_names(1) [OF add] links_fresh(2) [OF ok] by simp
  have inodes: "a_inodes (put_inode ?m ?a2) = (a_inodes a)(?i \<mapsto> ?m)" by (simp add: put_inode_def)
  have "links_ok (put_inode ?m ?a2)"
  proof (rule links_okI [OF ok1 N])
    show "(if j = ?i then {(p, n)} else names a j) = {}" if "a_inodes (put_inode ?m ?a2) j = None" for j
      using that links_okD(1) [OF ok] by (simp add: inodes split: if_splits)
    show "count_ok m' (if j = ?i then {(p, n)} else names a j) \<and> j < a_next (put_inode ?m ?a2) \<and> ino m' = j"
      if "a_inodes (put_inode ?m ?a2) j = Some m'" for j m'
    proof (cases "j = ?i")
      case True
      then show ?thesis using that next_less [OF "next"] m by (auto simp: inodes name_steps_frame count_ok_def)
    next
      case False
      then have "a_inodes a j = Some m'" using that by (simp add: inodes)
      then show ?thesis using links_okD(2,6) [OF ok] inode_less [OF ok "next"] False
        by (simp add: name_steps_frame)
    qed
    show "is_dir_mode (mode m')" if "a_dirs ?a1 q \<noteq> None" "a_inodes (put_inode ?m ?a2) q = Some m'" for q m'
      using that links_okD(5) [OF ok] links_fresh(3) [OF ok] by (auto simp: inodes split: if_splits)
  qed (simp_all add: name_steps_frame)
  then show ?thesis using Inr by (simp add: spec_create_def Let_def)
qed

text \<open>A state with the same directories and numbers, some of whose names were taken away.\<close>

definition less_names :: "meta_state \<Rightarrow> (u64 \<times> rstring) set \<Rightarrow> meta_state \<Rightarrow> bool" where
  "less_names a X a' \<longleftrightarrow> (\<forall>j. names a' j = names a j - X) \<and> a_next a' = a_next a \<and> (\<forall>q. a_dirs a' q = None \<longleftrightarrow> a_dirs a q = None)"

lemma drop_less_names:
  "snd (drop_name p n a) = Ok () \<Longrightarrow> less_names a {(p, n)} (fst (drop_name p n a))"
  by (simp add: less_names_def drop_name_names name_steps_frame)

lemma links_less:
  assumes ok: "links_ok a" and less: "less_names a X a'"
    and none: "\<And>j. a_inodes a' j = None \<Longrightarrow> a_inodes a j \<noteq> None \<Longrightarrow> names a j \<subseteq> X"
    and some: "\<And>j m. a_inodes a' j = Some m \<Longrightarrow> \<exists>m0. a_inodes a j = Some m0 \<and> is_dir_mode (mode m) = is_dir_mode (mode m0) \<and>
      ino m = j \<and> (is_dir_mode (mode m) \<or> unat (nlinks m) = card (names a j - X))"
  shows "links_ok a'"
proof (rule links_okI [OF ok, where N = "\<lambda>j. names a j - X"])
  show "names a' j = names a j - X" for j using less by (simp add: less_names_def)
  show "names a j - X = {}" if "a_inodes a' j = None" for j
    using links_okD(1) [OF ok, of j] none [OF that] by (cases "a_inodes a j") auto
  show "count_ok m (names a j - X) \<and> j < a_next a' \<and> ino m = j" if j: "a_inodes a' j = Some m" for j m
  proof -
    obtain m0 where m0: "a_inodes a j = Some m0" "is_dir_mode (mode m) = is_dir_mode (mode m0)" "ino m = j"
        "is_dir_mode (mode m) \<or> unat (nlinks m) = card (names a j - X)" using some [OF j] by blast
    note c = links_okD(2) [OF ok m0(1)]
    have "finite (names a j)" using c by (simp add: count_ok_def)
    then have "card (names a j - X) \<le> card (names a j)" by (intro card_mono) auto
    then show ?thesis using c m0 less links_okD(3) [OF ok m0(1)] by (auto simp: count_ok_def less_names_def)
  qed
  show "is_dir_mode (mode m)" if "a_dirs a q \<noteq> None" "a_inodes a' q = Some m" for q m
    using some [OF that(2)] links_okD(5) [OF ok that(1)] by blast
qed (use less in \<open>simp_all add: less_names_def del: not_None_eq\<close>)

lemma links_drop_link:
  assumes ok: "links_ok a" and i: "(p, n) \<in> names a i" "a_inodes a i = Some m" "\<not> is_dir_mode (mode m)"
    and less: "less_names a {(p, n)} a1" "a_inodes a1 = a_inodes a"
  shows "links_ok (if nlinks m \<le> 1 then forget i a1 else put_inode (m\<lparr>nlinks := nlinks m - 1\<rparr>) a1)" (is "links_ok ?a")
proof -
  have c: "finite (names a i)" "card (names a i) = unat (nlinks m)" using links_okD(2) [OF ok i(2)] i(3) by (auto simp: count_ok_def)
  have card: "card (names a i - {(p, n)}) = unat (nlinks m) - 1" using c i(1) by simp
  have other: "names a j - {(p, n)} = names a j" if "j \<noteq> i" for j using names_unique [OF i(1)] that by auto
  have l: "less_names a {(p, n)} ?a" using less(1) by (simp add: less_names_def)
  show ?thesis
  proof (rule links_less [OF ok l])
    fix j assume "a_inodes ?a j = None" "a_inodes a j \<noteq> None"
    then have "j = i" "nlinks m \<le> 1" by (auto simp: less(2) split: if_splits)
    then have "names a i - {(p, n)} = {}" using card(1) c(1) by (simp add: word_le_nat_alt)
    then show "names a j \<subseteq> {(p, n)}" using \<open>j = i\<close> by auto
  next
    fix j m' assume j: "a_inodes ?a j = Some m'"
    show "\<exists>m0. a_inodes a j = Some m0 \<and> is_dir_mode (mode m') = is_dir_mode (mode m0) \<and> ino m' = j \<and>
        (is_dir_mode (mode m') \<or> unat (nlinks m') = card (names a j - {(p, n)}))"
    proof (cases "j = i")
      case True
      then have "\<not> nlinks m \<le> 1" "m' = m\<lparr>nlinks := nlinks m - 1\<rparr>"
        using j links_okD(6) [OF ok i(2)] by (auto split: if_splits)
      then show ?thesis using True i(2) card links_okD(6) [OF ok i(2)] by (simp add: link_count unat_minus_one)
    next
      case False
      then have "a_inodes a j = Some m'"
        using j links_okD(6) [OF ok i(2)] by (auto simp: less(2) split: if_splits)
      then show ?thesis using links_okD(6) [OF ok, of j m'] file_count [OF ok, of j m'] other [OF False] by simp
    qed
  qed
qed

lemma links_unlink:
  assumes ok: "links_ok a"
  shows "links_ok (fst (spec_unlink p n a))"
proof (cases "resolve p n a")
  case (Inl e)
  then show ?thesis using ok by (simp add: spec_unlink_def fail_def)
next
  case (Inr i)
  show ?thesis
  proof (cases "a_inodes a i")
    case None
    then show ?thesis using ok Inr by (simp add: spec_unlink_def fail_def)
  next
    case (Some m)
    show ?thesis
    proof (cases "is_dir_mode (mode m) \<or> snd (drop_name p n a) \<noteq> Ok ()")
      case True
      then show ?thesis using ok Inr Some name_steps_error(2) [of p n a]
        by (auto simp: spec_unlink_def fail_def and_then_def split_def split: sum.splits)
    next
      case False
      then have "(p, n) \<in> names a i" using drop_name_names(2) [of p n a] Inr by (simp add: names_def)
      moreover have "less_names a {(p, n)} (fst (drop_name p n a))" using False drop_less_names by simp
      ultimately have "links_ok (if nlinks m \<le> 1 then forget i (fst (drop_name p n a))
          else put_inode (m\<lparr>nlinks := nlinks m - 1\<rparr>) (fst (drop_name p n a)))"
        using links_drop_link [OF ok _ Some] False by simp
      then show ?thesis using False Inr Some by (simp add: spec_unlink_def and_then_def split_def)
    qed
  qed
qed

text \<open>Only the link count of a directory, or times, change.\<close>

lemma links_put:
  assumes ok: "links_ok a" and m: "a_inodes a i = Some m" and m': "ino m' = i" "is_dir_mode (mode m') = is_dir_mode (mode m)"
    "is_dir_mode (mode m) \<or> nlinks m' = nlinks m"
  shows "links_ok (put_inode m' a)"
proof (rule links_less [OF ok, where X = "{}"])
  show "less_names a {} (put_inode m' a)" by (simp add: less_names_def)
  show "\<exists>m0. a_inodes a j = Some m0 \<and> is_dir_mode (mode x) = is_dir_mode (mode m0) \<and> ino x = j \<and>
      (is_dir_mode (mode x) \<or> unat (nlinks x) = card (names a j - {}))" if "a_inodes (put_inode m' a) j = Some x" for j x
  proof (cases "j = i")
    case True
    then show ?thesis using that m m' file_count [OF ok m] by auto
  next
    case False
    then have "a_inodes a j = Some x" using that m'(1) by simp
    then show ?thesis using links_okD(6) [OF ok, of j x] file_count [OF ok, of j x] by simp
  qed
qed (use m m' in \<open>auto split: if_splits\<close>)

lemma links_remove_dir:
  assumes ok: "links_ok a" and i: "(p, n) \<in> names a i" "a_inodes a i = Some m" "is_dir_mode (mode m)"
    and less: "less_names a {(p, n)} a1" "a_inodes a1 = a_inodes a"
  shows "links_ok (a1\<lparr>a_inodes := (a_inodes a)(i := None)\<rparr>)"
proof (rule links_less [OF ok])
  have "finite (names a i)" "card (names a i) \<le> 1" using links_okD(2) [OF ok i(2)] i(3) by (auto simp: count_ok_def)
  then have one: "names a i = {(p, n)}" using i(1) card_le_Suc0_iff_eq [of "names a i"] by auto
  show "less_names a {(p, n)} (a1\<lparr>a_inodes := (a_inodes a)(i := None)\<rparr>)" using less(1) by (simp add: less_names_def)
  show "names a j \<subseteq> {(p, n)}" if "a_inodes (a1\<lparr>a_inodes := (a_inodes a)(i := None)\<rparr>) j = None" "a_inodes a j \<noteq> None" for j
    using that one by (auto split: if_splits)
  have other: "names a j - {(p, n)} = names a j" if "j \<noteq> i" for j using names_unique [OF i(1)] that by auto
  show "\<exists>m0. a_inodes a j = Some m0 \<and> is_dir_mode (mode x) = is_dir_mode (mode m0) \<and> ino x = j \<and>
      (is_dir_mode (mode x) \<or> unat (nlinks x) = card (names a j - {(p, n)}))"
    if "a_inodes (a1\<lparr>a_inodes := (a_inodes a)(i := None)\<rparr>) j = Some x" for j x
    using that links_okD(6) [OF ok, of j x] file_count [OF ok, of j x] other [of j] by (auto split: if_splits)
qed

lemma rmdir_cases:
  obtains "fst (spec_rmdir p n a) = a"
  | i m dir where "resolve p n a = Ok i" "a_inodes a i = Some m" "is_dir_mode (mode m)" "a_dirs a i = Some dir"
      "dom dir \<subseteq> dots" "snd (drop_name p n a) = Ok ()"
proof (cases "resolve p n a")
  case (Inl e)
  then show thesis using that(1) by (simp add: spec_rmdir_def fail_def)
next
  case i: (Inr i)
  show thesis
  proof (cases "a_inodes a i")
    case None
    then show thesis using that(1) i by (simp add: spec_rmdir_def fail_def)
  next
    case m: (Some m)
    consider "\<not> is_dir_mode (mode m)" | "is_dir_mode (mode m)" "a_dirs a i = None"
      | dir where "is_dir_mode (mode m)" "a_dirs a i = Some dir" by fastforce
    then show thesis
    proof cases
      case 3
      then show thesis using that i m name_steps_error(2) [of p n a]
        by (cases "dom dir \<subseteq> dots"; cases "snd (drop_name p n a)")
          (simp_all add: spec_rmdir_def fail_def and_then_def split_def)
    qed (use that(1) i m in \<open>simp_all add: spec_rmdir_def fail_def\<close>)
  qed
qed

lemma links_rmdir:
  assumes ok: "links_ok a"
  shows "links_ok (fst (spec_rmdir p n a))"
proof (cases rule: rmdir_cases [of p n a])
  case 1
  then show ?thesis using ok by simp
next
  case i: (2 i m dir)
  define a2 where "a2 = (fst (drop_name p n a))\<lparr>a_inodes := (a_inodes a)(i := None)\<rparr>"
  have "(p, n) \<in> names a i" using drop_name_names(2) [OF i(6)] i(1) by (simp add: names_def)
  then have ok2: "links_ok a2" unfolding a2_def by (rule links_remove_dir [OF ok _ i(2,3) drop_less_names [OF i(6)]]) simp
  have "a_dirs a p \<noteq> None" using i(1) by (auto simp: resolve_def split: option.splits)
  then have p: "a_dirs a2 p \<noteq> None" using name_steps_frame(4) [of p n a p] by (simp add: a2_def)
  have run: "fst (spec_rmdir p n a) = (case a_inodes a2 p of None \<Rightarrow> a2
      | Some pm \<Rightarrow> if nlinks pm > 0 then put_inode (pm\<lparr>nlinks := nlinks pm - 1\<rparr>) a2 else a2)"
    using i by (simp add: spec_rmdir_def and_then_def split_def fail_def Let_def a2_def split: option.split)
  show ?thesis
  proof (cases "a_inodes a2 p")
    case (Some pm)
    then have "links_ok (put_inode (pm\<lparr>nlinks := nlinks pm - 1\<rparr>) a2)"
      using links_okD(5) [OF ok2 p Some] links_okD(6) [OF ok2 Some] by (intro links_put [OF ok2 Some]) simp_all
    then show ?thesis using ok2 by (simp add: run Some)
  qed (use ok2 in \<open>simp add: run\<close>)
qed

text \<open>A name added to an inode that has the room for it in its count.\<close>

lemma links_link:
  assumes ok: "links_ok a" and room: "\<And>m. a_inodes a i = Some m \<Longrightarrow> nlinks m \<noteq> - 1"
  shows "links_ok (fst (spec_link now i p n a))"
proof (cases "a_inodes a i")
  case None
  then show ?thesis using ok by (simp add: spec_link_def fail_def)
next
  case (Some m)
  show ?thesis
  proof (cases "is_dir_mode (mode m) \<or> snd (add_name p n i a) \<noteq> Ok ()")
    case True
    then show ?thesis using ok Some name_steps_error(1) [of p n i a]
      by (cases "snd (add_name p n i a)") (auto simp: spec_link_def fail_def and_then_def split_def)
  next
    case False
    then have add: "snd (add_name p n i a) = Ok ()" and reg: "\<not> is_dir_mode (mode m)" by auto
    let ?m = "touch_ctime now (m\<lparr>nlinks := nlinks m + 1\<rparr>)" and ?a1 = "fst (add_name p n i a)"
    have i: "ino ?m = i" "mode ?m = mode m" "nlinks ?m = nlinks m + 1"
      using links_okD(6) [OF ok Some] by (simp_all add: touch_ctime_def)
    have c: "finite (names a i)" "card (names a i) = unat (nlinks m)"
      using links_okD(2) [OF ok Some] reg by (simp_all add: count_ok_def)
    have succ: "unat (nlinks m + 1) = Suc (unat (nlinks m))"
      using room [OF Some] unatSuc [of "nlinks m"] by (auto simp: add.commute add_eq_0_iff)
    have "links_ok (put_inode ?m ?a1)"
    proof (rule links_okI [OF ok, where N = "\<lambda>j. if j = i then insert (p, n) (names a i) else names a j"])
      show "names (put_inode ?m ?a1) j = (if j = i then insert (p, n) (names a i) else names a j)" for j
        using add_name_names(1) [OF add] by simp
      show "count_ok x (if j = i then insert (p, n) (names a i) else names a j) \<and> j < a_next (put_inode ?m ?a1) \<and> ino x = j"
        if "a_inodes (put_inode ?m ?a1) j = Some x" for j x
        using that i c succ reg add_name_names(2) [OF add, of i] links_okD(2,3,6) [OF ok, of j x] links_okD(3) [OF ok Some]
        by (auto simp: count_ok_def name_steps_frame split: if_splits)
      show "(if j = i then insert (p, n) (names a i) else names a j) = {}" if "a_inodes (put_inode ?m ?a1) j = None" for j
        using that i links_okD(1) [OF ok, of j] by (auto split: if_splits)
      show "is_dir_mode (mode x)" if "a_dirs a q \<noteq> None" "a_inodes (put_inode ?m ?a1) q = Some x" for q x
        using that i links_okD(5) [OF ok that(1)] Some by (auto split: if_splits)
    qed (simp_all add: name_steps_frame)
    then show ?thesis using add reg Some by (simp add: spec_link_def and_then_def split_def)
  qed
qed

lemma links_displaced:
  assumes ok: "links_ok a" and j: "resolve p n a = Ok j" "a_inodes a j = Some m" and drop: "snd (drop_name p n a) = Ok ()"
  shows "links_ok (displaced j m (fst (drop_name p n a)))"
    "names (displaced j m (fst (drop_name p n a))) k = names a k - {(p, n)}"
proof -
  let ?a1 = "fst (drop_name p n a)"
  have in_j: "(p, n) \<in> names a j" using drop_name_names(2) [OF drop] j(1) by (simp add: names_def)
  have ok1: "links_ok ?a1" if dir: "is_dir_mode (mode m)"
  proof (rule links_less [OF ok drop_less_names [OF drop]])
    have other: "names a i - {(p, n)} = names a i" if "i \<noteq> j" for i using names_unique [OF in_j] that by auto
    show "\<exists>m0. a_inodes a i = Some m0 \<and> is_dir_mode (mode x) = is_dir_mode (mode m0) \<and> ino x = i \<and>
        (is_dir_mode (mode x) \<or> unat (nlinks x) = card (names a i - {(p, n)}))" if "a_inodes ?a1 i = Some x" for i x
      using that links_okD(6) [OF ok, of i x] file_count [OF ok, of i x] other [of i] j(2) dir by (cases "i = j") auto
  qed simp
  show "links_ok (displaced j m ?a1)"
  proof (cases "is_dir_mode (mode m)")
    case True
    have m: "a_inodes ?a1 j = Some m" using j(2) by simp
    have "links_ok (put_inode (m\<lparr>nlinks := nlinks m - 1\<rparr>) ?a1)"
      using links_okD(6) [OF ok j(2)] True by (intro links_put [OF ok1 [OF True] m]) simp_all
    then show ?thesis using True ok1 by (simp add: displaced_def)
  next
    case False
    then show ?thesis using links_drop_link [OF ok in_j j(2) False drop_less_names [OF drop]]
      by (auto simp: displaced_def link_count split: if_splits)
  qed
  show "names (displaced j m ?a1) k = names a k - {(p, n)}"
    using drop_name_names(1) [OF drop] by (simp add: displaced_def)
qed

text \<open>The name \<open>(p, n)\<close> of \<open>i\<close> becomes \<open>(p', n')\<close>.\<close>

lemma links_touch: "links_ok a \<Longrightarrow> links_ok (fst (spec_touch now i a))"
proof (cases "a_inodes a i")
  case (Some m)
  assume "links_ok a"
  then show ?thesis using Some links_okD(6) [of a i m] links_put [of a i m "touch_ctime now m"]
    by (simp add: spec_touch_def touch_ctime_def)
qed (simp add: spec_touch_def fail_def)

lemma moved_names:
  assumes "N' = N \<or> (x \<in> N \<and> N' = insert y (N - {x}))" "y \<notin> N"
  shows "N' = {} \<longleftrightarrow> N = {}" "count_ok m N' = count_ok m N"
proof -
  have "finite N \<Longrightarrow> x \<in> N \<Longrightarrow> card (insert y (N - {x})) = card N"
    using assms(2) card_Suc_Diff1 [of N x] by simp
  then have "finite N' = finite N \<and> (finite N \<longrightarrow> card N' = card N)" using assms(1) by (elim disjE conjE) simp_all
  then show "count_ok m N' = count_ok m N" by (auto simp: count_ok_def)
  show "N' = {} \<longleftrightarrow> N = {}" using assms(1) by blast
qed

lemma links_move:
  assumes ok: "links_ok a" and pn: "n \<notin> dots" "(p, n) = (p', n') \<or> (p, n) \<in> names a i"
  shows "links_ok (fst (and_then (add_name p' n' i) (\<lambda>_. and_then (drop_name p n) (\<lambda>_. spec_touch now i)) a))"
proof (cases "snd (add_name p' n' i a)")
  case (Inl e)
  then show ?thesis using ok name_steps_error(1) [OF Inl] by (simp add: and_then_def split_def)
next
  case (Inr x)
  then have add: "snd (add_name p' n' i a) = Ok ()" by simp
  let ?a1 = "fst (add_name p' n' i a)"
  have n1: "names ?a1 j = (if j = i then insert (p', n') (names a i) else names a j)" for j by (rule add_name_names(1) [OF add])
  have "(p, n) \<in> names ?a1 i" using pn by (auto simp: n1)
  then have drop: "snd (drop_name p n ?a1) = Ok ()" by (auto simp: in_names drop_name_def)
  let ?a2 = "fst (drop_name p n ?a1)"
  have frame: "a_inodes ?a2 = a_inodes a" "a_next ?a2 = a_next a" "a_dirs ?a2 q = None \<longleftrightarrow> a_dirs a q = None" for q
    by (simp_all add: name_steps_frame)
  have new: "(p', n') \<notin> names a j" for j by (rule add_name_names(2) [OF add])
  have n2: "names ?a2 j = (if j = i then insert (p', n') (names a i) else names a j) - {(p, n)}" for j
    using drop_name_names(1) [OF drop, of j] unfolding n1 .
  have other: "names ?a2 j = names a j" if "j \<noteq> i" for j
  proof -
    have "(p, n) \<notin> names a j" using pn(2) new [of j] names_unique [of "(p, n)" a i j] that by metis
    then show ?thesis using that by (simp add: n2)
  qed
  have moved: "names ?a2 i = names a i \<or> ((p, n) \<in> names a i \<and> names ?a2 i = insert (p', n') (names a i - {(p, n)}))"
    unfolding n2 using pn(2) new [of i] by (cases "(p, n) = (p', n')") auto
  have same: "names ?a2 i = {} \<longleftrightarrow> names a i = {}" "count_ok m (names ?a2 i) = count_ok m (names a i)" for m
    using moved_names [OF moved new] by simp_all
  have "links_ok ?a2"
  proof (rule links_okI [OF ok refl])
    show "names ?a2 j = {}" if "a_inodes ?a2 j = None" for j
      using that links_okD(1) [OF ok, of j] same(1) other [of j] by (cases "j = i") (simp_all add: frame)
    show "count_ok m (names ?a2 j) \<and> j < a_next ?a2 \<and> ino m = j" if "a_inodes ?a2 j = Some m" for j m
      using that links_okD(2,3,6) [OF ok, of j m] same(2) other [of j] by (cases "j = i") (simp_all add: frame)
    show "is_dir_mode (mode m)" if "a_dirs a q \<noteq> None" "a_inodes ?a2 q = Some m" for q m
      using links_okD(5) [OF ok that(1), of m] that(2) by (simp add: frame)
  qed (simp_all add: frame del: not_None_eq)
  then show ?thesis using add drop links_touch by (simp add: and_then_def split_def)
qed

lemma links_rename:
  assumes ok: "links_ok a" and n: "n \<notin> dots"
  shows "links_ok (fst (spec_rename now p n p' n' flags a))"
proof (cases "flags AND 2 \<noteq> 0 \<or> isl (resolve p n a) \<or> (flags AND 1 \<noteq> 0 \<and> \<not> isl (resolve p' n' a))")
  case True
  then show ?thesis using ok by (cases "resolve p n a") (simp_all add: spec_rename_def fail_def Let_def)
next
  case False
  then obtain i where i: "resolve p n a = Ok i" by (cases "resolve p n a") auto
  have in_i: "(p, n) \<in> names a i" using i n by (simp add: names_def)
  have run: "spec_rename now p n p' n' flags a =
      and_then (case resolve p' n' a of Err _ \<Rightarrow> ret () | Ok j \<Rightarrow> spec_displace p' n' j)
        (\<lambda>_. and_then (add_name p' n' i) (\<lambda>_. and_then (drop_name p n) (\<lambda>_. spec_touch now i))) a"
  proof -
    have f: "\<not> flags AND 2 \<noteq> 0" "\<not> (flags AND 1 \<noteq> 0 \<and> \<not> isl (resolve p' n' a))" using False by blast+
    show ?thesis unfolding spec_rename_def Let_def i if_not_P [OF f(1)] if_not_P [OF f(2)] by simp
  qed
  show ?thesis
  proof (cases "resolve p' n' a")
    case (Inl e)
    then show ?thesis using links_move [OF ok n, of p p' n' i] in_i by (simp add: run and_then_def [of "ret ()"] ret_def)
  next
    case (Inr j)
    show ?thesis
    proof (cases "\<exists>m. a_inodes a j = Some m \<and> snd (drop_name p' n' a) = Ok ()")
      case False
      then have "fst (spec_displace p' n' j a) = a \<and> isl (snd (spec_displace p' n' j a))"
        using name_steps_error(2) [of p' n' a]
        by (cases "a_inodes a j"; cases "snd (drop_name p' n' a)") (auto simp: spec_displace_def fail_def and_then_def split_def)
      then show ?thesis using ok Inr by (auto simp: run and_then_def [of "spec_displace p' n' j"] split_def split: sum.splits)
    next
      case True
      then obtain m where m: "a_inodes a j = Some m" "snd (drop_name p' n' a) = Ok ()" by blast
      let ?a1 = "displaced j m (fst (drop_name p' n' a))"
      note d = links_displaced [OF ok Inr m]
      have "(p, n) = (p', n') \<or> (p, n) \<in> names ?a1 i" using in_i d(2) [of i] by auto
      from links_move [OF d(1) n this] show ?thesis
        using m Inr by (simp add: run and_then_def [of "spec_displace p' n' j"] spec_displace_def and_then_def [of "drop_name p' n'"] split_def)
    qed
  qed
qed


lemma or_absorb: "(x OR y) AND y = (y :: u32)"
  by (rule bit_word_eqI) (auto simp: bit_simps)

lemma mkdir_mode: "is_dir_mode (if is_dir_mode x then x else x OR S_IFDIR)"
  by (simp add: is_dir_mode_def or_absorb) (simp add: S_IFDIR_def)

lemma mkdir_cases:
  assumes a': "a' = fst (spec_create_directory p n m a :: meta_state \<times> (meta_error + (rstring \<rightharpoonup> u64) resp))"
  obtains "a' = a" | "a' = a\<lparr>a_next := a_next a + 1\<rparr>"
  | pm dir where "a_inodes a p = Some pm" "is_dir_mode (mode pm)" "a_dirs a p = Some dir" "n \<notin> dots" "dir n = None"
      "a' = a\<lparr>a_next := a_next a + 1, a_inodes := (a_inodes a)
          (a_next a \<mapsto> m\<lparr>ino := a_next a, mode := if is_dir_mode (mode m) then mode m else mode m OR S_IFDIR\<rparr>, p \<mapsto> pm\<lparr>nlinks := nlinks pm + 1\<rparr>),
         a_dirs := (a_dirs a)(a_next a \<mapsto> [str ''.'' \<mapsto> a_next a, str ''..'' \<mapsto> p], p \<mapsto> dir(n \<mapsto> a_next a))\<rparr>"
proof (cases "a_inodes a p")
  case None
  then show thesis using that(1) by (simp add: a' spec_create_directory_def)
next
  case pm: (Some pm)
  show thesis
  proof (cases "is_dir_mode (mode pm)")
    case False
    then show thesis using that(1) pm by (simp add: a' spec_create_directory_def)
  next
    case mode: True
    show thesis
    proof (cases "a_dirs a p")
      case None
      then show thesis using that(1) pm mode by (simp add: a' spec_create_directory_def)
    next
      case dir: (Some dir)
      consider "n \<in> dots" | "n \<notin> dots" "dir n \<noteq> None" | "n \<notin> dots" "dir n = None" by blast
      then show thesis
      proof cases
        case 3
        then show thesis
          by (intro that(3) [OF pm mode dir 3]) (simp add: a' spec_create_directory_def pm mode dir Let_def)
      qed (use that(2) pm mode dir in \<open>simp_all add: a' spec_create_directory_def Let_def\<close>)
    qed
  qed
qed

lemma links_mkdir:
  assumes ok: "links_ok a" and "next": "a_next a \<noteq> u64_max"
  shows "links_ok (fst (spec_mkdir p n m a))"
proof -
  let ?i = "a_next a" and ?m = "m\<lparr>ino := a_next a, mode := if is_dir_mode (mode m) then mode m else mode m OR S_IFDIR\<rparr>"
  define a' where "a' = fst (spec_create_directory p n m a :: meta_state \<times> (meta_error + (rstring \<rightharpoonup> u64) resp))"
  have run: "fst (spec_mkdir p n m a) = a'" by (simp add: spec_mkdir_def a_op_def a'_def)
  consider "a' = a" | "a' = a\<lparr>a_next := ?i + 1\<rparr>"
    | pm dir m' where "a_inodes a p = Some pm" "is_dir_mode (mode pm)" "a_dirs a p = Some dir" "n \<notin> dots" "dir n = None"
        "is_dir_mode (mode m')" "ino m' = ?i"
        "a' = a\<lparr>a_next := ?i + 1, a_inodes := (a_inodes a)(?i \<mapsto> m', p \<mapsto> pm\<lparr>nlinks := nlinks pm + 1\<rparr>),
           a_dirs := (a_dirs a)(?i \<mapsto> [str ''.'' \<mapsto> ?i, str ''..'' \<mapsto> p], p \<mapsto> dir(n \<mapsto> ?i))\<rparr>"
  proof (cases rule: mkdir_cases [OF a'_def])
    case 1
    then show thesis by (rule that(1))
  next
    case 2
    then show thesis by (rule that(2))
  next
    case (3 pm dir)
    then show thesis using mkdir_mode [of "mode m"] by (intro that(3) [of pm dir ?m]) simp_all
  qed
  then show ?thesis
  proof cases
    case 1
    then show ?thesis using ok run by simp
  next
    case 2
    then show ?thesis using links_next [OF ok "next"] run by simp
  next
    case 3
    have p: "p < ?i" "p \<noteq> ?i" using links_okD(3) [OF ok 3(1)] by auto
    have dots: "str ''.'' \<in> dots" "str ''..'' \<in> dots" by (simp_all add: dots_def)
    have fresh: "d k \<noteq> Some ?i" if "a_dirs a q = Some d" "k \<notin> dots" for q d k
      using links_fresh(2) [OF ok] in_names [of q k a ?i] that by auto
    have "(q, k) \<in> names a' j \<longleftrightarrow> (q, k) \<in> (if j = ?i then {(p, n)} else names a j)" for q k j
      using 3(3-5) p links_fresh(3) [OF ok] dots fresh by (auto simp: in_names 3(8))
    then have N: "names a' j = (if j = ?i then {(p, n)} else names a j)" for j by auto
    have inodes: "a_inodes a' = (a_inodes a)(?i \<mapsto> m', p \<mapsto> pm\<lparr>nlinks := nlinks pm + 1\<rparr>)" "a_next a' = ?i + 1"
      by (simp_all add: 3(8))
    note less = next_less [OF "next"]
    have "names a' j = {}" if "a_inodes a' j = None" for j
      using that links_okD(1) [OF ok, of j] by (auto simp: N inodes split: if_splits)
    moreover have "count_ok x (names a' j) \<and> j < a_next a' \<and> ino x = j" if "a_inodes a' j = Some x" for j x
      using that 3(2,6,7) p less links_okD(2,3,6) [OF ok 3(1)] links_okD(2,6) [OF ok, of j x] inode_less [OF ok "next", of j x]
      by (auto simp: N inodes count_ok_def split: if_splits)
    moreover have "q < a_next a' \<and> (\<forall>x. a_inodes a' q = Some x \<longrightarrow> is_dir_mode (mode x))" if "a_dirs a' q = Some d" for q d
    proof -
      have "q = ?i \<or> a_dirs a q \<noteq> None" using that 3(3) by (auto simp: 3(8) split: if_splits)
      then show ?thesis using less links_okD(4) [OF ok, of q] links_okD(5) [OF ok, of q] 3(2,6) p
        by (auto simp: inodes split: if_splits)
    qed
    ultimately show ?thesis unfolding run links_ok_def by blast
  qed
qed

subsection \<open>Runs keep the invariant\<close>

lemma file_mode_reg: "\<not> is_dir_mode (file_mode S_IFREG m umask)"
proof -
  have "(S_IFREG OR (x AND 0xFFF)) AND S_IFDIR = 0" for x
    by (simp add: bit.conj_disj_distrib2 and.assoc S_IFREG_def S_IFDIR_def)
  then show ?thesis by (simp add: is_dir_mode_def file_mode_def and.assoc [symmetric])
qed

lemma and_then_ret_fst: "fst (and_then m (\<lambda>x. ret (f x)) s) = fst (m s)"
  by (simp add: and_then_ret)

lemma spec_ns_links:
  assumes "links_ok a" "ns_allowed oper a"
  shows "links_ok (fst (spec_ns oper a))"
proof (cases oper)
  case (NMknod p n m u g umask)
  then show ?thesis using assms file_mode_reg links_create [OF assms(1)]
    by (auto simp: and_then_ret_fst fail_def new_file_def)
next
  case (NLink now i p n)
  then show ?thesis using assms by (auto simp: and_then_ret_fst intro!: links_link split: option.splits)
qed (use assms in \<open>auto simp: and_then_ret_fst intro: links_mkdir links_unlink links_rmdir links_rename\<close>)

text \<open>A simulation whose specification keeps an invariant.\<close>

locale simulation_inv = simulation +
  fixes inv
  assumes inv_step: "inv a \<Longrightarrow> allowed oper a \<Longrightarrow> inv (fst (astep oper a))"
begin

lemma runs_inv: "inv a \<Longrightarrow> run_allowed allowed astep opers a \<Longrightarrow> inv (fst (run_all astep opers a))"
proof (induction opers arbitrary: a)
  case (Cons oper opers)
  then show ?case using inv_step by (simp add: split_def Let_def)
qed simp

lemma runs_keep:
  assumes "rel c a" "inv a" "run_allowed allowed astep opers a" "good (fst (run_all cstep opers c))"
  shows "\<exists>a'. rel (fst (run_all cstep opers c)) a' \<and> inv a'"
  using runs_rel [OF assms(1,3,4)] runs_inv [OF assms(2,3)] by blast

end

interpretation ns_links: simulation_inv "run_ns B" spec_ns ns_allowed "fs_rel B"
  "\<lambda>s. blockset_laws B \<and> bs_ok B (fs_io s)" "(=)" links_ok
  by unfold_locales (rule spec_ns_links)

lemma links_init: "links_ok (meta_init u g)"
proof -
  have "(p, n) \<notin> names (meta_init u g) i" for p n i
    by (auto simp: in_names meta_init_def dots_def split: if_splits)
  then have "names (meta_init u g) i = {}" for i by auto
  moreover have "is_dir_mode (S_IFDIR OR 0x1ED)" by (simp add: is_dir_mode_def S_IFDIR_def)
  ultimately show ?thesis
    by (auto simp: links_ok_def count_ok_def) (auto simp: meta_init_def new_directory_def split: if_splits)
qed

lemma fs_new_rel:
  assumes "blockset_laws B" "bs_ok B (ds_io (store_new B u g io))"
  shows "fs_rel B (fs_new (store_new B u g io) path) (meta_init u g)"
  using store_new_rel [OF assms] by (simp add: fs_rel_def fs_new_def)

end
