(* ===== verification/Fs_Runs.thy ===== *)
theory Fs_Runs
  imports Links
begin

unbundle bit_operations_syntax

section \<open>Concrete runs of the file system\<close>

text \<open>
  Bounds on the number of contents each operation stores in \<open>list_blockset\<close>. They show that the
  storage of a concrete run stays small, which is what the properties ask of the storage.
\<close>

subsection \<open>Concrete runs store few contents\<close>

definition op_few :: "nat \<Rightarrow> ((bytes list, bytes) fs, 'a) fs_op \<Rightarrow> bool" where
  "op_few k m \<longleftrightarrow> (\<forall>s. few_pushes k (fs_io s) (fs_io (fst (m s))))"

named_theorems few_intros \<open>an operation stores few contents\<close>

lemma op_fewD: "op_few k m \<Longrightarrow> few_pushes k (fs_io s) (fs_io (fst (m s)))"
  by (simp add: op_few_def)

lemma op_few_and_then [few_intros]:
  assumes "op_few j m" "\<And>x. op_few k (f x)"
  shows "op_few (j + k) (and_then m f)"
  unfolding op_few_def
proof
  fix s
  have "few_pushes j (fs_io s) (fs_io (fst (m s)))" using assms(1) by (rule op_fewD)
  moreover have "few_pushes k (fs_io (fst (m s))) (fs_io (fst (and_then m f s)))"
    using op_fewD [OF assms(2)] by (simp add: and_then_def split_def split: sum.split)
  ultimately show "few_pushes (j + k) (fs_io s) (fs_io (fst (and_then m f s)))" by (rule few_pushes_trans) simp
qed

lemma few_pushes_mono: "few_pushes j io io' \<Longrightarrow> j \<le> k \<Longrightarrow> few_pushes k io io'"
  by (auto simp: few_pushes_def)

lemma op_few_mono: "op_few j m \<Longrightarrow> j \<le> k \<Longrightarrow> op_few k m"
  unfolding op_few_def using few_pushes_mono by blast

lemma op_few_if [few_intros]: "op_few j m \<Longrightarrow> op_few k m' \<Longrightarrow> op_few (j + k) (if c then m else m')"
  using op_few_mono [of j m "j + k"] op_few_mono [of k m' "j + k"] by simp

lemma op_few_case [few_intros]:
  "(\<And>x. op_few j (f x)) \<Longrightarrow> (\<And>x. op_few k (g x)) \<Longrightarrow> op_few (j + k) (case r of Err x \<Rightarrow> f x | Ok x \<Rightarrow> g x)"
proof -
  assume "\<And>x. op_few j (f x)" "\<And>x. op_few k (g x)"
  then show "op_few (j + k) (case r of Err x \<Rightarrow> f x | Ok x \<Rightarrow> g x)"
    by (cases r) (simp_all, (rule op_few_mono, assumption, simp)+)
qed

lemma op_few_simple [few_intros]:
  "op_few 0 (ret x)" "op_few 0 (fail e)" "op_few 0 (ask_meta g q)"
  "op_few 0 (modify_meta (forget_inode B i))" "op_few 0 (modify_meta (increment_refcount d))"
  "op_few 0 (modify_meta (decrement_opt old))"
  by (simp_all add: op_few_def ret_def fail_def ask_meta_def modify_meta_def)

lemma op_few_on_meta:
  assumes "\<And>m. fst (f m) = fst (run_op list_blockset oper m)"
  shows "op_few 8 (on_meta g f)"
  using run_op_few [of _ oper] by (simp add: op_few_def on_meta_def split_def Let_def assms)

lemma op_few_calls [few_intros]:
  "op_few 8 (on_meta g (create_inode list_blockset m))" "op_few 8 (on_meta g (update_inode list_blockset m))"
  "op_few 8 (on_meta g (delete_inode list_blockset i))" "op_few 8 (on_meta g (create_directory list_blockset p n m))"
  "op_few 8 (on_meta g (store_lookup list_blockset p n))" "op_few 8 (on_meta g (store_link list_blockset p n i))"
  "op_few 8 (on_meta g (store_unlink list_blockset p n))" "op_few 8 (on_meta g (set_manifest list_blockset i bl))"
  by (rule op_few_on_meta [of _ "CreateInode m"] op_few_on_meta [of _ "UpdateInode m"] op_few_on_meta [of _ "DeleteInode i"]
      op_few_on_meta [of _ "CreateDirectory p n m"] op_few_on_meta [of _ "Lookup p n"] op_few_on_meta [of _ "Link p n i"]
      op_few_on_meta [of _ "Unlink p n"] op_few_on_meta [of _ "SetManifest i bl"], simp add: respond_def)+

lemma displace_few [few_intros]: "op_few 1 (modify_meta (displace list_blockset i m))"
proof -
  have "few_pushes 1 (ds_io s) (ds_io (fst (update_inode list_blockset x s)))" for x s
    using update_inode_few [of x s] by (metis prod.collapse)
  then show ?thesis by (auto simp: op_few_def modify_meta_def displace_def Let_def)
qed

lemma link_or_undo_few [few_intros]: "op_few 8 (link_or_undo list_blockset p n i)"
  using run_op_few [of _ "Link p n i"]
  by (auto simp: op_few_def link_or_undo_def split_def respond_def split: sum.split)

lemma try_lookup_few [few_intros]: "op_few 8 (try_lookup list_blockset p n)"
  using run_op_few [of _ "Lookup p n"] by (simp add: op_few_def try_lookup_def respond_def)

lemma run_ns_few: "op_few 100 (run_ns list_blockset oper)"
proof (cases oper)
  case (NMknod p n m u g umask)
  show ?thesis unfolding NMknod run_ns.simps test_mknod_def create_linked_undo Let_def
    by (rule op_few_mono, (rule few_intros)+) simp
next
  case (NMkdir p n m umask u g)
  show ?thesis unfolding NMkdir run_ns.simps simulate_mkdir_def
    by (rule op_few_mono, (rule few_intros)+) simp
next
  case (NUnlink p n)
  show ?thesis unfolding NUnlink run_ns.simps simulate_unlink_def Let_def
    by (rule op_few_mono, (rule few_intros)+) simp
next
  case (NRmdir p n)
  show ?thesis unfolding NRmdir run_ns.simps simulate_rmdir_def
    by (rule op_few_mono, (rule few_intros)+) simp
next
  case (NLink now i p n)
  show ?thesis unfolding NLink run_ns.simps simulate_link_def
    by (rule op_few_mono, (rule few_intros)+) simp
next
  case (NRename now p n p' n' flags)
  show ?thesis unfolding NRename run_ns.simps rename_forms rename_displace_def rename_tail_def
    by (rule op_few_mono, (rule few_intros)+) simp
qed

lemma runs_few:
  assumes "\<And>oper. op_few k (step oper)"
  shows "few_pushes (k * length opers) (fs_io s) (fs_io (fst (run_all step opers s)))"
proof (induction opers arbitrary: s)
  case (Cons oper opers)
  then show ?case
    using few_pushes_trans [OF op_fewD [OF assms] Cons.IH] by (simp add: split_def Let_def)
qed simp

lemma few_ok: "few_pushes k io io' \<Longrightarrow> distinct io \<Longrightarrow> length io + k < 4294967296 \<Longrightarrow> bs_ok list_blockset io'"
  by (auto simp: few_pushes_def list_blockset_def)

text \<open>The hash operations and the operations on handles.\<close>

lemma hash_few:
  "materialize list_blockset io st = (io', c) \<Longrightarrow> few_pushes 1 io io'"
  "push_fresh list_blockset io xs = (io', st') \<Longrightarrow> io' = io"
  "finalize list_blockset io w = (io', d) \<Longrightarrow> few_pushes 1 io io'"
  "st_push list_blockset io st xs = (e, io', st') \<Longrightarrow> io' = io"
proof -
  have st_end: "st_end list_blockset = push_all list_blockset" by (simp add: list_blockset_def)
  have fresh: "push_fresh list_blockset io xs = (io, xs)" for io xs by (simp add: push_fresh_def list_blockset_def)
  show "materialize list_blockset io st = (io', c) \<Longrightarrow> few_pushes 1 io io'"
    using push_all_few by (auto simp: materialize_def st_end split: prod.splits)
  show "push_fresh list_blockset io xs = (io', st') \<Longrightarrow> io' = io" by (simp add: fresh)
  show "finalize list_blockset io w = (io', d) \<Longrightarrow> few_pushes 1 io io'"
    using push_all_few by (auto simp: finalize_def st_end fresh split: write_mode.splits)
  show "st_push list_blockset io st xs = (e, io', st') \<Longrightarrow> io' = io" by (simp add: list_blockset_def)
qed

lemma test_write_few [few_intros]: "op_few 1 (test_write list_blockset fh off data)"
  unfolding op_few_def test_write_def write_fallback_def Let_def
  by (auto split: option.split write_mode.split prod.split dest: hash_few)

lemma test_read_few [few_intros]: "op_few 1 (test_read list_blockset iter i off sz)"
  unfolding op_few_def test_read_def and_then_def ask_meta_def
  by (auto split: option.split write_mode.split prod.split list.split sum.split dest: hash_few)

lemma commit_digest_few [few_intros]: "op_few 8 (commit_digest list_blockset i old d)"
proof -
  have "op_few 0 (modify_meta (if c then id else f))" if "\<And>m. ds_io (f m) = ds_io m" for c and f :: "bytes list store \<Rightarrow> bytes list store"
    using that by (simp add: op_few_def modify_meta_def)
  then have "op_few (0 + (8 + 0)) (commit_digest list_blockset i old d)"
    unfolding commit_digest_def by (intro op_few_and_then op_few_calls) simp_all
  then show ?thesis by simp
qed

lemma store_size_few [few_intros]: "op_few 8 (store_size list_blockset touch i n)"
  unfolding store_size_def by (rule op_few_mono, (rule few_intros)+) simp

lemma after_io_few:
  assumes "op_few k m" "few_pushes j (fs_io s) io" "fs_io s' = io"
    and "j + k \<le> l"
  shows "few_pushes l (fs_io s) (fs_io (fst (m s')))"
  using few_pushes_trans [OF assms(2) op_fewD [OF assms(1), of s', unfolded assms(3)] assms(4)] .

lemma handle_tail_few: "op_few 16 (and_then (commit_digest list_blockset i old d) (\<lambda>_.
    and_then (\<lambda>s. (g s, Ok ())) (\<lambda>_. store_size list_blockset touch i n)))" if "\<And>s. fs_io (g s) = fs_io s"
proof -
  have "op_few 0 (\<lambda>s. (g s, Ok () :: fs_fault + unit))" using that by (simp add: op_few_def)
  then have "op_few (8 + (0 + 8)) (and_then (commit_digest list_blockset i old d) (\<lambda>_.
      and_then (\<lambda>s. (g s, Ok ())) (\<lambda>_. store_size list_blockset touch i n)))"
    by (intro op_few_and_then commit_digest_few store_size_few)
  then show ?thesis by simp
qed

lemma test_flush_few [few_intros]: "op_few 17 (test_flush list_blockset now i fh)"
proof -
  have tail: "few_pushes 17 (fs_io s) (fs_io (fst (and_then (commit_digest list_blockset i old d) (\<lambda>_.
      and_then (\<lambda>s. (set_handle fh h s, Ok ())) (\<lambda>_. store_size list_blockset touch i n)) (set_io io s'))))"
    if "finalize list_blockset (fs_io s) w = (io, d)" for s s' io old d h touch n w
    by (rule after_io_few [OF handle_tail_few hash_few(3) [OF that]]) simp_all
  show ?thesis unfolding op_few_def test_flush_def flush_buffer_for_fsync_def Let_def
    by (auto split: option.split prod.split intro: tail)
qed

lemma test_release_few [few_intros]: "op_few 17 (test_release list_blockset now i fh)"
proof -
  have tail: "few_pushes 17 (fs_io s) (fs_io (fst (and_then (commit_digest list_blockset i old d)
      (\<lambda>_. store_size list_blockset touch i n) (set_io io s'))))"
    if "finalize list_blockset (fs_io s) w = (io, d)" for s s' io old d touch n w
    by (rule after_io_few [OF op_few_and_then [OF commit_digest_few store_size_few] hash_few(3) [OF that]]) simp_all
  have set: "few_pushes 17 (fs_io s) (fs_io (fst (on_meta as_eio (set_manifest list_blockset i []) (drop_handle fh s))))"
    for s :: "(bytes list, bytes) fs"
    by (rule few_pushes_trans [where m = 0, OF _ op_fewD [OF op_few_calls(8)]]) simp_all
  have end_only: "few_pushes 17 (fs_io s) io" if "finalize list_blockset (fs_io s) w = (io, d)" for s :: "(bytes list, bytes) fs" and io d w
    using few_pushes_mono [OF hash_few(3) [OF that], of 17] by simp
  show ?thesis unfolding op_few_def test_release_def Let_def
    by (auto split: option.split prod.split intro: tail set end_only)
qed

lemma truncate_handle_few: "few_pushes 1 (fs_io s) (fs_io (truncate_handle list_blockset fh h n s))"
  unfolding truncate_handle_def Let_def
  by (auto split: write_mode.split prod.split if_splits dest!: hash_few)

lemma truncate_committed_few [few_intros]: "op_few 9 (truncate_committed list_blockset i n)"
proof -
  have store: "few_pushes 9 (fs_io s) (fs_io (fst (and_then (on_meta as_eio (set_manifest list_blockset i [d]))
      (\<lambda>_. modify_meta (increment_refcount d)) (set_io io s'))))" if "push_all list_blockset (fs_io s) c = (io, d)"
    for s s' :: "(bytes list, bytes) fs" and io d c
    by (rule after_io_few [OF op_few_and_then [OF op_few_calls(8) op_few_simple(5)] push_all_few [OF that]]) simp_all
  have set: "few_pushes 9 (fs_io s) (fs_io (fst (on_meta as_eio (set_manifest list_blockset i []) s)))" for s :: "(bytes list, bytes) fs"
    using few_pushes_mono [OF op_fewD [OF op_few_calls(8)]] by simp
  have tail: "op_few 9 (\<lambda>s. if c = [] then on_meta as_eio (set_manifest list_blockset i []) s
      else let (io, d) = push_all list_blockset (fs_io s) c in
        and_then (on_meta as_eio (set_manifest list_blockset i [d])) (\<lambda>_. modify_meta (increment_refcount d)) (set_io io s))" for c
    unfolding op_few_def by (auto intro: set store split: prod.split)
  have "op_few (0 + 9) (and_then (modify_meta (case old of [] \<Rightarrow> id | d # _ \<Rightarrow> decrement_refcount d)) (\<lambda>_ s.
      let c = resize (unat n) content in if c = [] then on_meta as_eio (set_manifest list_blockset i []) s
      else let (io, d) = push_all list_blockset (fs_io s) c in
        and_then (on_meta as_eio (set_manifest list_blockset i [d])) (\<lambda>_. modify_meta (increment_refcount d)) (set_io io s)))" for old content
    unfolding Let_def [where s = "resize (unat n) content"]
    by (intro op_few_and_then tail) (simp add: op_few_def modify_meta_def split: list.split)
  from op_fewD [OF this] show ?thesis
    unfolding op_few_def truncate_committed_def by (auto split: sum.split option.split)
qed

lemma resize_few [few_intros]: "op_few 17 (test_setattr_size list_blockset now i fh n)"
proof -
  have "op_few (9 + 8) (and_then (truncate_committed list_blockset i n) (\<lambda>_. store_size list_blockset (touch_ctime now) i n))"
    by (intro op_few_and_then truncate_committed_few store_size_few)
  moreover have "few_pushes 17 (fs_io s) (fs_io (fst (store_size list_blockset (touch_ctime now) i n (truncate_handle list_blockset f h n s))))" for f h s
    by (rule few_pushes_trans [OF truncate_handle_few op_fewD [OF store_size_few]]) simp
  ultimately show ?thesis
    using op_fewD [of 17 "and_then (truncate_committed list_blockset i n) (\<lambda>_. store_size list_blockset (touch_ctime now) i n)"]
    unfolding op_few_def test_setattr_size_def by (simp split: option.split)
qed

lemma session_step_few: "op_few 20 (session_step list_blockset iter i fh oper)"
proof (cases oper)
  case (SWrite off data)
  show ?thesis unfolding SWrite session_step_def session_op.case by (rule op_few_mono, (rule few_intros)+) simp
next
  case (SRead off sz)
  show ?thesis unfolding SRead session_step_def session_op.case by (rule op_few_mono, (rule few_intros)+) simp
next
  case (SFlush now)
  show ?thesis unfolding SFlush session_step_def session_op.case by (rule op_few_mono, (rule few_intros)+) simp
next
  case (SResize now n)
  show ?thesis unfolding SResize session_step_def session_op.case by (rule op_few_mono, (rule few_intros)+) simp
qed

lemma open_handle_few [few_intros]: "op_few 0 (open_handle B i)"
  by (simp add: op_few_def open_handle_def Let_def set_handle_def)

lemma test_create_few: "op_few 16 (test_create list_blockset p n m umask u g)"
  unfolding test_create_def create_linked_undo by (rule op_few_mono, (rule few_intros)+) simp

end
