(* ===== verification/Fs_Properties.thy ===== *)
theory Fs_Properties
  imports Fs_Runs
begin

unbundle bit_operations_syntax

section \<open>What the file system guarantees\<close>

text \<open>
  The properties of \<^verbatim>\<open>SliceFsFilesystem\<close>: its operations on names and on open files against their
  specifications, and where they fall short of what a user of a file system expects.
\<close>

subsection \<open>Names\<close>

text \<open>
  C3. Every sequence of mknod, mkdir, unlink, rmdir, link and rename on a new file system gives the
  results of the same operations on finite maps, with the same error codes, and ends in a store
  that represents the resulting maps.
\<close>

theorem namespace_refines:
  assumes "blockset_laws B" and "run_allowed ns_allowed spec_ns opers (meta_init u g)"
    and "bs_ok B (fs_io (fst (run_all (run_ns B) opers (fs_new (store_new B u g io) path))))"
  shows "fs_rel B (fst (run_all (run_ns B) opers (fs_new (store_new B u g io) path))) (fst (run_all spec_ns opers (meta_init u g))) \<and>
    snd (run_all (run_ns B) opers (fs_new (store_new B u g io) path)) = snd (run_all spec_ns opers (meta_init u g))"
proof -
  let ?s = "fs_new (store_new B u g io) path :: ('a, 'b) fs"
  have "bs_ok B (fs_io ?s)" using ns_sim.good_start assms(1,3) by blast
  then have "fs_rel B ?s (meta_init u g)" using fs_new_rel [OF assms(1)] by (simp add: fs_new_def)
  from ns_sim.runs_rel [OF this assms(2)] assms(1,3) show ?thesis by (simp add: list_all2_eq)
qed

definition demo_names :: "ns_op list" where
  "demo_names = [NMknod 1 (str ''f'') 0x81A4 7 8 0, NLink (5, 0) 2 1 (str ''g''), NLink (5, 0) 2 1 (str ''g''),
     NUnlink 1 (str ''f''), NRmdir 1 (str ''f'')]"

lemma demo_strs: "name_ok (str ''f'')" "name_ok (str ''g'')" "str ''f'' \<notin> dots" "str ''g'' \<notin> dots"
  "str ''f'' \<noteq> str ''g''" "str ''g'' \<noteq> str ''f''" "str ''.'' \<in> dots" "str ''..'' \<in> dots" "str ''.'' \<noteq> str ''..''"
  "str ''..'' \<noteq> str ''.''" "str ''f'' \<noteq> str ''.''" "str ''f'' \<noteq> str ''..''" "str ''g'' \<noteq> str ''.''" "str ''g'' \<noteq> str ''..''"
  by (simp_all add: name_ok_def dots_def str_def)

lemma fs_new_few: "few_pushes 4 [] (fs_io (fs_new (store_new list_blockset u g []) path))"
  using store_new_few by (simp add: fs_new_def)

lemma ns_run_ok:
  assumes "100 * length opers < 4294967000"
  shows "bs_ok list_blockset (fs_io (fst (run_all (run_ns list_blockset) opers (fs_new (store_new list_blockset u g []) path))))"
  by (rule few_ok [OF few_pushes_trans [OF fs_new_few runs_few [where step = "run_ns list_blockset", OF run_ns_few] order_refl]])
    (use assms in simp_all)

lemmas ns_eval = meta_init_def spec_mkdir_def a_op_def spec_create_directory_def spec_create_def spec_link_def
  spec_rmdir_def spec_unlink_def spec_rename_def spec_displace_def spec_touch_def displaced_def forget_def put_inode_def
  add_name_def drop_name_def resolve_def and_then_def ret_def fail_def map_errno_def un_ino_def new_name_ok_def dir_room_def
  new_directory_def new_file_def file_mode_def is_dir_mode_def touch_ctime_def S_IFDIR_def S_IFREG_def S_IFMT_def u64_max_def
  Let_def

lemma demo_names_spec:
  "run_allowed ns_allowed spec_ns demo_names (meta_init 7 8)"
  "snd (run_all spec_ns demo_names (meta_init 7 8)) =
     [Ok (Some 2), Ok (Some 2), Err (Errno EEXIST), Ok None, Err (Errno ENOENT)]"
  by (simp_all add: demo_names_def ns_eval demo_strs)

theorem namespace_refines_witness:
  "snd (run_all (run_ns list_blockset) demo_names (fs_new (store_new list_blockset 7 8 []) None)) =
     [Ok (Some 2), Ok (Some 2), Err (Errno EEXIST), Ok None, Err (Errno ENOENT)]"
  using namespace_refines [OF list_blockset_laws demo_names_spec(1) ns_run_ok] demo_names_spec(2)
  by (simp add: demo_names_def)

lemma lookup_refines:
  assumes laws: "blockset_laws B"
  shows "refines B (test_lookup B p n) (\<lambda>a. case resolve p n a of Err e \<Rightarrow> fail e a
    | Ok i \<Rightarrow> (case a_inodes a i of None \<Rightarrow> fail ENOENT a | Some m \<Rightarrow> (a, Ok (i, m)))) a"
proof (rule refines_eq)
  let ?P = "and_then (a_op un_ino as_errno (Lookup p n)) (\<lambda>i. and_then (a_op un_meta as_errno (GetInode i)) (\<lambda>m. ret (i, m)))"
  show "refines B (test_lookup B p n) ?P a"
    unfolding test_lookup_def by (intro refines_and_then refines_simple store_calls_refine laws grows_intros)
  show "?P a = (case resolve p n a of Err e \<Rightarrow> fail e a
      | Ok i \<Rightarrow> (case a_inodes a i of None \<Rightarrow> fail ENOENT a | Some m \<Rightarrow> (a, Ok (i, m))))"
    by (simp add: and_then_def call_forms fail_def ret_def split: sum.split option.split)
qed

lemma test_lookup_grows: "blockset_laws B \<Longrightarrow> op_grows B (test_lookup B p n)"
  unfolding test_lookup_def by (intro grows_intros)

text \<open>
  C4. No name dangles and no link count is wrong: after every sequence of operations on names, a
  lookup of a name (other than the dot entries) that the directory has finds its inode; that name is
  the only one of a directory, and the link count of a file is the number of names it has.
\<close>

theorem names_lead_to_inodes:
  assumes "blockset_laws B" and "run_allowed ns_allowed spec_ns opers (meta_init u g)"
    and "s = fst (run_all (run_ns B) opers (fs_new (store_new B u g io) path))"
    and "a = fst (run_all spec_ns opers (meta_init u g))" and "n \<notin> dots" and "resolve p n a = Ok i"
    and "bs_ok B (fs_io (fst (test_lookup B p n s)))"
  shows "\<exists>m. snd (test_lookup B p n s) = Ok (i, m) \<and>
    (if is_dir_mode (mode m) then names a i = {(p, n)} else unat (nlinks m) = card (names a i))"
proof -
  let ?s = "fs_new (store_new B u g io) path :: ('a, 'b) fs"
  have ok: "bs_ok B (fs_io s)" by (rule op_grows_ok [OF test_lookup_grows [OF assms(1)] assms(7)])
  then have "bs_ok B (fs_io ?s)" using ns_sim.good_start assms(1,3) by blast
  then have "fs_rel B ?s (meta_init u g)" using fs_new_rel [OF assms(1)] by (simp add: fs_new_def)
  then have rel: "fs_rel B s a" and links: "links_ok a"
    using ns_sim.runs_rel [OF _ assms(2)] ns_links.runs_inv [OF links_init assms(2)] ok assms(1,3,4) by blast+
  have i: "(p, n) \<in> names a i" using assms(5,6) by (simp add: names_def)
  then obtain m where m: "a_inodes a i = Some m" using links_okD(1) [OF links, of i] by (cases "a_inodes a i") auto
  have "names a i = {(p, n)}" if "is_dir_mode (mode m)"
    using links_okD(2) [OF links m] that i card_le_Suc0_iff_eq [of "names a i"] by (auto simp: count_ok_def)
  moreover have "snd (test_lookup B p n s) = Ok (i, m)"
    using refinesD(2) [OF lookup_refines [OF assms(1)] rel assms(7)] assms(6) m by simp
  ultimately show ?thesis using file_count [OF links m] by auto
qed

lemma test_lookup_few: "op_few 8 (test_lookup list_blockset p n)"
  unfolding test_lookup_def by (rule op_few_mono, (rule few_intros)+) simp

lemma demo_names_resolve: "resolve 1 (str ''g'') (fst (run_all spec_ns demo_names (meta_init 7 8))) = Ok 2"
  by (simp add: demo_names_def ns_eval demo_strs)

theorem names_lead_to_inodes_witness:
  "\<exists>s m. s = fst (run_all (run_ns list_blockset) demo_names (fs_new (store_new list_blockset 7 8 []) None)) \<and>
    snd (test_lookup list_blockset 1 (str ''g'') s) = Ok (2, m)"
proof -
  let ?s = "fst (run_all (run_ns list_blockset) demo_names (fs_new (store_new list_blockset 7 8 []) None))"
  have "few_pushes (4 + 100 * length demo_names) [] (fs_io ?s)"
    by (rule few_pushes_trans [OF fs_new_few runs_few [where step = "run_ns list_blockset", OF run_ns_few] order_refl])
  then have "few_pushes 1000 [] (fs_io (fst (test_lookup list_blockset 1 (str ''g'') ?s)))"
    by (rule few_pushes_trans [OF _ op_fewD [OF test_lookup_few]]) (simp add: demo_names_def)
  then have "bs_ok list_blockset (fs_io (fst (test_lookup list_blockset 1 (str ''g'') ?s)))" by (rule few_ok) simp_all
  from names_lead_to_inodes [OF list_blockset_laws demo_names_spec(1) refl refl demo_strs(4) demo_names_resolve this]
  show ?thesis by blast
qed

text \<open>
  C13. Renaming a file onto its own name destroys it: the call fails with \<^verbatim>\<open>ENOENT\<close>, and afterwards the
  name is gone and, when it was the only one, so is the inode. (POSIX: such a rename does nothing and
  succeeds.)
\<close>

theorem rename_onto_itself:
  assumes "blockset_laws B" and "fs_rel B s a" and "name_ok n" and "dir_room a p" and "n \<notin> dots"
    and "resolve p n a = Ok i" and "a_inodes a i = Some m" and "\<not> is_dir_mode (mode m)" and "nlinks m = 1"
    and "bs_ok B (fs_io (fst (simulate_rename B now p n p n 0 s)))"
  shows "snd (simulate_rename B now p n p n 0 s) = Err (Errno ENOENT) \<and>
    (\<exists>a'. fs_rel B (fst (simulate_rename B now p n p n 0 s)) a' \<and> resolve p n a' = Err ENOENT \<and> a_inodes a' i = None)"
proof -
  from assms(6) obtain dir where dir: "a_dirs a p = Some dir" "dir n = Some i"
    by (auto simp: resolve_def split: option.splits)
  have "snd (spec_rename now p n p n 0 a) = Err (Errno ENOENT)" "resolve p n (fst (spec_rename now p n p n 0 a)) = Err ENOENT"
    "a_inodes (fst (spec_rename now p n p n 0 a)) i = None"
    using dir assms(5,7-9)
    by (simp_all add: spec_rename_def resolve_def spec_displace_def displaced_def forget_def add_name_def drop_name_def
        spec_touch_def and_then_def fail_def)
  then show ?thesis using refinesD [OF rename_refines [OF assms(1,3,4)] assms(2,10)] by auto
qed

text \<open>A file system with one file \<^verbatim>\<open>f\<close>, inode 2, in the root directory.\<close>

definition one_file :: "(bytes list, bytes) fs" where
  "one_file = fst (run_all (run_ns list_blockset) [NMknod 1 (str ''f'') 0x81A4 7 8 0]
     (fs_new (store_new list_blockset 7 8 []) None))"

definition one_file_maps :: meta_state where
  "one_file_maps = fst (run_all spec_ns [NMknod 1 (str ''f'') 0x81A4 7 8 0] (meta_init 7 8))"

lemma one_file_few: "few_pushes 104 [] (fs_io one_file)"
  unfolding one_file_def
  by (rule few_pushes_trans [OF fs_new_few runs_few [where step = "run_ns list_blockset", OF run_ns_few]]) simp

lemma one_file_rel: "fs_rel list_blockset one_file one_file_maps"
proof -
  have allowed: "run_allowed ns_allowed spec_ns [NMknod 1 (str ''f'') 0x81A4 7 8 0] (meta_init 7 8)"
    by (simp add: ns_eval demo_strs)
  have "bs_ok list_blockset (fs_io one_file)" by (rule few_ok [OF one_file_few]) simp_all
  then have good: "blockset_laws list_blockset \<and> bs_ok list_blockset (fs_io one_file)" using list_blockset_laws by blast
  then have "bs_ok list_blockset (fs_io (fs_new (store_new list_blockset 7 8 []) None :: (bytes list, bytes) fs))"
    unfolding one_file_def using ns_sim.good_start by blast
  then have "fs_rel list_blockset (fs_new (store_new list_blockset 7 8 []) None) (meta_init 7 8)"
    using fs_new_rel [OF list_blockset_laws] by (simp add: fs_new_def)
  from ns_sim.runs_rel [OF this allowed] good show ?thesis unfolding one_file_def one_file_maps_def by blast
qed

lemma one_file_maps_facts:
  "dir_room one_file_maps 1" "resolve 1 (str ''f'') one_file_maps = Ok 2"
  "a_inodes one_file_maps 2 = Some (new_file 2 7 8 0x81A4)" "a_manifests one_file_maps = Map.empty"
  "a_next one_file_maps = 3" "resolve 1 (str ''g'') one_file_maps = Err ENOENT"
  by (simp_all add: one_file_maps_def ns_eval demo_strs)

lemma rename_few: "op_few 100 (simulate_rename list_blockset now p n p' n' flags)"
  unfolding rename_forms rename_displace_def rename_tail_def by (rule op_few_mono, (rule few_intros)+) simp

theorem rename_onto_itself_witness:
  "snd (simulate_rename list_blockset (9, 0) 1 (str ''f'') 1 (str ''f'') 0 one_file) = Err (Errno ENOENT)"
proof -
  have "few_pushes 204 [] (fs_io (fst (simulate_rename list_blockset (9, 0) 1 (str ''f'') 1 (str ''f'') 0 one_file)))"
    by (rule few_pushes_trans [OF one_file_few op_fewD [OF rename_few]]) simp
  then have ok: "bs_ok list_blockset (fs_io (fst (simulate_rename list_blockset (9, 0) 1 (str ''f'') 1 (str ''f'') 0 one_file)))"
    by (rule few_ok) simp_all
  show ?thesis
    by (rule rename_onto_itself [OF list_blockset_laws one_file_rel demo_strs(1) one_file_maps_facts(1) demo_strs(3)
          one_file_maps_facts(2,3) _ _ ok, THEN conjunct1]) (simp_all add: new_file_def is_dir_mode_def S_IFDIR_def)
qed

subsection \<open>Files\<close>

text \<open>The session of a handle that was just opened on a file with the given contents and size.\<close>

definition fresh_session :: "bytes option \<Rightarrow> u64 \<Rightarrow> nat \<Rightarrow> session" where
  "fresh_session c sz rest = \<lparr>ss_streaming = True, ss_buf = [], ss_file = c, ss_size = sz, ss_rest = rest\<rparr>"

text \<open>Nothing refers to the inode number that is handed out next.\<close>

definition next_unused :: "('io, 'st) fs \<Rightarrow> meta_state \<Rightarrow> bool" where
  "next_unused s a \<longleftrightarrow> a_manifests a (a_next a) = None \<and>
     (\<forall>fh h. bt_get (fs_open_files s) fh = Some h \<longrightarrow> of_ino h \<noteq> a_next a)"

lemma open_handle_session:
  assumes laws: "blockset_laws B" and rel: "file_rel B i s a r" and r: "ss_streaming r" "ss_buf r = []"
    and others: "\<And>fh h. bt_get (fs_open_files s) fh = Some h \<Longrightarrow> of_ino h = i \<Longrightarrow> of_byte_count h = 0"
  shows "session_rel B i (fs_next_fh s + 1) (fst (open_handle B i s)) r" "snd (open_handle B i s) = Ok (fs_next_fh s + 1)"
proof -
  let ?s = "s\<lparr>fs_next_fh := fs_next_fh s + 1\<rparr>" and ?fh = "fs_next_fh s + 1"
  have run: "open_handle B i s = (set_handle ?fh (new_handle B i) ?s, Ok ?fh)" by (simp add: open_handle_def Let_def)
  have "file_rel B i ?s a r" using rel by (simp add: file_rel_def fs_rel_def)
  then have "file_rel B i (set_handle ?fh (new_handle B i) ?s) a r" by (rule file_rel_handle)
  moreover have "only_writer i ?fh (set_handle ?fh (new_handle B i) ?s)" using others by (simp add: only_writer_def)
  moreover have "handle_rel B (fs_io s) (new_handle B i) r"
    using new_handle_holds [OF laws, of "fs_io s" i] r by (simp add: handle_rel_def) (simp add: new_handle_def)
  ultimately show "session_rel B i ?fh (fst (open_handle B i s)) r"
    unfolding run by (auto intro: session_relI simp: new_handle_def)
  show "snd (open_handle B i s) = Ok ?fh" by (simp add: run)
qed

lemma create_session:
  assumes laws: "blockset_laws B" and rel: "fs_rel B s a" and unused: "next_unused s a"
    and name: "new_name_ok p n a" "a_next a \<noteq> u64_max"
    and run: "test_create B p n m umask u g s = (s1, Ok (i, fh))" and ok: "bs_ok B (fs_io s1)"
  shows "i = a_next a \<and> session_rel B i fh s1 (fresh_session None 0 (total_size (a_inodes a)))"
proof -
  let ?m = "new_file 0 u g (file_mode S_IFREG m umask)"
  define s0 where "s0 = fst (create_linked B p n ?m s)"
  have split: "\<exists>i'. snd (create_linked B p n ?m s) = Ok i' \<and> open_handle B i' s0 = (s1, Ok fh) \<and> i' = i"
    using run by (auto simp: test_create_def and_then_def ret_def s0_def open_handle_def Let_def split: prod.splits sum.splits)
  then have created: "snd (create_linked B p n ?m s) = Ok i" and opened: "open_handle B i s0 = (s1, Ok fh)" by auto
  have ok0: "bs_ok B (fs_io s0)" using opened ok by (auto simp: open_handle_def Let_def set_handle_def)
  have "refines B (create_linked B p n ?m) (spec_create p n ?m) a"
    using name size_0_allowed [OF rel, of ?m] by (intro create_refines [OF laws, where i = 0])
      (simp_all add: op_allowed_def new_name_ok_def new_file_def)
  note spec = refinesD [OF this rel ok0 [unfolded s0_def], folded s0_def]
  have i: "i = a_next a" "fst (spec_create p n ?m a) = put_inode (?m\<lparr>ino := i\<rparr>) (fst (add_name p n i (a\<lparr>a_next := i + 1\<rparr>)))"
    using spec(2) created by (auto simp: spec_create_def Let_def split: sum.splits)
  let ?a = "fst (spec_create p n ?m a)"
  have none: "a_inodes a i = None" using fs_rel_inode [OF rel, of i] i(1) by (cases "a_inodes a i") auto
  have inodes: "a_inodes ?a = (a_inodes a)(i \<mapsto> ?m\<lparr>ino := i\<rparr>)" "a_manifests ?a = a_manifests a"
    unfolding i(2) by (simp_all add: put_inode_def add_name_def fail_def split: option.split)
  have "(a_inodes a)(i := None) = a_inodes a" using none by (simp add: fun_upd_idem)
  then have "file_rel B i s0 ?a (fresh_session None 0 (total_size (a_inodes a)))"
    using spec(1) unused i(1) inodes
    by (simp add: file_rel_def fresh_session_def next_unused_def file_has_def file_bytes_def unwrap_or_default_def new_file_def)
  then show ?thesis
    using open_handle_session [OF laws, of i s0 ?a "fresh_session None 0 (total_size (a_inodes a))"] opened spec(3) unused i(1)
    by (auto simp: fresh_session_def next_unused_def)
qed

text \<open>After the handle is closed, a read returns the committed contents.\<close>

lemma no_writer:
  assumes "set (iter (fs_open_files s)) = set (fs_open_files s)" "bt_sorted (fs_open_files s)"
    and "\<And>fh h. bt_get (fs_open_files s) fh = Some h \<Longrightarrow> of_ino h = i \<Longrightarrow> of_byte_count h = 0"
  shows "find (\<lambda>(_, h). of_ino h = i \<and> of_byte_count h > 0) (iter (fs_open_files s)) = None"
  unfolding find_None_iff assms(1) using assms(3) bt_get_set [OF assms(2)] by force

lemma close_and_read:
  assumes laws: "blockset_laws B" and iter: "enumerates iter" and rel: "session_rel B i fh s r"
    and fits: "ss_rest r + length (ss_buf r) < 2 ^ 64" and ok: "bs_ok B (fs_io (fst (test_release B now i fh s)))"
  shows "snd (test_release B now i fh s) = Ok () \<and>
    test_read B iter i off sz (fst (test_release B now i fh s)) =
      (fst (test_release B now i fh s), Ok (sub_range (file_bytes (spec_release r)) off sz))"
proof -
  let ?s = "fst (test_release B now i fh s)"
  from session_release [OF laws rel fits ok] obtain a where
    a: "snd (test_release B now i fh s) = Ok ()" "bt_get (fs_open_files ?s) = (bt_get (fs_open_files s))(fh := None)"
      "file_rel B i ?s a (spec_release r)" by blast
  have only: "only_writer i fh s" using rel by (simp add: session_rel_def)
  have "bt_sorted (fs_open_files ?s)" using a(3) by (simp add: file_rel_def fs_rel_def)
  then have "find (\<lambda>(_, h). of_ino h = i \<and> of_byte_count h > 0) (iter (fs_open_files ?s)) = None"
    using only by (intro no_writer iter [rule_format]) (auto simp: a(2) only_writer_def split: if_splits)
  moreover have "ss_file (spec_release r) = Some (file_bytes (spec_release r))"
    by (simp add: spec_release_def Let_def file_bytes_def unwrap_or_default_def)
  ultimately show ?thesis using read_committed [OF _ a(3)] a(1) by simp
qed

lemma create_succeeds:
  assumes laws: "blockset_laws B" and rel: "fs_rel B s a" and name: "new_name_ok p n a" "a_next a \<noteq> u64_max"
    and new: "resolve p n a = Err ENOENT" "n \<notin> dots" and ok: "bs_ok B (fs_io (fst (test_create B p n m umask u g s)))"
  shows "\<exists>s1 fh. test_create B p n m umask u g s = (s1, Ok (a_next a, fh))"
proof -
  let ?m = "new_file 0 u g (file_mode S_IFREG m umask)"
  have "op_grows B (\<lambda>s :: ('a, 'b) fs. and_then (open_handle B i) (\<lambda>fh. ret (i, fh)) s)" for i
    by (simp add: op_grows_def and_then_def open_handle_def ret_def Let_def set_handle_def)
  then have "bs_grows B (fs_io (fst (create_linked B p n ?m s))) (fs_io (fst (test_create B p n m umask u g s)))"
    by (simp add: test_create_def and_then_def [of "create_linked B p n ?m"] split_def op_grows_fst split: sum.split)
  then have ok0: "bs_ok B (fs_io (fst (create_linked B p n ?m s)))" by (rule bs_growsD(1) [OF _ ok])
  have "refines B (create_linked B p n ?m) (spec_create p n ?m) a"
    using name size_0_allowed [OF rel, of ?m] by (intro create_refines [OF laws, where i = 0])
      (simp_all add: op_allowed_def new_name_ok_def new_file_def)
  from refinesD(2) [OF this rel ok0] have "snd (create_linked B p n ?m s) = Ok (a_next a)"
    using new by (auto simp: spec_create_def Let_def add_name_def resolve_def split: option.splits)
  then show ?thesis by (simp add: test_create_def and_then_def open_handle_def ret_def Let_def split_def)
qed

text \<open>A session on a second file \<^verbatim>\<open>g\<close>: appending, reading back, overwriting, closing.\<close>

definition demo_session :: "session_op list" where
  "demo_session = [SWrite 0 [1, 2, 3], SRead 1 9, SFlush (4, 0), SWrite 1 [7, 7, 7], SResize (5, 0) 6, SRead 0 9]"

lemma replicate_2: "replicate 2 x = [x, x]"
  by (simp add: numeral_2_eq_2)

lemma one_file_unused: "next_unused one_file one_file_maps" "new_name_ok 1 (str ''g'') one_file_maps"
  "a_next one_file_maps \<noteq> u64_max" "total_size (a_inodes one_file_maps) = 0"
proof -
  let ?s = "fs_new (store_new list_blockset 7 8 []) None :: (bytes list, bytes) fs"
  have ok: "bs_ok list_blockset (fs_io one_file)" by (rule few_ok [OF one_file_few]) simp_all
  have step: "one_file = fst (run_ns list_blockset (NMknod 1 (str ''f'') 0x81A4 7 8 0) ?s)"
    by (simp add: one_file_def split_def Let_def del: run_ns.simps)
  have "bs_ok list_blockset (fs_io ?s)" by (rule few_ok [OF fs_new_few]) simp_all
  then have rel: "fs_rel list_blockset ?s (meta_init 7 8)" using fs_new_rel [OF list_blockset_laws] by (simp add: fs_new_def)
  have "ns_allowed (NMknod 1 (str ''f'') 0x81A4 7 8 0) (meta_init 7 8)" by (simp add: ns_eval demo_strs)
  from refinesD(3) [OF run_ns_refines [OF list_blockset_laws rel this] rel] ok
  have "fs_open_files one_file = []" unfolding step by (simp add: fs_new_def del: run_ns.simps)
  then show "next_unused one_file one_file_maps" by (simp add: next_unused_def one_file_maps_facts)
  show "new_name_ok 1 (str ''g'') one_file_maps" "a_next one_file_maps \<noteq> u64_max"
    by (simp_all add: new_name_ok_def demo_strs one_file_maps_facts u64_max_def)
  show "total_size (a_inodes one_file_maps) = 0"
    by (simp add: one_file_maps_def ns_eval demo_strs total_size_def)
qed

lemma demo_create: obtains s1 fh where "test_create list_blockset 1 (str ''g'') 0x1A4 0 7 8 one_file = (s1, Ok (3, fh))"
    "few_pushes 120 [] (fs_io s1)"
proof -
  have few: "few_pushes 120 [] (fs_io (fst (test_create list_blockset 1 (str ''g'') 0x1A4 0 7 8 one_file)))"
    by (rule few_pushes_trans [OF one_file_few op_fewD [OF test_create_few]]) simp
  then have "bs_ok list_blockset (fs_io (fst (test_create list_blockset 1 (str ''g'') 0x1A4 0 7 8 one_file)))"
    by (rule few_ok) simp_all
  from create_succeeds [OF list_blockset_laws one_file_rel one_file_unused(2,3) one_file_maps_facts(6) demo_strs(4) this] few
  show thesis using that by (auto simp: one_file_maps_facts(5))
qed

text \<open>
  What a process expects of a file it has created: an array of bytes. The operations are given byte by
  byte, independently of the buffers of the code.
\<close>

definition array_write :: "bytes \<Rightarrow> nat \<Rightarrow> bytes \<Rightarrow> bytes" where
  "array_write xs off data =
     map (\<lambda>k. if off \<le> k \<and> k < off + length data then data ! (k - off) else if k < length xs then xs ! k else 0)
       [0 ..< max (length xs) (off + length data)]"

definition array_resize :: "bytes \<Rightarrow> nat \<Rightarrow> bytes" where
  "array_resize xs n = map (\<lambda>k. if k < length xs then xs ! k else 0) [0 ..< n]"

definition array_read :: "bytes \<Rightarrow> nat \<Rightarrow> nat \<Rightarrow> bytes" where
  "array_read xs off n = take n (drop off xs)"

definition array_spec :: "session_op \<Rightarrow> bytes \<Rightarrow> bytes \<times> (fs_fault + session_resp)" where
  "array_spec oper xs =
     (case oper of
        SWrite off data \<Rightarrow> (array_write xs (unat off) data, Ok (SWritten (of_nat (length data))))
      | SRead off sz \<Rightarrow> (xs, Ok (SData (array_read xs (unat off) (unat sz))))
      | SFlush now \<Rightarrow> (xs, Ok SDone)
      | SResize now n \<Rightarrow> (array_resize xs (unat n), Ok SDone))"

text \<open>
  The sessions in which the code behaves that way; \<open>rest\<close> is the number of bytes of the other files.
  Left out are reads while the file is still empty (the code answers \<^verbatim>\<open>EIO\<close>), resizing to zero (the old bytes
  come back), writes of no bytes (past the end of the file they extend it), and files that together
  exceed 64 bits.
\<close>

definition array_allowed :: "nat \<Rightarrow> session_op \<Rightarrow> bytes \<Rightarrow> bool" where
  "array_allowed rest oper xs =
     (case oper of
        SWrite off data \<Rightarrow> data \<noteq> [] \<and> unat off + length data < 2 ^ 64
      | SRead off sz \<Rightarrow> xs \<noteq> []
      | SFlush now \<Rightarrow> rest + length xs < 2 ^ 64
      | SResize now n \<Rightarrow> n > 0 \<and> rest + unat n < 2 ^ 64)"

lemma array_write_pwrite: "array_write xs off data = pwrite xs off data"
  by (rule nth_equalityI)
    (auto simp: array_write_def pwrite_def resize_def Let_def nth_append max_def)

lemma array_resize_resize: "array_resize xs n = resize n xs"
  by (rule nth_equalityI) (auto simp: array_resize_def resize_def nth_append)

lemma array_read_range: "array_read xs (unat off) (unat sz) = sub_range xs off sz"
  by (auto simp: array_read_def sub_range_def slice_def Let_def min_def not_le take_drop add.commute)

text \<open>The session of the code, seen as an array of bytes.\<close>

definition array_rel :: "nat \<Rightarrow> session \<Rightarrow> bytes \<Rightarrow> bool" where
  "array_rel rest r xs \<longleftrightarrow> ss_buf r = xs \<and> (xs = [] \<longrightarrow> ss_file r = None) \<and> ss_rest r = rest"

lemma ref_write_array:
  assumes "array_rel rest r xs"
  shows "snd (ref_write (file_bytes r) (off, data) (ss_streaming r, ss_buf r)) = array_write xs (unat off) data"
  using assms ref_write_empty [of off data "ss_streaming r" "[]"]
  by (cases "xs = []")
    (auto simp: array_rel_def array_write_pwrite ref_write_def file_bytes_def unwrap_or_default_def pwrite_append)

lemma session_array:
  assumes "array_rel rest r xs" "array_allowed rest oper xs"
  shows "session_allowed oper r" "array_rel rest (fst (session_spec oper r)) (fst (array_spec oper xs))"
    "snd (session_spec oper r) = snd (array_spec oper xs)"
proof -
  show "session_allowed oper r"
    using assms by (cases oper) (auto simp: session_allowed_def array_allowed_def array_rel_def)
  have written: "array_rel rest (fst (session_spec (SWrite off data) r)) (array_write xs (unat off) data)"
    if "data \<noteq> []" for off data
    using ref_write_array [OF assms(1), of off data] assms(1) that
    by (auto simp: array_rel_def session_spec_def array_write_def max_def split: prod.split)
  show "array_rel rest (fst (session_spec oper r)) (fst (array_spec oper xs))"
    using written assms
    by (cases oper) (auto simp: array_spec_def session_spec_def array_allowed_def array_rel_def spec_commit_def
        spec_resize_def array_resize_resize resize_def unat_eq_zero)
  show "snd (session_spec oper r) = snd (array_spec oper xs)"
    using assms by (cases oper)
      (auto simp: array_spec_def session_spec_def array_allowed_def array_rel_def array_read_range split: prod.split)
qed

interpretation array_sim: simulation "session_step B iter i fh" array_spec "array_allowed rest"
  "\<lambda>s xs. \<exists>r. session_rel B i fh s r \<and> array_rel rest r xs"
  "\<lambda>s. blockset_laws B \<and> enumerates iter \<and> bs_ok B (fs_io s)" "(=)"
proof unfold_locales
  fix s xs oper
  assume "\<exists>r. session_rel B i fh s r \<and> array_rel rest r xs" and allowed: "array_allowed rest oper xs"
    and good: "blockset_laws B \<and> enumerates iter \<and> bs_ok B (fs_io (fst (session_step B iter i fh oper s)))"
  then obtain r where r: "session_rel B i fh s r" "array_rel rest r xs" by blast
  note array = session_array [OF r(2) allowed]
  from session_sim.step_rel [OF r(1) array(1) good] array(2,3)
  show "(\<exists>r. session_rel B i fh (fst (session_step B iter i fh oper s)) r \<and> array_rel rest r (fst (array_spec oper xs))) \<and>
      snd (session_step B iter i fh oper s) = snd (array_spec oper xs)" by auto
qed (rule session_sim.good_before)

text \<open>
  C5. A new file behaves as an array of bytes: for every sequence of writes, reads, flushes and resizes
  through the handle that \<^verbatim>\<open>create\<close> returned, at any offsets and in either write mode, every result is the one
  of the operation on a byte array; closing the handle succeeds, and a later read of any range
  returns the bytes of the array. Excluded are reads while the file is still empty, which the code
  answers with \<^verbatim>\<open>EIO\<close>, resizing the file to zero, after which the old bytes come back, writes of
  no bytes, and sizes beyond 64 bits.
\<close>

theorem file_session_refines:
  assumes "blockset_laws B" and "enumerates iter" and "fs_rel B s a" and "next_unused s a"
    and "new_name_ok p n a" and "a_next a \<noteq> u64_max" and "test_create B p n m umask u g s = (s1, Ok (i, fh))"
    and "run_allowed (array_allowed (total_size (a_inodes a))) array_spec opers []"
    and "xs = fst (run_all array_spec opers [])" and "total_size (a_inodes a) + length xs < 2 ^ 64"
    and "s2 = fst (run_all (session_step B iter i fh) opers s1)" and "s3 = fst (test_release B now i fh s2)"
    and "bs_ok B (fs_io s3)"
  shows "snd (run_all (session_step B iter i fh) opers s1) = snd (run_all array_spec opers []) \<and>
    snd (test_release B now i fh s2) = Ok () \<and>
    test_read B iter i off sz s3 = (s3, Ok (array_read xs (unat off) (unat sz)))"
proof -
  let ?rest = "total_size (a_inodes a)" and ?r0 = "fresh_session None 0 (total_size (a_inodes a))"
  have ok2: "bs_ok B (fs_io s2)" using op_grows_ok [OF test_release_grows [OF assms(1)]] assms(12,13) by blast
  have ok1: "bs_ok B (fs_io s1)" using session_sim.good_start [of B iter] ok2 assms(1,2,11) by blast
  have rel1: "session_rel B i fh s1 ?r0" using create_session [OF assms(1,3-7) ok1] by blast
  have array: "array_rel ?rest ?r0 []" by (simp add: array_rel_def fresh_session_def)
  have "(\<exists>r. session_rel B i fh s2 r \<and> array_rel ?rest r xs) \<and>
      list_all2 (=) (snd (run_all (session_step B iter i fh) opers s1)) (snd (run_all array_spec opers []))"
    using array_sim.runs_rel [where B = B and iter = iter and rest = ?rest, of i fh s1 "[]" opers] rel1 array ok2
      assms(1,2,8,9,11) by blast
  then obtain r where r: "session_rel B i fh s2 r" "array_rel ?rest r xs"
    and same: "snd (run_all (session_step B iter i fh) opers s1) = snd (run_all array_spec opers [])"
    by (auto simp: list_all2_eq)
  have "file_bytes (spec_release r) = xs"
    using r(2) by (auto simp: array_rel_def spec_release_def spec_commit_def file_bytes_def unwrap_or_default_def)
  moreover have "ss_rest r + length (ss_buf r) < 2 ^ 64" using r(2) assms(10) by (simp add: array_rel_def)
  ultimately show ?thesis
    using close_and_read [OF assms(1,2) r(1)] same assms(12,13) by (simp add: array_read_range)
qed

lemma demo_session_array:
  "run_allowed (array_allowed 0) array_spec demo_session []"
  "run_all array_spec demo_session [] = ([1, 7, 7, 7, 0, 0],
     [Ok (SWritten 3), Ok (SData [2, 3]), Ok SDone, Ok (SWritten 3), Ok SDone, Ok (SData [1, 7, 7, 7, 0, 0])])"
  by (simp_all add: demo_session_def array_allowed_def array_spec_def array_write_pwrite array_resize_resize
      array_read_def pwrite_def resize_def Let_def replicate_2)

theorem file_session_refines_witness:
  "\<exists>s1 fh s2 s3. test_create list_blockset 1 (str ''g'') 0x1A4 0 7 8 one_file = (s1, Ok (3, fh)) \<and>
     s2 = fst (run_all (session_step list_blockset id 3 fh) demo_session s1) \<and>
     snd (run_all (session_step list_blockset id 3 fh) demo_session s1) =
       [Ok (SWritten 3), Ok (SData [2, 3]), Ok SDone, Ok (SWritten 3), Ok SDone, Ok (SData [1, 7, 7, 7, 0, 0])] \<and>
     test_release list_blockset (6, 0) 3 fh s2 = (s3, Ok ()) \<and>
     snd (test_read list_blockset id 3 1 2 s3) = Ok [7, 7]"
proof -
  obtain s1 fh where create: "test_create list_blockset 1 (str ''g'') 0x1A4 0 7 8 one_file = (s1, Ok (3, fh))"
      "few_pushes 120 [] (fs_io s1)" by (rule demo_create)
  let ?s2 = "fst (run_all (session_step list_blockset id 3 fh) demo_session s1)"
  have "few_pushes 300 [] (fs_io ?s2)"
    by (rule few_pushes_trans [OF create(2) runs_few [where step = "session_step list_blockset id 3 fh", OF session_step_few]])
      (simp add: demo_session_def)
  then have "few_pushes 400 [] (fs_io (fst (test_release list_blockset (6, 0) 3 fh ?s2)))"
    by (rule few_pushes_trans [OF _ op_fewD [OF test_release_few]]) simp
  then have ok: "bs_ok list_blockset (fs_io (fst (test_release list_blockset (6, 0) 3 fh ?s2)))" by (rule few_ok) simp_all
  have "enumerates (id :: (u64, bytes open_file_state) btree \<Rightarrow> _)" by simp
  note facts = file_session_refines [OF list_blockset_laws this one_file_rel one_file_unused(1,2,3) create(1)
    _ refl _ refl refl ok, unfolded one_file_unused(4), OF demo_session_array(1), of 1 2, unfolded demo_session_array(2)]
  show ?thesis
    using facts create(1) by (auto simp: prod_eq_iff array_read_def)
qed

lemma writes_spec:
  assumes "ss_file r = None" "\<forall>(o', d) \<in> set ws. unat o' + length d < 2 ^ 64"
  shows "run_allowed session_allowed session_spec (map (\<lambda>(o', d). SWrite o' d) ws) r \<and>
    ss_buf (fst (run_all session_spec (map (\<lambda>(o', d). SWrite o' d) ws) r)) = fold (\<lambda>(o', d) buf. pwrite buf (unat o') d) ws (ss_buf r) \<and>
    ss_file (fst (run_all session_spec (map (\<lambda>(o', d). SWrite o' d) ws) r)) = None \<and>
    ss_rest (fst (run_all session_spec (map (\<lambda>(o', d). SWrite o' d) ws) r)) = ss_rest r"
  using assms
proof (induction ws arbitrary: r)
  case (Cons w ws)
  obtain o' d where w: "w = (o', d)" by (cases w)
  obtain b xs where st: "ref_write [] (o', d) (ss_streaming r, ss_buf r) = (b, xs)" by (metis surj_pair)
  have xs: "xs = pwrite (ss_buf r) (unat o') d" using ref_write_empty [of o' d "ss_streaming r" "ss_buf r"] st by simp
  have step: "session_spec (SWrite o' d) r = (r\<lparr>ss_streaming := b, ss_buf := xs\<rparr>, Ok (SWritten (of_nat (length d))))"
    using Cons.prems(1) st by (simp add: session_spec_def file_bytes_def unwrap_or_default_def)
  from Cons.IH [of "r\<lparr>ss_streaming := b, ss_buf := xs\<rparr>"] Cons.prems show ?case
    by (simp add: w step xs session_allowed_def split_def Let_def)
qed simp


text \<open>Three writes to a new file \<^verbatim>\<open>g\<close>, the second one not at the end.\<close>

definition demo_writes :: "(u64 \<times> bytes) list" where
  "demo_writes = [(0, [1, 2, 3]), (1, [9]), (4, [5])]"

lemma demo_written: obtains s1 fh s2 where
    "test_create list_blockset 1 (str ''g'') 0x1A4 0 7 8 one_file = (s1, Ok (3, fh))"
    "s2 = fst (run_all (session_step list_blockset id 3 fh) (map (\<lambda>(o', d). SWrite o' d) demo_writes) s1)"
    "few_pushes 400 [] (fs_io (fst (test_release list_blockset (6, 0) 3 fh s2)))"
proof -
  obtain s1 fh where create: "test_create list_blockset 1 (str ''g'') 0x1A4 0 7 8 one_file = (s1, Ok (3, fh))"
      "few_pushes 120 [] (fs_io s1)" by (rule demo_create)
  let ?s2 = "fst (run_all (session_step list_blockset id 3 fh) (map (\<lambda>(o', d). SWrite o' d) demo_writes) s1)"
  have "few_pushes 300 [] (fs_io ?s2)"
    by (rule few_pushes_trans [OF create(2) runs_few [where step = "session_step list_blockset id 3 fh", OF session_step_few]])
      (simp add: demo_writes_def)
  then have "few_pushes 400 [] (fs_io (fst (test_release list_blockset (6, 0) 3 fh ?s2)))"
    by (rule few_pushes_trans [OF _ op_fewD [OF test_release_few]]) simp
  then show thesis using that [OF create(1) refl] by blast
qed

lemma demo_writes_buf: "fold (\<lambda>(o', d) buf. pwrite buf (unat o') d) demo_writes [] = [1, 9, 3, 0, 5]"
  "\<forall>(o', d) \<in> set demo_writes. unat o' + length d < 2 ^ 64"
  by (simp_all add: demo_writes_def pwrite_def resize_def)


subsection \<open>Existing files\<close>

lemma open_session:
  assumes laws: "blockset_laws B" and rel: "file_rel B i s a r" and r: "ss_streaming r" "ss_buf r = []"
    and others: "\<forall>fh h. bt_get (fs_open_files s) fh = Some h \<longrightarrow> of_ino h = i \<longrightarrow> of_byte_count h = 0"
  shows "\<exists>s1 fh. test_open B now i O_WRONLY s = (s1, Ok (fh, True)) \<and> session_rel B i fh s1 r"
proof -
  have run: "test_open B now i O_WRONLY s = (fst (open_handle B i s), Ok (fs_next_fh s + 1, True))"
    by (simp add: test_open_def O_WRONLY_def O_ACCMODE_def O_RDWR_def O_TRUNC_def and_then_def open_handle_def
        truncate_or_close_def ret_def Let_def)
  show ?thesis using open_handle_session(1) [OF laws rel r] others by (auto simp: run)
qed

text \<open>The file \<^verbatim>\<open>g\<close> with five bytes, closed.\<close>

lemma demo_existing: obtains s a where
    "file_rel list_blockset 3 s a (fresh_session (Some [1, 9, 3, 0, 5]) 5 0)" "few_pushes 400 [] (fs_io s)"
    "\<forall>fh h. bt_get (fs_open_files s) fh = Some h \<longrightarrow> of_ino h = 3 \<longrightarrow> of_byte_count h = 0"
proof -
  obtain s1 fh s2 where run: "test_create list_blockset 1 (str ''g'') 0x1A4 0 7 8 one_file = (s1, Ok (3, fh))"
    "s2 = fst (run_all (session_step list_blockset id 3 fh) (map (\<lambda>(o', d). SWrite o' d) demo_writes) s1)"
    "few_pushes 400 [] (fs_io (fst (test_release list_blockset (6, 0) 3 fh s2)))" by (rule demo_written)
  let ?s3 = "fst (test_release list_blockset (6, 0) 3 fh s2)" and ?init = "fresh_session None 0 0"
  let ?ops = "map (\<lambda>(o', d). SWrite o' d) demo_writes"
  have iter: "enumerates (id :: (u64, bytes open_file_state) btree \<Rightarrow> _)" by simp
  have ok3: "bs_ok list_blockset (fs_io ?s3)" by (rule few_ok [OF run(3)]) simp_all
  have ok2: "bs_ok list_blockset (fs_io s2)" using op_grows_ok [OF test_release_grows [OF list_blockset_laws]] ok3 by blast
  have good: "blockset_laws list_blockset \<and> enumerates (id :: (u64, bytes open_file_state) btree \<Rightarrow> _) \<and> bs_ok list_blockset (fs_io s2)"
    using list_blockset_laws iter ok2 by blast
  then have ok1: "bs_ok list_blockset (fs_io s1)" unfolding run(2) using session_sim.good_start by blast
  have rel1: "session_rel list_blockset 3 fh s1 ?init"
    using create_session [OF list_blockset_laws one_file_rel one_file_unused(1,2,3) run(1) ok1] one_file_unused(4) by simp
  have spec: "run_allowed session_allowed session_spec ?ops ?init" "ss_buf (fst (run_all session_spec ?ops ?init)) = [1, 9, 3, 0, 5]"
      "ss_rest (fst (run_all session_spec ?ops ?init)) = 0"
    using writes_spec [of ?init demo_writes] demo_writes_buf by (simp_all add: fresh_session_def)
  have "session_rel list_blockset 3 fh s2 (fst (run_all session_spec ?ops ?init))"
    using session_sim.runs_rel [OF rel1 spec(1)] good unfolding run(2) by blast
  note rel = this session_release [OF list_blockset_laws this _ ok3] spec(2,3)
  then obtain a where a: "bt_get (fs_open_files ?s3) = (bt_get (fs_open_files s2))(fh := None)"
      "file_rel list_blockset 3 ?s3 a (spec_release (fst (run_all session_spec ?ops ?init)))" by auto
  have "file_rel list_blockset 3 ?s3 a (fresh_session (Some [1, 9, 3, 0, 5]) 5 0)"
    using a(2) spec(2,3) by (simp add: file_rel_def spec_release_def spec_commit_def file_bytes_def unwrap_or_default_def fresh_session_def)
  moreover have "only_writer 3 fh s2" using rel(1) by (simp add: session_rel_def)
  ultimately show thesis using that run(3) a(1) by (auto simp: only_writer_def)
qed

lemma demo_open:
  assumes "file_rel list_blockset 3 s a (fresh_session c n rest)" "few_pushes 400 [] (fs_io s)"
    and "\<forall>fh h. bt_get (fs_open_files s) fh = Some h \<longrightarrow> of_ino h = 3 \<longrightarrow> of_byte_count h = 0"
  obtains s1 fh where "test_open list_blockset (7, 0) 3 O_WRONLY s = (s1, Ok (fh, True))" "few_pushes 400 [] (fs_io s1)"
proof -
  have "fs_io (fst (test_open list_blockset (7, 0) 3 O_WRONLY s)) = fs_io s"
    by (simp add: test_open_def O_WRONLY_def O_ACCMODE_def O_RDWR_def O_TRUNC_def and_then_def open_handle_def
        truncate_or_close_def ret_def Let_def)
  moreover obtain s1 fh where "test_open list_blockset (7, 0) 3 O_WRONLY s = (s1, Ok (fh, True))"
    using open_session [OF list_blockset_laws assms(1) _ _ assms(3), of "(7, 0)"] by (auto simp: fresh_session_def)
  ultimately show thesis using that assms(2) by simp
qed

text \<open>
  C15. Writing at the start of an existing file through a newly opened handle replaces the whole file:
  of the old contents \<open>c\<close> nothing is left, also beyond the bytes written. (A file opened without
  \<^verbatim>\<open>O_TRUNC\<close> keeps the bytes that are not overwritten.)
\<close>

theorem overwrite_loses_rest:
  assumes "blockset_laws B" and "enumerates iter" and "file_rel B i s a (fresh_session (Some c) n rest)"
    and "\<forall>fh h. bt_get (fs_open_files s) fh = Some h \<longrightarrow> of_ino h = i \<longrightarrow> of_byte_count h = 0"
    and "data \<noteq> []" and "rest + length data < 2 ^ 64" and "test_open B now i O_WRONLY s = (s1, Ok (fh, w))"
    and "s2 = fst (test_write B fh 0 data s1)" and "s3 = fst (test_release B now i fh s2)" and "bs_ok B (fs_io s3)"
  shows "test_read B iter i off sz s3 = (s3, Ok (sub_range data off sz))"
proof -
  let ?r = "fresh_session (Some c) n rest"
  have "session_rel B i fh s1 ?r"
    using open_session [OF assms(1,3) _ _ assms(4), of now] assms(7) by (auto simp: fresh_session_def)
  moreover have ok2: "bs_ok B (fs_io s2)" using op_grows_ok [OF test_release_grows [OF assms(1)]] assms(9,10) by blast
  ultimately have "session_rel B i fh s2 (?r\<lparr>ss_streaming := True, ss_buf := data\<rparr>)"
    using session_write [OF assms(1), of i fh s1 ?r 0 data True data] assms(6,8) by (simp add: ref_write_def fresh_session_def)
  from close_and_read [OF assms(1,2) this] assms(5,6,9,10) show ?thesis
    by (simp add: fresh_session_def spec_release_def spec_commit_def file_bytes_def unwrap_or_default_def)
qed

theorem overwrite_loses_rest_witness:
  "\<exists>s a s1 fh s2 s3. file_rel list_blockset 3 s a (fresh_session (Some [1, 9, 3, 0, 5]) 5 0) \<and>
     test_open list_blockset (7, 0) 3 O_WRONLY s = (s1, Ok (fh, True)) \<and> s2 = fst (test_write list_blockset fh 0 [8] s1) \<and>
     s3 = fst (test_release list_blockset (7, 0) 3 fh s2) \<and> snd (test_read list_blockset id 3 0 9 s3) = Ok [8]"
proof -
  obtain s a where s: "file_rel list_blockset 3 s a (fresh_session (Some [1, 9, 3, 0, 5]) 5 0)" "few_pushes 400 [] (fs_io s)"
    "\<forall>fh h. bt_get (fs_open_files s) fh = Some h \<longrightarrow> of_ino h = 3 \<longrightarrow> of_byte_count h = 0" by (rule demo_existing)
  obtain s1 fh where o: "test_open list_blockset (7, 0) 3 O_WRONLY s = (s1, Ok (fh, True))" "few_pushes 400 [] (fs_io s1)"
    by (rule demo_open [OF s])
  let ?s3 = "fst (test_release list_blockset (7, 0) 3 fh (fst (test_write list_blockset fh 0 [8] s1)))"
  have "few_pushes 418 [] (fs_io ?s3)"
    by (rule few_pushes_trans [OF few_pushes_trans [OF o(2) op_fewD [OF test_write_few] order_refl] op_fewD [OF test_release_few]]) simp
  then have ok: "bs_ok list_blockset (fs_io ?s3)" by (rule few_ok) simp_all
  have iter: "enumerates (id :: (u64, bytes open_file_state) btree \<Rightarrow> _)" by simp
  have "test_read list_blockset id 3 0 9 ?s3 = (?s3, Ok (sub_range [8] 0 9))"
    by (rule overwrite_loses_rest [OF list_blockset_laws iter s(1,3) _ _ o(1) refl refl ok]) simp_all
  then show ?thesis using s(1) o(1) by (auto simp: sub_range_def slice_def)
qed

text \<open>
  C17. Truncating an existing file to length 0 through a newly opened handle and closing it keeps the old
  contents \<open>c\<close>: the size in the inode is 0, and a read still returns the bytes of \<open>c\<close>.
\<close>

theorem truncate_keeps_contents:
  assumes "blockset_laws B" and "enumerates iter" and "file_rel B i s a (fresh_session (Some c) n rest)"
    and "\<forall>fh h. bt_get (fs_open_files s) fh = Some h \<longrightarrow> of_ino h = i \<longrightarrow> of_byte_count h = 0"
    and "rest < 2 ^ 64" and "test_open B now i O_WRONLY s = (s1, Ok (fh, w))"
    and "s2 = fst (test_setattr_size B now i (Some fh) 0 s1)" and "s3 = fst (test_release B now i fh s2)" and "bs_ok B (fs_io s3)"
  shows "map_sum id size (get_inode B i (fs_meta s3)) = Ok 0 \<and> test_read B iter i off sz s3 = (s3, Ok (sub_range c off sz))"
proof -
  let ?r = "fresh_session (Some c) n rest"
  have "session_rel B i fh s1 ?r"
    using open_session [OF assms(1,3) _ _ assms(4), of now] assms(6) by (auto simp: fresh_session_def)
  moreover have ok2: "bs_ok B (fs_io s2)" using op_grows_ok [OF test_release_grows [OF assms(1)]] assms(8,9) by blast
  ultimately have rel2: "session_rel B i fh s2 (spec_resize 0 ?r)"
    using session_resize [OF assms(1), of i fh s1 ?r 0 now] assms(5,7) by (simp add: fresh_session_def)
  have fits: "ss_rest (spec_resize 0 ?r) + length (ss_buf (spec_resize 0 ?r)) < 2 ^ 64"
    using assms(5) by (simp add: spec_resize_def fresh_session_def)
  have r3: "spec_release (spec_resize 0 ?r) = fresh_session (Some c) 0 rest"
    by (simp add: spec_resize_def fresh_session_def spec_release_def spec_commit_def file_bytes_def unwrap_or_default_def)
  from session_release [OF assms(1) rel2 fits, of now] assms(8,9) obtain a' where "file_rel B i s3 a' (fresh_session (Some c) 0 rest)"
    unfolding r3 by blast
  then have "map_sum id size (get_inode B i (fs_meta s3)) = Ok 0"
    using get_inode_at [of B "fs_meta s3" a' i] by (auto simp: file_rel_def fs_rel_def fresh_session_def)
  moreover from close_and_read [OF assms(1,2) rel2 fits] assms(8,9)
  have "test_read B iter i off sz s3 = (s3, Ok (sub_range c off sz))"
    by (simp add: r3) (simp add: fresh_session_def file_bytes_def unwrap_or_default_def)
  ultimately show ?thesis by blast
qed

theorem truncate_keeps_contents_witness:
  "\<exists>s a s1 fh s2 s3. file_rel list_blockset 3 s a (fresh_session (Some [1, 9, 3, 0, 5]) 5 0) \<and>
     test_open list_blockset (7, 0) 3 O_WRONLY s = (s1, Ok (fh, True)) \<and>
     s2 = fst (test_setattr_size list_blockset (7, 0) 3 (Some fh) 0 s1) \<and>
     s3 = fst (test_release list_blockset (7, 0) 3 fh s2) \<and>
     map_sum id size (get_inode list_blockset 3 (fs_meta s3)) = Ok 0 \<and>
     snd (test_read list_blockset id 3 0 9 s3) = Ok [1, 9, 3, 0, 5]"
proof -
  obtain s a where s: "file_rel list_blockset 3 s a (fresh_session (Some [1, 9, 3, 0, 5]) 5 0)" "few_pushes 400 [] (fs_io s)"
    "\<forall>fh h. bt_get (fs_open_files s) fh = Some h \<longrightarrow> of_ino h = 3 \<longrightarrow> of_byte_count h = 0" by (rule demo_existing)
  obtain s1 fh where o: "test_open list_blockset (7, 0) 3 O_WRONLY s = (s1, Ok (fh, True))" "few_pushes 400 [] (fs_io s1)"
    by (rule demo_open [OF s])
  let ?s3 = "fst (test_release list_blockset (7, 0) 3 fh (fst (test_setattr_size list_blockset (7, 0) 3 (Some fh) 0 s1)))"
  have "few_pushes 440 [] (fs_io ?s3)"
    by (rule few_pushes_trans [OF few_pushes_trans [OF o(2) op_fewD [OF resize_few] order_refl] op_fewD [OF test_release_few]]) simp
  then have ok: "bs_ok list_blockset (fs_io ?s3)" by (rule few_ok) simp_all
  have iter: "enumerates (id :: (u64, bytes open_file_state) btree \<Rightarrow> _)" by simp
  have "map_sum id size (get_inode list_blockset 3 (fs_meta ?s3)) = Ok 0 \<and>
      test_read list_blockset id 3 0 9 ?s3 = (?s3, Ok (sub_range [1, 9, 3, 0, 5] 0 9))"
    by (rule truncate_keeps_contents [OF list_blockset_laws iter s(1,3) _ o(1) refl refl ok]) simp
  then show ?thesis using s(1) o(1) by (auto simp: sub_range_def slice_def)
qed

subsection \<open>Symbolic links\<close>

lemma created_file_rel:
  assumes laws: "blockset_laws B" and rel: "fs_rel B s a" and name: "new_name_ok p n a" "a_next a \<noteq> u64_max"
    and new: "resolve p n a = Err ENOENT" "n \<notin> dots" and unused: "a_manifests a (a_next a) = None"
    and fits: "total_size (a_inodes a) + unat (size m) < 2 ^ 64" and ok: "bs_ok B (fs_io (fst (create_linked B p n m s)))"
  shows "\<exists>a0. snd (create_linked B p n m s) = Ok (a_next a) \<and>
    file_rel B (a_next a) (fst (create_linked B p n m s)) a0 (fresh_session None (size m) (total_size (a_inodes a)))"
proof -
  let ?i = "a_next a"
  have "refines B (create_linked B p n m) (spec_create p n m) a"
    using name fits by (intro create_refines [OF laws, where i = 0]) (simp_all add: op_allowed_def new_name_ok_def)
  note spec = refinesD [OF this rel ok]
  from new obtain dir where dir: "a_dirs a p = Some dir" "dir n = None" by (auto simp: resolve_def split: option.splits)
  have run: "spec_create p n m a = (put_inode (m\<lparr>ino := ?i\<rparr>) (a\<lparr>a_next := ?i + 1, a_dirs := (a_dirs a)(p \<mapsto> dir(n \<mapsto> ?i))\<rparr>), Ok ?i)"
    using dir new(2) by (simp add: spec_create_def add_name_def Let_def)
  have "a_inodes a ?i = None" using fs_rel_inode [OF rel, of ?i] by (cases "a_inodes a ?i") auto
  then have "(a_inodes a)(?i := None) = a_inodes a" by (simp add: fun_upd_idem)
  then have "file_rel B ?i (fst (create_linked B p n m s)) (fst (spec_create p n m a)) (fresh_session None (size m) (total_size (a_inodes a)))"
    using spec(1) unused
    by (simp add: run file_rel_def fresh_session_def file_has_def file_bytes_def unwrap_or_default_def put_inode_def)
  then show ?thesis using spec(2) by (auto simp: run)
qed

lemma symlink_tail:
  "and_then (on_meta as_eio (set_manifest B i [d])) (\<lambda>_. and_then (modify_meta (increment_refcount d)) (\<lambda>_.
     and_then f (\<lambda>_. ret i))) s =
   and_then (and_then (commit_digest B i None d) (\<lambda>_. and_then (\<lambda>s. (s, Ok ())) (\<lambda>_. f))) (\<lambda>_. ret i) s"
  by (simp add: commit_digest_def and_then_def modify_meta_def decrement_opt_def on_meta_def split_def Let_def split: sum.split)

text \<open>
  C11. \<^verbatim>\<open>readlink\<close> returns the target that \<^verbatim>\<open>symlink\<close> was given, and the size of the link is the length of
  the target.
\<close>

theorem symlink_roundtrip:
  assumes "blockset_laws B" and "fs_rel B s a" and "new_name_ok p n a" and "a_next a \<noteq> u64_max"
    and "resolve p n a = Err ENOENT" and "n \<notin> dots" and "a_manifests a (a_next a) = None" and "utf8_valid target"
    and "total_size (a_inodes a) + length target < 2 ^ 64" and "s' = fst (simulate_symlink B p n target u g s)" and "bs_ok B (fs_io s')"
  shows "snd (simulate_symlink B p n target u g s) = Ok (a_next a) \<and>
    simulate_readlink B (a_next a) s' = (s', Ok target) \<and>
    map_sum id size (get_inode B (a_next a) (fs_meta s')) = Ok (of_nat (length target))"
proof -
  let ?i = "a_next a" and ?n = "of_nat (length target) :: u64"
  define m where "m = \<lparr>ino = 0, mode = S_IFLNK OR 0x1FF, uid = u, gid = g, nlinks = 1, size = ?n,
    mtime_sec = 0, mtime_nsec = 0, ctime_sec = 0, ctime_nsec = 0\<rparr>"
  have n: "unat ?n = length target" using assms(9) by (simp add: unat_of_nat)
  let ?tail = "\<lambda>d i. and_then (commit_digest B i None d) (\<lambda>_. and_then (\<lambda>s. (s, Ok ())) (\<lambda>_. store_size B id i ?n))"
  define s0 where "s0 = fst (create_linked B p n m s)"
  have run: "simulate_symlink B p n target u g s = (case snd (create_linked B p n m s) of Err e \<Rightarrow> (s0, Err e)
      | Ok i \<Rightarrow> (let (io, d) = push_all B (fs_io s0) target in and_then (?tail d i) (\<lambda>_. ret i) (set_io io s0)))"
    by (simp add: simulate_symlink_def m_def [symmetric] Let_def symlink_tail and_then_def [of "create_linked B p n m"] s0_def split_def split: sum.split)
  obtain io d where push: "push_all B (fs_io s0) target = (io, d)" by (cases "push_all B (fs_io s0) target")
  define s1 where "s1 = set_io io s0"
  have s': "s' = (case snd (create_linked B p n m s) of Err e \<Rightarrow> s0 | Ok i \<Rightarrow> fst (?tail d i s1))"
    by (simp add: assms(10) run push and_then_ret s1_def split: sum.split)
  have grows0: "bs_grows B (fs_io s0) (fs_io s1)" using push_all_grows [OF assms(1) push] by (simp add: s1_def)
  have "bs_grows B (fs_io s0) (fs_io (fst (?tail d i s1)))" for i
    by (rule bs_grows_trans [OF grows0 flush_tail_grows [OF assms(1) refl]])
  then have "bs_grows B (fs_io s0) (fs_io s')" by (simp add: s' bs_grows_refl split: sum.split)
  then have ok0: "bs_ok B (fs_io s0)" by (rule bs_growsD(1) [OF _ assms(11)])
  obtain a0 where a0: "snd (create_linked B p n m s) = Ok ?i" "file_rel B ?i s0 a0 (fresh_session None ?n (total_size (a_inodes a)))"
    using created_file_rel [OF assms(1-7), of m] ok0 assms(9) n unfolding s0_def by (auto simp: m_def)
  have s'_eq: "s' = fst (?tail d ?i s1)" by (simp add: s' a0(1))
  have "bs_grows B (fs_io s1) (fs_io s')" unfolding s'_eq by (rule flush_tail_grows [OF assms(1) refl])
  then have io: "bs_ok B io" using bs_growsD(1) [OF _ assms(11)] by (simp add: s1_def)
  have rel1: "file_rel B ?i s1 a0 (fresh_session None ?n (total_size (a_inodes a)))"
    unfolding s1_def by (rule file_rel_io [OF a0(2) push_all_grows [OF assms(1) push] io])
  have "storage_get B (fs_io s1) d = Some target" using push_all_get [OF assms(1) push io] by (simp add: s1_def)
  from commit_and_size [OF assms(1) rel1 this _ disjI1 [OF refl] refl, where touch = id and old = None] assms(9,11)
  obtain a' where a': "snd (?tail d ?i s1) = Ok ()" "file_rel B ?i s' a' (fresh_session (Some target) ?n (total_size (a_inodes a)))"
    unfolding s'_eq by (auto simp: fresh_session_def)
  have "snd (simulate_symlink B p n target u g s) = Ok ?i"
    using a'(1) by (simp add: run a0(1) push and_then_ret s1_def)
  moreover have store: "store_rel B (fs_meta s') a'" using a'(2) by (simp add: file_rel_def fs_rel_def)
  then have "simulate_readlink B ?i s' = (s', Ok target)"
    using a'(2) assms(8)
    by (auto simp: simulate_readlink_def and_then_def ask_meta_def map_errno_def get_manifest_at file_rel_def fresh_session_def
        file_has_def file_bytes_def unwrap_or_default_def from_utf8_def split: option.splits list.splits)
  moreover have "map_sum id size (get_inode B ?i (fs_meta s')) = Ok ?n"
    using a'(2) get_inode_at [OF store, of ?i] by (auto simp: file_rel_def fresh_session_def)
  ultimately show ?thesis by blast
qed

lemma symlink_few: "op_few 100 (simulate_symlink list_blockset p n target u g)"
proof -
  have tail: "op_few 25 (\<lambda>s. let (io, d) = push_all list_blockset (fs_io s) target in
      and_then (on_meta as_eio (set_manifest list_blockset i [d])) (\<lambda>_. and_then (modify_meta (increment_refcount d)) (\<lambda>_.
      and_then (store_size list_blockset id i sz) (\<lambda>_. ret i))) (set_io io s))" for i sz
  proof -
    have "few_pushes 25 (fs_io s) (fs_io (fst (and_then (and_then (commit_digest list_blockset i None d) (\<lambda>_.
        and_then (\<lambda>s. (s, Ok ())) (\<lambda>_. store_size list_blockset id i sz))) (\<lambda>_. ret i) (set_io io s))))"
      if "push_all list_blockset (fs_io s) target = (io, d)" for s :: "(bytes list, bytes) fs" and io d
      by (rule after_io_few [OF op_few_and_then [OF handle_tail_few op_few_simple(1)] push_all_few [OF that]]) simp_all
    then show ?thesis by (simp add: op_few_def symlink_tail split: prod.split)
  qed
  show ?thesis unfolding simulate_symlink_def create_linked_undo Let_def [where s = "of_nat (length target)"]
      Let_def [where s = "\<lparr>ino = _, mode = _, uid = _, gid = _, nlinks = _, size = _, mtime_sec = _, mtime_nsec = _, ctime_sec = _, ctime_nsec = _\<rparr>"]
    by (rule op_few_mono, (rule tail few_intros)+) simp
qed

theorem symlink_roundtrip_witness:
  "\<exists>s'. s' = fst (simulate_symlink list_blockset 1 (str ''g'') (str ''f/g'') 7 8 one_file) \<and>
     snd (simulate_readlink list_blockset 3 s') = Ok (str ''f/g'') \<and> map_sum id size (get_inode list_blockset 3 (fs_meta s')) = Ok 3"
proof -
  let ?s' = "fst (simulate_symlink list_blockset 1 (str ''g'') (str ''f/g'') 7 8 one_file)"
  have "few_pushes 204 [] (fs_io ?s')"
    by (rule few_pushes_trans [OF one_file_few op_fewD [OF symlink_few]]) simp
  then have ok: "bs_ok list_blockset (fs_io ?s')" by (rule few_ok) simp_all
  have "snd (simulate_symlink list_blockset 1 (str ''g'') (str ''f/g'') 7 8 one_file) = Ok (a_next one_file_maps) \<and>
    simulate_readlink list_blockset (a_next one_file_maps) ?s' = (?s', Ok (str ''f/g'')) \<and>
    map_sum id size (get_inode list_blockset (a_next one_file_maps) (fs_meta ?s')) = Ok (of_nat (length (str ''f/g'')))"
    by (rule symlink_roundtrip [OF list_blockset_laws one_file_rel one_file_unused(2,3) one_file_maps_facts(6) demo_strs(4) _ _ _ refl ok])
      (simp_all add: one_file_maps_facts one_file_unused(4) str_def)
  then show ?thesis by (simp add: one_file_maps_facts(5)) (simp add: str_def)
qed

end
