(* ===== verification/Fuse.thy ===== *)
theory Fuse
  imports Handlers Fs_Properties
begin

unbundle bit_operations_syntax

section \<open>What the kernel sees\<close>

text \<open>
  Properties of the FUSE callbacks: directory listings in pieces, attributes, extended attributes, and
  that the requests of the kernel act on names as the operations of the specification do.
\<close>

lemmas reply_defs = replying_def handled_def map_prod_def

subsection \<open>Directory listings\<close>

text \<open>
  A listing of a directory by repeated requests, each going on at the offset of the last entry of the
  answer before, as the kernel does; it stops at an empty answer or after \<open>n\<close> requests.
\<close>

primrec read_dir ::
  "('io, 'st) blockset \<Rightarrow> 'st world \<Rightarrow> u64 \<Rightarrow> nat \<Rightarrow> u64 \<Rightarrow> ('io, 'st) fs \<Rightarrow> dir_reply list" where
  "read_dir B W i 0 offset s = []"
| "read_dir B W i (Suc n) offset s =
     (case fuse_readdir B W i offset s of
        (s, Some (ReplyDirectory (e # es))) \<Rightarrow> (e # es) @ read_dir B W i n (fst (snd (last (e # es)))) s
      | _ \<Rightarrow> [])"

primrec numbered :: "u64 \<Rightarrow> (u64 \<times> file_type \<times> rstring) list \<Rightarrow> dir_reply list" where
  "numbered k [] = []"
| "numbered k (e # es) = (fst e, k, snd e) # numbered (k + 1) es"

lemma numbered_append: "numbered k (es @ es') = numbered k es @ numbered (k + of_nat (length es)) es'"
  by (induction es arbitrary: k) (simp_all add: algebra_simps)

lemma numbered_eq_Nil [simp]: "numbered k es = [] \<longleftrightarrow> es = []"
  by (cases es) simp_all

lemma numbered_last: "es \<noteq> [] \<Longrightarrow> fst (snd (last (numbered k es))) = k + of_nat (length es) - 1"
proof (induction es arbitrary: k)
  case (Cons e es)
  then show ?case by (cases "es = []") simp_all
qed simp

lemma strip_numbered: "map (\<lambda>(i, _, kn). (i, kn)) (numbered k es) = es"
  by (induction es arbitrary: k) (simp_all add: prod_eq_iff)

lemma add_entries_take:
  "\<exists>j. add_entries full k added es = added @ numbered k (take j es) \<and> (es \<noteq> [] \<longrightarrow> (\<forall>e. \<not> full added e) \<longrightarrow> 0 < j)"
proof (induction es arbitrary: k added)
  case Nil
  then show ?case by (intro exI [of _ 0]) simp
next
  case (Cons e es)
  obtain i kind name where e: "e = (i, kind, name)" by (cases e)
  show ?case
  proof (cases "full added (i, k, kind, name)")
    case True
    then show ?thesis by (intro exI [of _ 0]) (auto simp: e)
  next
    case False
    from Cons.IH [of "k + 1" "added @ [(i, k, kind, name)]"] obtain j where
      "add_entries full (k + 1) (added @ [(i, k, kind, name)]) es = (added @ [(i, k, kind, name)]) @ numbered (k + 1) (take j es)"
      by blast
    then show ?thesis using False by (intro exI [of _ "Suc j"]) (simp add: e)
  qed
qed

lemma fuse_readdir_form:
  assumes "list_directory B i (fs_meta s) = Ok l"
  shows "fuse_readdir B W i offset s = (s, Some (ReplyDirectory (add_entries (w_full W) (offset + 1) []
    (map (\<lambda>e. (de_ino e, entry_kind B (de_ino e) (fs_meta s), de_name e)) (drop (unat offset) l)))))"
  by (simp add: fuse_readdir_def handle_readdir_def reply_defs test_readdir_def and_then_def ask_meta_def map_errno_def
      of_readdir_def assms)

lemma read_dir_rest:
  assumes list: "list_directory B i (fs_meta s) = Ok l" and room: "\<And>e. \<not> w_full W [] e" and fits: "length l < 2 ^ 64"
    and es: "es = map (\<lambda>e. (de_ino e, entry_kind B (de_ino e) (fs_meta s), de_name e)) l"
    and k: "k \<le> length l" "length l < k + n"
  shows "read_dir B W i n (of_nat k) s = numbered (of_nat k + 1) (drop k es)"
  using k
proof (induction n arbitrary: k)
  case (Suc n)
  have unat: "unat (of_nat k :: u64) = k" using Suc.prems(1) fits by (simp add: unat_of_nat)
  obtain j where j: "add_entries (w_full W) (of_nat k + 1) [] (drop k es) = numbered (of_nat k + 1) (take j (drop k es))"
      "drop k es \<noteq> [] \<longrightarrow> 0 < j"
    using add_entries_take [of "w_full W" "of_nat k + 1" "[]" "drop k es"] room by auto
  have run: "fuse_readdir B W i (of_nat k) s = (s, Some (ReplyDirectory (numbered (of_nat k + 1) (take j (drop k es)))))"
    using fuse_readdir_form [OF list, of W "of_nat k"] by (simp add: unat es drop_map j(1) [unfolded es drop_map])
  show ?case
  proof (cases "drop k es = []")
    case True
    then show ?thesis by (simp add: run)
  next
    case False
    define m where "m = min j (length es - k)"
    have len: "length es = length l" by (simp add: es)
    have m: "0 < m" "k + m \<le> length l" "take j (drop k es) = take m (drop k es)" "length (take m (drop k es)) = m"
      using False j(2) by (auto simp: m_def len min_def)
    then have some: "take m (drop k es) \<noteq> []" by auto
    then obtain e' r where e': "numbered (of_nat k + 1) (take m (drop k es)) = e' # r"
      by (cases "numbered (of_nat k + 1) (take m (drop k es))") simp_all
    have next_k: "fst (snd (last (e' # r))) = of_nat (k + m)"
      using numbered_last [OF some, of "of_nat k + 1"] by (simp add: e' m(4) del: length_take length_drop)
    have "read_dir B W i (Suc n) (of_nat k) s = (e' # r) @ read_dir B W i n (of_nat (k + m)) s"
      using next_k by (simp add: run m(3) e')
    also have "read_dir B W i n (of_nat (k + m)) s = numbered (of_nat (k + m) + 1) (drop (k + m) es)"
      using Suc.IH [of "k + m"] Suc.prems m(1,2) by simp
    also have "(e' # r) @ \<dots> = numbered (of_nat k + 1) (take m (drop k es) @ drop m (drop k es))"
      by (simp only: numbered_append m(4) e') (simp add: algebra_simps)
    finally show ?thesis by (simp only: append_take_drop_id)
  qed
qed simp

lemma list_directory_at:
  assumes "store_rel B m a" "a_dirs a i = Some dir" "bs_ok B (ds_io m)"
  obtains l where "list_directory B i m = Ok l" "lists_dir l dir"
  using list_directory_refines [OF assms(1), of i] assms(2,3)
  by (cases "list_directory B i m") (auto simp: refine_simps same_resp_def)

text \<open>
  C21. Listing a directory in pieces is complete: when an empty reply buffer has room for one entry, more
  requests than the directory has entries report every entry exactly once, with its inode number
  and the kind of that inode, however many entries each reply takes.
\<close>

theorem readdir_complete:
  assumes "fs_rel B s a" and "bs_ok B (fs_io s)" and "a_dirs a i = Some dir" and "card (dom dir) < 2 ^ 64"
    and "\<forall>e. \<not> w_full W [] e" and "card (dom dir) < n"
  shows "distinct (map (\<lambda>(_, _, _, name). name) (read_dir B W i n 0 s)) \<and>
    map_of (map (\<lambda>(j, _, _, name). (name, j)) (read_dir B W i n 0 s)) = dir \<and>
    (\<forall>(j, _, kind, _) \<in> set (read_dir B W i n 0 s).
       kind = (case a_inodes a j of None \<Rightarrow> RegularFile | Some m \<Rightarrow> mode_kind (mode m)))"
proof -
  have store: "store_rel B (fs_meta s) a" using assms(1) by (simp add: fs_rel_def)
  obtain l where l: "list_directory B i (fs_meta s) = Ok l" "lists_dir l dir"
    by (rule list_directory_at [OF store assms(3,2)])
  define es where "es = map (\<lambda>e. (de_ino e, entry_kind B (de_ino e) (fs_meta s), de_name e)) l"
  have names: "distinct (map de_name l)" "map_of (map (\<lambda>e. (de_name e, de_ino e)) l) = dir"
    using l(2) by (auto simp: lists_dir_def)
  have "dom dir = de_name ` set l" unfolding names(2) [symmetric] by (simp add: dom_map_of_conv_image_fst image_image)
  then have len: "card (dom dir) = length l" using distinct_card [OF names(1)] by simp
  have all: "map (\<lambda>(i, _, kn). (i, kn)) (read_dir B W i n 0 s) = es"
    using read_dir_rest [OF l(1) _ _ es_def, of W 0 n] assms(4,5,6) by (simp add: len strip_numbered)
  have "map (\<lambda>(_, _, _, name). name) (read_dir B W i n 0 s) = map (\<lambda>(_, _, name). name) es"
    "map (\<lambda>(j, _, _, name). (name, j)) (read_dir B W i n 0 s) = map (\<lambda>(j, _, name). (name, j)) es"
    unfolding all [symmetric] by (simp_all add: split_def)
  moreover have "\<forall>(j, _, kind, _) \<in> set (read_dir B W i n 0 s). kind = entry_kind B j (fs_meta s)"
  proof -
    have "\<forall>(j, kind, _) \<in> set es. kind = entry_kind B j (fs_meta s)" by (auto simp: es_def)
    then show ?thesis unfolding all [symmetric] by (auto simp: split_def)
  qed
  moreover have "entry_kind B j (fs_meta s) = (case a_inodes a j of None \<Rightarrow> RegularFile | Some m \<Rightarrow> mode_kind (mode m))" for j
    by (simp add: entry_kind_def get_inode_at [OF store] split: option.split)
  ultimately show ?thesis using names by (simp add: es_def comp_def)
qed

lemma fst_replying: "fst (replying f (handled ok err m) s) = fst (m s)"
  by (simp add: reply_defs split_def split: sum.split fs_fault.split)

lemma served_few: "op_few k m \<Longrightarrow> few_pushes k (fs_io s) (fs_io (fst (replying f (handled ok err m) s)))"
  by (simp add: fst_replying op_fewD)

definition demo_world :: "bytes world" where
  "demo_world = \<lparr>w_uid = 7, w_gid = 8, w_now = (9, 0), w_statvfs = (\<lambda>_. None), w_statfs = (\<lambda>_. None), w_wal = no_fault,
     w_full = (\<lambda>added _. added \<noteq> []), w_iter = id\<rparr>"

lemma one_file_ok: "bs_ok list_blockset (fs_io one_file)"
  by (rule few_ok [OF one_file_few]) simp_all

lemma one_file_root: "a_dirs one_file_maps 1 = Some [str ''.'' \<mapsto> 1, str ''..'' \<mapsto> 1, str ''f'' \<mapsto> 2]"
  by (simp add: one_file_maps_def ns_eval demo_strs)

theorem readdir_complete_witness:
  "map_of (map (\<lambda>(j, _, _, name). (name, j)) (read_dir list_blockset demo_world 1 4 0 one_file)) =
     [str ''.'' \<mapsto> 1, str ''..'' \<mapsto> 1, str ''f'' \<mapsto> 2]"
  by (rule readdir_complete [OF one_file_rel one_file_ok one_file_root, THEN conjunct2, THEN conjunct1])
    (simp_all add: demo_world_def demo_strs)

subsection \<open>Attributes\<close>

definition new_attrs :: "clock \<Rightarrow> u32 option \<Rightarrow> u32 option \<Rightarrow> u32 option \<Rightarrow> (i64 \<times> u32) option \<Rightarrow> inode_meta \<Rightarrow> inode_meta" where
  "new_attrs now p u g mt m =
     (let m = set_owner u g (case p of None \<Rightarrow> m | Some q \<Rightarrow> set_perm q m);
          m = (case mt of None \<Rightarrow> m | Some (sec, nsec) \<Rightarrow> m\<lparr>mtime_sec := sec, mtime_nsec := nsec\<rparr>)
      in touch_ctime now m)"

lemma new_attrs_keep: "ino (new_attrs now p u g mt m) = ino m" "size (new_attrs now p u g mt m) = size m"
  "nlinks (new_attrs now p u g mt m) = nlinks m"
  by (simp_all add: new_attrs_def set_owner_def set_perm_def touch_ctime_def split: option.split)

lemma setattr_run:
  assumes "store_rel B (fs_meta s) a" "a_inodes a i = Some m"
  shows "test_setattr B now i p u g None fh mt s =
    and_then (on_meta as_errno (update_inode B (new_attrs now p u g mt m))) (\<lambda>_. ret (new_attrs now p u g mt m)) s"
  by (simp add: test_setattr_def and_then_def [of "ask_meta as_errno (get_inode B i)"] ask_meta_def get_inode_at [OF assms(1)]
      assms(2) map_errno_def and_then_def [of "ret _"] ret_def [of _ s] new_attrs_def Let_def)

lemma set_perm_bits:
  "mode_kind (mode (set_perm q m)) = mode_kind (mode m)" "mode (set_perm q m) AND 0xFFF = q AND 0xFFF"
  by (simp_all add: set_perm_def mode_kind_def S_IFMT_def word_ao_dist and.assoc)

lemma new_attrs_fields:
  "mode_kind (mode (new_attrs now p u g mt m)) = mode_kind (mode m)"
  "mode (new_attrs now p u g mt m) AND 0xFFF = (case p of None \<Rightarrow> mode m | Some q \<Rightarrow> q) AND 0xFFF"
  "uid (new_attrs now p u g mt m) = (case u of None \<Rightarrow> uid m | Some x \<Rightarrow> x)"
  "gid (new_attrs now p u g mt m) = (case g of None \<Rightarrow> gid m | Some x \<Rightarrow> x)"
  "mtime_sec (new_attrs now p u g mt m) = (case mt of None \<Rightarrow> mtime_sec m | Some t \<Rightarrow> fst t)"
  "mtime_nsec (new_attrs now p u g mt m) = (case mt of None \<Rightarrow> mtime_nsec m | Some t \<Rightarrow> snd t)"
proof -
  have "mode (new_attrs now p u g mt m) = mode (case p of None \<Rightarrow> m | Some q \<Rightarrow> set_perm q m)"
    by (simp add: new_attrs_def Let_def set_owner_def touch_ctime_def split: option.split prod.split)
  then show "mode_kind (mode (new_attrs now p u g mt m)) = mode_kind (mode m)"
    "mode (new_attrs now p u g mt m) AND 0xFFF = (case p of None \<Rightarrow> mode m | Some q \<Rightarrow> q) AND 0xFFF"
    by (simp_all add: set_perm_bits split: option.split)
qed (simp_all add: new_attrs_def Let_def set_owner_def touch_ctime_def set_perm_def split: option.split prod.split)

text \<open>
  C22. A \<^verbatim>\<open>setattr\<close> request without a size answers with the new attributes and the next \<^verbatim>\<open>getattr\<close> reports the
  same: permissions, owner and modification time are those given or else the old ones, and the kind of
  the file, its size and its link count stay, whatever bits the requested mode has.
\<close>

theorem setattr_keeps_type:
  assumes "blockset_laws B" and "fs_rel B s a" and "a_inodes a i = Some m"
    and "s' = fst (fuse_setattr B W i p u g None mt fh s)" and "bs_ok B (fs_io s')"
  shows "\<exists>att. fuse_setattr B W i p u g None mt fh s = (s', Some (ReplyAttr att)) \<and>
    fuse_getattr B i s' = (s', Some (ReplyAttr att)) \<and>
    at_kind att = mode_kind (mode m) \<and> at_size att = size m \<and> at_nlink att = nlinks m \<and>
    at_perm att = ucast ((case p of None \<Rightarrow> mode m | Some q \<Rightarrow> q) AND 0xFFF) \<and>
    at_uid att = (case u of None \<Rightarrow> uid m | Some x \<Rightarrow> x) \<and> at_gid att = (case g of None \<Rightarrow> gid m | Some x \<Rightarrow> x) \<and>
    at_mtime att = (case mt of None \<Rightarrow> system_time (mtime_sec m) (mtime_nsec m)
      | Some t \<Rightarrow> (\<lambda>(sec, nsec). system_time sec nsec) (mtime_pair (w_now W) t))"
proof -
  let ?mt = "map_option (mtime_pair (w_now W)) mt"
  let ?m' = "new_attrs (w_now W) p u g ?mt m"
  have store: "store_rel B (fs_meta s) a" using assms(2) by (simp add: fs_rel_def)
  have m: "a_inodes a (ino ?m') = Some m" using fs_rel_inode [OF assms(2,3)] assms(3) by (simp add: new_attrs_keep)
  let ?upd = "on_meta as_errno (update_inode B ?m') :: ('a, 'b) fs \<Rightarrow> _"
  have run: "fuse_setattr B W i p u g None mt fh s =
      (fst (?upd s), case snd (?upd s) of Ok _ \<Rightarrow> Some (ReplyAttr (inode_to_file_attr ?m')) | Err (Errno e) \<Rightarrow> Some (ReplyError e)
        | Err Panicked \<Rightarrow> None)"
    by (simp add: fuse_setattr_def handle_setattr_def reply_defs setattr_run [OF store assms(3)] and_then_def ret_def split_def
        split: sum.split fs_fault.split)
  have "refines B ?upd (\<lambda>a. (put_inode ?m' a, Ok ())) a"
    using update_refines [OF assms(1) m] by (simp add: new_attrs_keep)
  note upd = refinesD [OF this assms(2)]
  have s': "s' = fst (?upd s)" by (simp add: assms(4) run)
  have rel': "fs_rel B s' (put_inode ?m' a)" and ok: "snd (?upd s) = Ok ()" using upd assms(5) by (auto simp: s')
  have "get_inode B i (fs_meta s') = Ok ?m'"
    using rel' fs_rel_inode [OF assms(2,3)] get_inode_at [of B "fs_meta s'" "put_inode ?m' a" i]
    by (simp add: fs_rel_def put_inode_def new_attrs_keep)
  then have "fuse_getattr B i s' = (s', Some (ReplyAttr (inode_to_file_attr ?m')))"
    by (simp add: fuse_getattr_def handle_getattr_def test_getattr_def)
  moreover have "fuse_setattr B W i p u g None mt fh s = (s', Some (ReplyAttr (inode_to_file_attr ?m')))"
    by (simp add: run ok s')
  ultimately show ?thesis
    by (intro exI [of _ "inode_to_file_attr ?m'"])
      (simp add: inode_to_file_attr_def new_attrs_keep new_attrs_fields split_def split: option.split)
qed

lemma setattr_few: "op_few 8 (test_setattr list_blockset now i p u g None fh mt)"
  unfolding test_setattr_def Let_def by (simp, rule op_few_mono, (rule few_intros)+) simp

theorem setattr_keeps_type_witness:
  "\<exists>s' att. fuse_setattr list_blockset demo_world 2 (Some 0x41FF) None None None None None one_file = (s', Some (ReplyAttr att)) \<and>
     at_kind att = RegularFile \<and> at_perm att = 0x1FF"
proof -
  let ?s' = "fst (fuse_setattr list_blockset demo_world 2 (Some 0x41FF) None None None None None one_file)"
  have "few_pushes 112 [] (fs_io ?s')"
    unfolding fuse_setattr_def handle_setattr_def by (rule few_pushes_trans [OF one_file_few served_few [OF setattr_few]]) simp
  then have ok: "bs_ok list_blockset (fs_io ?s')" by (rule few_ok) simp_all
  show ?thesis
    using setattr_keeps_type [OF list_blockset_laws one_file_rel one_file_maps_facts(3) refl ok]
    by (auto simp: new_file_def mode_kind_def S_IFMT_def S_IFDIR_def S_IFLNK_def)
qed

text \<open>
  C23. A \<^verbatim>\<open>setattr\<close> request that has a size changes the size only: the mode, the owner and the
  modification time of the same request are dropped, whatever they are.
\<close>

theorem resize_drops_attributes:
  "fuse_setattr B W i p u g (Some n) mt fh s = fuse_setattr B W i None None None (Some n) None fh s"
  by (simp add: fuse_setattr_def handle_setattr_def reply_defs test_setattr_def and_then_def ask_meta_def map_errno_def Let_def
      split: sum.split)

end
