(* ===== verification/Requests.thy ===== *)
theory Requests
  imports Fuse
begin

unbundle bit_operations_syntax

section \<open>Requests against finite maps\<close>

text \<open>
  The requests on names, attributes and extended attributes, answered from finite maps of inodes,
  directories and attributes, and the proof that the callbacks give those answers: the layers
  \<^verbatim>\<open>fuse_callbacks.rs\<close>, \<^verbatim>\<open>handlers.rs\<close>, \<^verbatim>\<open>filesystem.rs\<close> and \<^verbatim>\<open>store.rs\<close> together.
\<close>

subsection \<open>Stored contents are never lost\<close>

lemma test_ops_grow [grows_intros]:
  fixes B :: "('io, 'st) blockset"
  assumes "blockset_laws B"
  shows "op_grows B (test_lookup B p n)" "op_grows B (test_mknod B p n m u g umask)"
    "op_grows B (simulate_mkdir B p n m umask u g)" "op_grows B (simulate_unlink B p n)" "op_grows B (simulate_rmdir B p n)"
    "op_grows B (simulate_link B now i p n)" "op_grows B (simulate_rename B now p n p' n' flags)"
    "op_grows B (with_inode B i)" "op_grows B (test_readdir B i offset)" "op_grows B (simulate_readlink B i)"
    "op_grows B (test_getxattr B i n)" "op_grows B (test_listxattr B i)" "op_grows B (test_setxattr B i n v)"
    "op_grows B (test_removexattr B i n)" "op_grows B (create_linked B p n meta)" "op_grows B (open_handle B i)"
proof -
  have pure: "op_grows B m" if "\<And>s. fst (m s) = s" for m :: "(('io, 'st) fs, 'r) fs_op"
    using that by (simp add: op_grows_def)
  show "op_grows B (test_readdir B i offset)" "op_grows B (simulate_readlink B i)"
    by (rule pure; simp add: test_readdir_def simulate_readlink_def and_then_def ask_meta_def map_errno_def split: sum.split list.split)+
  show "op_grows B (open_handle B i)" by (simp add: op_grows_def open_handle_def Let_def)
qed (auto simp: test_lookup_def with_inode_def test_getxattr_def test_listxattr_def test_setxattr_def test_removexattr_def
    simulate_mkdir_def simulate_unlink_def simulate_rmdir_def simulate_link_def rename_forms test_mknod_def
    create_linked_undo Let_def intro!: grows_intros assms)

lemma truncate_or_close_grows [grows_intros]:
  assumes "blockset_laws B"
  shows "op_grows B (truncate_or_close B now i fh flags)"
  using op_grows_fst [OF test_setattr_size_grows [OF assms, of now i "Some fh" 0]]
  unfolding op_grows_def truncate_or_close_def split_def by (simp split: sum.split)

lemma symlink_grows [grows_intros]:
  fixes B :: "('io, 'st) blockset"
  assumes "blockset_laws B"
  shows "op_grows B (simulate_symlink B p n target u g)"
proof -
  have "op_grows B (\<lambda>s :: ('io, 'st) fs. let (io, d) = push_all B (fs_io s) target in
      and_then (on_meta as_eio (set_manifest B i [d])) (\<lambda>_. and_then (modify_meta (increment_refcount d)) (\<lambda>_.
      and_then (store_size B id i n) (\<lambda>_. ret i))) (set_io io s))" for i n
  proof -
    have "bs_grows B (fs_io s) (fs_io (fst (and_then (on_meta as_eio (set_manifest B i [d])) (\<lambda>_. and_then (modify_meta (increment_refcount d)) (\<lambda>_.
        and_then (store_size B id i n) (\<lambda>_. ret i))) (set_io io s))))"
      if "push_all B (fs_io s) target = (io, d)" for s :: "('io, 'st) fs" and io d
    proof (rule bs_grows_trans [OF push_all_grows [OF assms that]])
      have "op_grows B (and_then (on_meta as_eio (set_manifest B i [d])) (\<lambda>_. and_then (modify_meta (increment_refcount d)) (\<lambda>_.
        and_then (store_size B id i n) (\<lambda>_. ret i))) :: (('io, 'st) fs, u64) fs_op)"
        by (intro grows_intros assms) simp
      from op_grows_fst [OF this, of "set_io io s"]
      show "bs_grows B io (fs_io (fst (and_then (on_meta as_eio (set_manifest B i [d])) (\<lambda>_. and_then (modify_meta (increment_refcount d)) (\<lambda>_.
        and_then (store_size B id i n) (\<lambda>_. ret i))) (set_io io s))))" by simp
    qed
    then show ?thesis by (simp add: op_grows_def split: prod.split)
  qed
  then show ?thesis unfolding simulate_symlink_def Let_def [of "of_nat (length target)"]
    by (simp add: Let_def [of "\<lparr>ino = _, mode = _, uid = _, gid = _, nlinks = _, size = _, mtime_sec = _, mtime_nsec = _, ctime_sec = _, ctime_nsec = _\<rparr>"])
      (intro grows_intros assms)
qed

lemma more_ops_grow [grows_intros]:
  fixes B :: "('io, 'st) blockset"
  assumes "blockset_laws B"
  shows "op_grows B (test_create_full B now p n m umask u g flags)" "op_grows B (test_symlink_full B p n t u g)"
    "op_grows B (test_mkdir_full B p n m umask u g)" "op_grows B (test_mknod_full B p n m u g umask)"
    "op_grows B (test_link_full B now i p n)" "op_grows B (test_open B now i flags)" "op_grows B (test_release_full B now i fh)"
    "op_grows B (test_fsync B F now i fh)" "op_grows B (test_setattr B now i q v w sz fh' mt)"
proof -
  show "op_grows B (test_create_full B now p n m umask u g flags)"
    by (auto simp: test_create_full_def test_create_def intro!: grows_intros assms)
  have "op_grows B (and_then (open_handle B i) (\<lambda>fh. and_then (truncate_or_close B now i fh flags) (\<lambda>_. ret (fh, True))))"
    by (intro grows_intros assms)
  then show "op_grows B (test_open B now i flags)" by (simp add: op_grows_def test_open_def Let_def)
  show "op_grows B (test_release_full B now i fh)"
    using test_release_grows [OF assms, of now i fh] by (simp add: op_grows_def test_release_full_def)
  have "op_grows B (\<lambda>s :: ('io, 'st) fs. case flush_wal F (fs_meta s) of
      (m, Err _) \<Rightarrow> (s\<lparr>fs_meta := m\<rparr>, Err (Errno EIO)) | (m, Ok _) \<Rightarrow> (s\<lparr>fs_meta := m\<rparr>, Ok ()))"
    by (auto simp: op_grows_def flush_wal_def Let_def split: option.split prod.split sum.split)
  then show "op_grows B (test_fsync B F now i fh)"
    unfolding test_fsync_def by (intro grows_intros test_flush_grows [OF assms, unfolded test_flush_def])
  show "op_grows B (test_setattr B now i q v w sz fh' mt)"
    unfolding test_setattr_def Let_def
    by (intro grows_intros assms, cases sz) (auto intro!: grows_intros assms test_setattr_size_grows)
qed (auto simp: test_symlink_full_def test_mkdir_full_def test_mknod_full_def test_link_full_def intro!: grows_intros assms)

lemma replying_grows: "op_grows B m \<Longrightarrow> bs_grows B (fs_io s) (fs_io (fst (replying f (handled ok err m) s)))"
  using op_grows_fst by (simp add: fst_replying)

lemma with_name_grows:
  "(\<And>x. bs_grows B (fs_io s) (fs_io (fst (m x s)))) \<Longrightarrow> bs_grows B (fs_io s) (fs_io (fst (with_name n m s)))"
  by (simp add: with_name_def split: option.split)

lemmas callback_defs = fuse_getattr_def fuse_lookup_def fuse_readdir_def fuse_read_def fuse_open_def fuse_opendir_def
  fuse_release_def fuse_releasedir_def fuse_flush_def fuse_fsync_def fuse_statfs_def fuse_access_def fuse_getxattr_def
  fuse_listxattr_def fuse_setxattr_def fuse_removexattr_def fuse_write_def fuse_create_def fuse_mkdir_def fuse_mknod_def
  fuse_symlink_def fuse_readlink_def fuse_link_def fuse_unlink_def fuse_rmdir_def fuse_rename_def fuse_setattr_def
  fuse_getlk_def fuse_setlk_def fuse_fallocate_def handle_lookup_def handle_readdir_def handle_read_def handle_open_def
  handle_release_def handle_flush_def handle_fsync_def handle_getxattr_def handle_listxattr_def handle_setxattr_def
  handle_removexattr_def handle_write_def handle_create_def handle_mkdir_def handle_mknod_def handle_symlink_def
  handle_readlink_def handle_link_def handle_unlink_def handle_rmdir_def handle_rename_def handle_setattr_def

lemma serve_grows:
  assumes "blockset_laws B"
  shows "bs_grows B (fs_io s) (fs_io (fst (serve B W r s)))"
  by (cases r)
    (simp_all add: callback_defs replying_grows with_name_grows test_ops_grow more_ops_grow test_read_grows test_flush_grows
      test_write_grows assms)

subsection \<open>The answers from finite maps\<close>

definition spec_with_inode :: "u64 \<Rightarrow> (meta_state, u64 \<times> inode_meta) fs_op" where
  "spec_with_inode i a = (a, case a_inodes a i of None \<Rightarrow> Err (Errno ENOENT) | Some m \<Rightarrow> Ok (i, m))"

definition reply_entry :: "(meta_state, u64) fs_op \<Rightarrow> meta_state \<Rightarrow> meta_state \<times> reply option" where
  "reply_entry m = replying of_entry (handled entry_of EntryError (and_then m spec_with_inode))"

definition reply_done :: "(meta_state, unit) fs_op \<Rightarrow> meta_state \<Rightarrow> meta_state \<times> reply option" where
  "reply_done m = replying of_empty (handled (\<lambda>_. EmptyOk) EmptyError m)"

definition spec_mknod :: "u64 \<Rightarrow> rstring \<Rightarrow> u32 \<Rightarrow> u32 \<Rightarrow> u32 \<Rightarrow> u32 \<Rightarrow> (meta_state, u64) fs_op" where
  "spec_mknod p n m umask u g =
     (if m AND S_IFMT \<noteq> S_IFREG \<and> m AND S_IFMT \<noteq> 0 then fail ENOSYS
      else spec_create p n (new_file 0 u g (file_mode S_IFREG m umask)))"

definition spec_lookup :: "u64 \<Rightarrow> rstring \<Rightarrow> (meta_state, u64 \<times> inode_meta) fs_op" where
  "spec_lookup p n a =
     (case resolve p n a of Err e \<Rightarrow> fail e a
      | Ok i \<Rightarrow> (case a_inodes a i of None \<Rightarrow> fail ENOENT a | Some m \<Rightarrow> (a, Ok (i, m))))"

definition xattrs_of :: "meta_state \<Rightarrow> u64 \<Rightarrow> xattrs" where
  "xattrs_of a i = (case a_xattrs a i of None \<Rightarrow> [] | Some xs \<Rightarrow> xs)"

fun spec_serve :: "'st world \<Rightarrow> request \<Rightarrow> meta_state \<Rightarrow> meta_state \<times> reply option" where
  "spec_serve W (Getattr i) a =
     (a, Some (case a_inodes a i of None \<Rightarrow> ReplyError ENOENT | Some m \<Rightarrow> ReplyAttr (inode_to_file_attr m)))"
| "spec_serve W (LookupReq p n) a = replying of_entry (handled entry_of EntryError (spec_lookup p (name_or_empty n))) a"
| "spec_serve W (Mknod p n m umask) a = with_name n (\<lambda>n. reply_entry (spec_mknod p n m umask (w_uid W) (w_gid W))) a"
| "spec_serve W (Mkdir p n m umask) a =
     with_name n (\<lambda>n. reply_entry (spec_mkdir p n (new_directory 0 (w_uid W) (w_gid W) (file_mode S_IFDIR m umask)))) a"
| "spec_serve W (UnlinkReq p n) a = with_name n (\<lambda>n. reply_done (spec_unlink p n)) a"
| "spec_serve W (Rmdir p n) a = with_name n (\<lambda>n. reply_done (spec_rmdir p n)) a"
| "spec_serve W (LinkReq i p n) a = with_name n (\<lambda>n. reply_entry (spec_link (w_now W) i p n)) a"
| "spec_serve W (Rename p n p' n' flags) a =
     with_name n (\<lambda>n. with_name n' (\<lambda>n'. reply_done (spec_rename (w_now W) p n p' n' flags))) a"
| "spec_serve W (Setattr i q u g sz mt fh) a =
     (case a_inodes a i of
        None \<Rightarrow> (a, Some (ReplyError ENOENT))
      | Some m \<Rightarrow>
          (let m' = new_attrs (w_now W) q u g (map_option (mtime_pair (w_now W)) mt) m
           in (put_inode m' a, Some (ReplyAttr (inode_to_file_attr m')))))"
| "spec_serve W (Getxattr i n sz) a =
     (a, Some (case map_of (xattrs_of a i) (name_or_empty n) of
                 None \<Rightarrow> ReplyError ENODATA | Some v \<Rightarrow> of_xattr (sized sz v)))"
| "spec_serve W (Listxattr i sz) a =
     (a, Some (of_xattr (sized sz (concat (map (\<lambda>(n, _). n @ [0]) (xattrs_of a i))))))"
| "spec_serve W (Setxattr i n v) a =
     (a\<lparr>a_xattrs := (a_xattrs a)(i \<mapsto> set_xattr_entry (name_or_empty n) v (xattrs_of a i))\<rparr>, Some ReplyOk)"
| "spec_serve W (Removexattr i n) a =
     (if map_of (xattrs_of a i) (name_or_empty n) = None then (a, Some (ReplyError ENODATA))
      else (a\<lparr>a_xattrs := (a_xattrs a)(i \<mapsto> filter (\<lambda>(k, _). k \<noteq> name_or_empty n) (xattrs_of a i))\<rparr>, Some ReplyOk))"
| "spec_serve W Opendir a = (a, Some (ReplyOpened 0))"
| "spec_serve W (Getlk start end_of pid) a = (a, Some (ReplyLocked start end_of F_UNLCK pid))"
| "spec_serve W Fallocate a = (a, Some (ReplyError ENOSYS))"
| "spec_serve W r a = (a, Some ReplyOk)"

text \<open>
  The requests covered, with the bounds of the specification: inode numbers and link counts do not
  overflow, a directory has room for a new name, a stored value is shorter than \<open>2 ^ 32\<close> bytes.
\<close>

fun fuse_allowed :: "'st world \<Rightarrow> request \<Rightarrow> meta_state \<Rightarrow> bool" where
  "fuse_allowed W (Mknod p n m umask) a = (utf8_valid n \<longrightarrow> ns_allowed (NMknod p n m (w_uid W) (w_gid W) umask) a)"
| "fuse_allowed W (Mkdir p n m umask) a = (utf8_valid n \<longrightarrow> ns_allowed (NMkdir p n m umask (w_uid W) (w_gid W)) a)"
| "fuse_allowed W (LinkReq i p n) a = (utf8_valid n \<longrightarrow> ns_allowed (NLink (w_now W) i p n) a)"
| "fuse_allowed W (Rename p n p' n' flags) a = (utf8_valid n' \<longrightarrow> new_name_ok p' n' a)"
| "fuse_allowed W (Setattr i q u g sz mt fh) a \<longleftrightarrow> sz = None"
| "fuse_allowed W (Setxattr i n v) a \<longleftrightarrow> length n < 2 ^ 32 \<and> length v < 2 ^ 32"
| "fuse_allowed W r a \<longleftrightarrow> (case r of Readdir _ _ \<Rightarrow> False | Read _ _ _ \<Rightarrow> False | Open _ _ \<Rightarrow> False | Release _ _ \<Rightarrow> False
     | Flush _ _ \<Rightarrow> False | Fsync _ _ \<Rightarrow> False | Statfs \<Rightarrow> False | Write _ _ _ \<Rightarrow> False | Create _ _ _ _ _ \<Rightarrow> False
     | SymlinkReq _ _ _ \<Rightarrow> False | Readlink _ \<Rightarrow> False | _ \<Rightarrow> True)"

subsection \<open>The callbacks give these answers\<close>

definition serves :: "('io, 'st) blockset \<Rightarrow> (('io, 'st) fs \<Rightarrow> ('io, 'st) fs \<times> reply option) \<Rightarrow>
    (meta_state \<Rightarrow> meta_state \<times> reply option) \<Rightarrow> meta_state \<Rightarrow> bool" where
  "serves B c p a \<longleftrightarrow> (\<forall>s. fs_rel B s a \<longrightarrow> bs_ok B (fs_io (fst (c s))) \<longrightarrow>
     fs_rel B (fst (c s)) (fst (p a)) \<and> snd (c s) = snd (p a))"

lemma serves_replying:
  assumes "refines B m p a"
  shows "serves B (replying f (handled ok err m)) (replying f (handled ok err p)) a"
  unfolding serves_def
proof (intro allI impI)
  fix s assume "fs_rel B s a" "bs_ok B (fs_io (fst (replying f (handled ok err m) s)))"
  note refinesD [OF assms this(1), OF this(2) [unfolded fst_replying]]
  then show "fs_rel B (fst (replying f (handled ok err m) s)) (fst (replying f (handled ok err p) a)) \<and>
      snd (replying f (handled ok err m) s) = snd (replying f (handled ok err p) a)"
    by (simp add: reply_defs split_def fst_replying split: sum.split fs_fault.split)
qed

lemma serves_name:
  "(\<And>x. from_utf8 n = Some x \<Longrightarrow> serves B (c x) (p x) a) \<Longrightarrow> serves B (with_name n c) (with_name n p) a"
  by (auto simp: serves_def with_name_def split: option.split)

lemma serves_eq: "serves B c p a \<Longrightarrow> p a = p' a \<Longrightarrow> serves B c p' a"
  by (simp add: serves_def)

lemma with_inode_refines: "blockset_laws B \<Longrightarrow> refines B (with_inode B i) (spec_with_inode i) a"
  unfolding with_inode_def
  by (rule refines_eq [OF refines_and_then [OF store_calls_refine(2) simple_grows(1) refines_simple(1)]])
    (simp_all add: spec_with_inode_def and_then_def call_forms ret_def split: option.split)

lemma serves_entry:
  assumes "blockset_laws B" "refines B m p a"
  shows "serves B (replying of_entry (handled entry_of EntryError (and_then m (with_inode B)))) (reply_entry p) a"
  unfolding reply_entry_def
  by (intro serves_replying refines_and_then assms with_inode_refines test_ops_grow)

lemma serves_done:
  "refines B m p a \<Longrightarrow> serves B (replying of_empty (handled (\<lambda>_. EmptyOk) EmptyError m)) (reply_done p) a"
  unfolding reply_done_def by (rule serves_replying)

lemma mknod_refines:
  assumes laws: "blockset_laws B" and rel: "fs_rel B s a" and allowed: "ns_allowed (NMknod p n m u g umask) a"
  shows "refines B (test_mknod B p n m u g umask) (spec_mknod p n m umask u g) a"
proof -
  have "size (new_file 0 u g (file_mode S_IFREG m umask)) = 0" by (simp add: new_file_def)
  then have "refines B (create_linked B p n (new_file 0 u g (file_mode S_IFREG m umask)))
      (spec_create p n (new_file 0 u g (file_mode S_IFREG m umask))) a"
    using allowed size_0_allowed [OF rel] by (intro create_refines [OF laws, where i = 0])
      (simp_all add: op_allowed_def new_name_ok_def)
  then show ?thesis by (simp add: test_mknod_def spec_mknod_def Let_def refines_simple)
qed

lemma spec_forms:
  "spec_serve W (LookupReq p n) = replying of_entry (handled entry_of EntryError (spec_lookup p (name_or_empty n)))"
  "spec_serve W (Mknod p n m umask) = with_name n (\<lambda>n. reply_entry (spec_mknod p n m umask (w_uid W) (w_gid W)))"
  "spec_serve W (Mkdir p n m umask) =
     with_name n (\<lambda>n. reply_entry (spec_mkdir p n (new_directory 0 (w_uid W) (w_gid W) (file_mode S_IFDIR m umask))))"
  "spec_serve W (UnlinkReq p n) = with_name n (\<lambda>n. reply_done (spec_unlink p n))"
  "spec_serve W (Rmdir p n) = with_name n (\<lambda>n. reply_done (spec_rmdir p n))"
  "spec_serve W (LinkReq i p n) = with_name n (\<lambda>n. reply_entry (spec_link (w_now W) i p n))"
  "spec_serve W (Rename p n p' n' flags) =
     with_name n (\<lambda>n. with_name n' (\<lambda>n'. reply_done (spec_rename (w_now W) p n p' n' flags)))"
  by (simp_all add: fun_eq_iff)

lemma entry_ops_serve:
  assumes laws: "blockset_laws B" and rel: "fs_rel B s a"
  shows "fuse_allowed W (Mknod p n m umask) a \<Longrightarrow> serves B (serve B W (Mknod p n m umask)) (spec_serve W (Mknod p n m umask)) a"
    "fuse_allowed W (Mkdir p n m umask) a \<Longrightarrow> serves B (serve B W (Mkdir p n m umask)) (spec_serve W (Mkdir p n m umask)) a"
    "fuse_allowed W (LinkReq i p n) a \<Longrightarrow> serves B (serve B W (LinkReq i p n)) (spec_serve W (LinkReq i p n)) a"
proof -
  have name: "utf8_valid n \<and> x = n" if "from_utf8 n = Some x" for n x using from_utf8_SomeD [OF that] by auto
  show "serves B (serve B W (Mknod p n m umask)) (spec_serve W (Mknod p n m umask)) a"
    if "fuse_allowed W (Mknod p n m umask) a"
    using that
    by (simp add: callback_defs spec_forms test_mknod_full_def)
      (auto intro!: serves_name serves_entry mknod_refines [OF laws rel] laws dest: name)
  show "serves B (serve B W (Mkdir p n m umask)) (spec_serve W (Mkdir p n m umask)) a"
    if "fuse_allowed W (Mkdir p n m umask) a"
    using that
    by (simp add: callback_defs spec_forms test_mkdir_full_def simulate_mkdir_def)
      (auto intro!: serves_name serves_entry mkdir_refines laws simp: new_directory_def op_allowed_def new_name_ok_def dest: name)
  show "serves B (serve B W (LinkReq i p n)) (spec_serve W (LinkReq i p n)) a"
    if "fuse_allowed W (LinkReq i p n) a"
    using that
    by (simp add: callback_defs spec_forms test_link_full_def)
      (auto intro!: serves_name serves_entry link_refines laws simp: op_allowed_def new_name_ok_def dest: name)
qed

lemma lookup_serves:
  assumes "blockset_laws B"
  shows "serves B (serve B W (LookupReq p n)) (spec_serve W (LookupReq p n)) a"
proof -
  have "entry_of = (\<lambda>(child_ino, meta). EntryOk child_ino (inode_to_file_attr meta))"
    by (simp add: fun_eq_iff entry_of_def)
  then show ?thesis
    using serves_replying [OF lookup_refines [OF assms], of of_entry entry_of EntryError p "name_or_empty n" a]
    by (simp add: callback_defs spec_forms spec_lookup_def [abs_def])
qed

lemma setattr_serves:
  assumes "blockset_laws B"
  shows "serves B (serve B W (Setattr i q u g None mt fh)) (spec_serve W (Setattr i q u g None mt fh)) a"
  unfolding serves_def
proof (intro allI impI)
  fix s :: "('a, 'b) fs"
  assume rel: "fs_rel B s a" and ok: "bs_ok B (fs_io (fst (serve B W (Setattr i q u g None mt fh) s)))"
  have store: "store_rel B (fs_meta s) a" using rel by (simp add: fs_rel_def)
  show "fs_rel B (fst (serve B W (Setattr i q u g None mt fh) s)) (fst (spec_serve W (Setattr i q u g None mt fh) a)) \<and>
      snd (serve B W (Setattr i q u g None mt fh) s) = snd (spec_serve W (Setattr i q u g None mt fh) a)"
  proof (cases "a_inodes a i")
    case None
    then show ?thesis using rel get_inode_at [OF store, of i]
      by (simp add: callback_defs reply_defs test_setattr_def and_then_def ask_meta_def map_errno_def)
  next
    case (Some m)
    let ?m' = "new_attrs (w_now W) q u g (map_option (mtime_pair (w_now W)) mt) m"
    have "a_inodes a (ino ?m') = Some m" using fs_rel_inode [OF rel Some] Some by (simp add: new_attrs_keep)
    then have "refines B (on_meta as_errno (update_inode B ?m')) (\<lambda>a. (put_inode ?m' a, Ok ())) a"
      using update_refines [OF assms] by (simp add: new_attrs_keep)
    from serves_replying [OF refines_and_then [OF this simple_grows(1) refines_simple(1)],
        of of_attr "\<lambda>inode. AttrOk (inode_to_file_attr inode)" AttrError "\<lambda>_. ?m'"] rel ok
    show ?thesis
      by (simp add: serves_def Some callback_defs fst_replying setattr_run [OF store Some] Let_def)
        (simp add: reply_defs split_def setattr_run [OF store Some] and_then_def ret_def)
  qed
qed

definition un_bytes :: "'d resp \<Rightarrow> bytes" where "un_bytes r = (case r of RBytes v \<Rightarrow> v | _ \<Rightarrow> [])"
definition un_names :: "'d resp \<Rightarrow> rstring list" where "un_names r = (case r of RNames l \<Rightarrow> l | _ \<Rightarrow> [])"

lemma xattr_calls_refine:
  assumes "blockset_laws B"
  shows "refines B (ask_meta g (get_xattr B i n)) (a_op un_bytes g (GetXattr i n)) a"
    "refines B (ask_meta g (list_xattrs B i)) (a_op un_names g (ListXattrs i)) a"
    "op_allowed (SetXattr i n v) a \<Longrightarrow> refines B (on_meta g (set_xattr B i n v)) (a_op un_unit g (SetXattr i n v)) a"
    "refines B (on_meta g (remove_xattr B i n)) (a_op un_unit g (RemoveXattr i n)) a"
  unfolding ask_meta_on
  by (rule on_meta_refines [OF assms]; (simp add: un_bytes_def un_names_def un_unit_def op_allowed_def)?;
      (auto simp: un_bytes_def un_names_def un_unit_def elim: resp.rel_cases)?)+

lemma xattr_serves:
  assumes laws: "blockset_laws B"
  shows "serves B (serve B W (Getxattr i n sz)) (spec_serve W (Getxattr i n sz)) a"
    "serves B (serve B W (Listxattr i sz)) (spec_serve W (Listxattr i sz)) a"
    "fuse_allowed W (Setxattr i n v) a \<Longrightarrow> serves B (serve B W (Setxattr i n v)) (spec_serve W (Setxattr i n v)) a"
    "serves B (serve B W (Removexattr i n)) (spec_serve W (Removexattr i n)) a"
proof -
  let ?n = "name_or_empty n"
  show "serves B (serve B W (Getxattr i n sz)) (spec_serve W (Getxattr i n sz)) a"
    by (simp add: callback_defs test_getxattr_def, rule serves_eq, rule serves_replying, rule xattr_calls_refine(1) [OF laws])
      (simp add: reply_defs a_op_def map_errno_def un_bytes_def xattrs_of_def split: option.split)
  show "serves B (serve B W (Listxattr i sz)) (spec_serve W (Listxattr i sz)) a"
    unfolding serve.simps callback_defs test_listxattr_def
    by (rule serves_eq, rule serves_replying, rule refines_and_then [OF xattr_calls_refine(2) [OF laws] simple_grows(1) refines_simple(1)])
      (simp add: reply_defs and_then_def ret_def a_op_def map_errno_def un_names_def xattrs_of_def comp_def split_def split: option.split)
  have len: "name_ok ?n" if "length n < 2 ^ 32"
    using that by (auto simp: name_ok_def name_or_empty_def from_utf8_def)
  show "serves B (serve B W (Setxattr i n v)) (spec_serve W (Setxattr i n v)) a" if "fuse_allowed W (Setxattr i n v) a"
    unfolding serve.simps callback_defs test_setxattr_def
    by (rule serves_eq, rule serves_replying, rule xattr_calls_refine(3) [OF laws])
      (use that len in \<open>simp_all add: op_allowed_def reply_defs a_op_def map_errno_def xattrs_of_def\<close>)
  show "serves B (serve B W (Removexattr i n)) (spec_serve W (Removexattr i n)) a"
    unfolding serve.simps callback_defs test_removexattr_def
    by (rule serves_eq, rule serves_replying, rule xattr_calls_refine(4) [OF laws])
      (auto simp: reply_defs a_op_def map_errno_def xattrs_of_def map_of_eq_None_iff split: option.split)
qed

lemma serve_refines:
  assumes laws: "blockset_laws B" and rel: "fs_rel B s a" and allowed: "fuse_allowed W r a"
  shows "serves B (serve B W r) (spec_serve W r) a"
proof (cases r)
  case (Getattr i)
  then show ?thesis
    by (auto simp: serves_def callback_defs handle_getattr_def test_getattr_def fs_rel_def get_inode_at split: option.split)
next
  case (UnlinkReq p n)
  then show ?thesis by (simp add: callback_defs spec_forms) (intro serves_name serves_done unlink_refines laws)
next
  case (Rmdir p n)
  then show ?thesis by (simp add: callback_defs spec_forms) (intro serves_name serves_done rmdir_refines laws)
next
  case (Rename p n p' n' flags)
  then show ?thesis using allowed
    by (simp add: callback_defs spec_forms)
      (intro serves_name serves_done rename_refines laws; auto simp: new_name_ok_def dest: from_utf8_SomeD)
next
  case (Setattr i q u g sz mt fh)
  then show ?thesis using allowed setattr_serves [OF laws] by simp
qed (use allowed lookup_serves [OF laws] xattr_serves [OF laws] entry_ops_serve [OF laws rel] in
    \<open>simp_all add: serves_def callback_defs handle_getlk_def\<close>)

interpretation fuse_sim: simulation "\<lambda>(W, r). serve B W r" "\<lambda>(W, r). spec_serve W r" "\<lambda>(W, r). fuse_allowed W r" "fs_rel B"
  "\<lambda>s. blockset_laws B \<and> bs_ok B (fs_io s)" "(=)"
proof
  fix s a oper
  assume "fs_rel B s a" "(\<lambda>(W, r). fuse_allowed W r) oper a"
    "blockset_laws B \<and> bs_ok B (fs_io (fst ((\<lambda>(W, r). serve B W r) oper s)))"
  then show "fs_rel B (fst ((\<lambda>(W, r). serve B W r) oper s)) (fst ((\<lambda>(W, r). spec_serve W r) oper a)) \<and>
      snd ((\<lambda>(W, r). serve B W r) oper s) = snd ((\<lambda>(W, r). spec_serve W r) oper a)"
    using serve_refines unfolding serves_def by (cases oper) fastforce
next
  fix s oper
  assume "blockset_laws B \<and> bs_ok B (fs_io (fst ((\<lambda>(W, r). serve B W r) oper s)))"
  then show "blockset_laws B \<and> bs_ok B (fs_io s)" using bs_growsD(1) [OF serve_grows] by (cases oper) auto
qed

text \<open>
  C7. Every sequence of the following requests gets the replies computed from finite maps of inodes,
  directories and attributes, errors included, and leaves a file system that represents the resulting
  maps: getattr, lookup, mknod, mkdir, unlink, rmdir, link, rename, setattr without a size, getxattr,
  listxattr, setxattr and removexattr, and the requests with constant replies (opendir, releasedir,
  access, getlk, setlk, fallocate). The outside world (caller, clock, host) may be another one at each
  request. Not among them are create, symlink, readlink, readdir, open, read, write, release, flush,
  fsync, statfs and setattr with a size; a request that adds a name needs a free inode number, a link
  count that does not overflow, room in the directory and names and values of less than \<open>2 ^ 32\<close> bytes.
\<close>

theorem requests_refine:
  assumes "blockset_laws B" and "fs_rel B s a"
    and "run_allowed (\<lambda>(W, r). fuse_allowed W r) (\<lambda>(W, r). spec_serve W r) reqs a"
    and "bs_ok B (fs_io (fst (run_all (\<lambda>(W, r). serve B W r) reqs s)))"
  shows "fs_rel B (fst (run_all (\<lambda>(W, r). serve B W r) reqs s)) (fst (run_all (\<lambda>(W, r). spec_serve W r) reqs a)) \<and>
    snd (run_all (\<lambda>(W, r). serve B W r) reqs s) = snd (run_all (\<lambda>(W, r). spec_serve W r) reqs a)"
  using fuse_sim.runs_rel [OF assms(2,3)] assms(1,4) by (simp add: list_all2_eq)

definition demo_requests :: "(bytes world \<times> request) list" where
  "demo_requests = map (Pair demo_world) [Setxattr 2 (str ''g'') [1, 2], Getxattr 2 (str ''g'') 0, Removexattr 2 (str ''f''),
     Mkdir 1 [255] 0x1ED 0, Rmdir 1 (str ''f''), UnlinkReq 1 (str ''f''), Getattr 2]"

lemma demo_requests_spec:
  "run_allowed (\<lambda>(W, r). fuse_allowed W r) (\<lambda>(W, r). spec_serve W r) demo_requests one_file_maps"
  "snd (run_all (\<lambda>(W, r). spec_serve W r) demo_requests one_file_maps) =
     [Some ReplyOk, Some (ReplyXattrSize 2), Some (ReplyError ENODATA), Some (ReplyError EINVAL), Some (ReplyError ENOTDIR),
      Some ReplyOk, Some (ReplyError ENOENT)]"
  by (simp_all add: demo_requests_def one_file_maps_def ns_eval demo_strs with_name_def name_or_empty_def from_utf8_def
      xattrs_of_def reply_done_def reply_defs sized_def, simp_all add: str_def)

lemma xattr_few [few_intros]:
  "op_few 8 (on_meta g (set_xattr list_blockset i n v))" "op_few 8 (on_meta g (remove_xattr list_blockset i n))"
  by (rule op_few_on_meta [of _ "SetXattr i n v"] op_few_on_meta [of _ "RemoveXattr i n"], simp add: respond_def)+

lemma pure_few: "(\<And>s. fst (m s) = s) \<Longrightarrow> op_few 0 m"
  by (simp add: op_few_def)

lemma handle_few [few_intros]:
  "op_few 0 (open_handle list_blockset i)" "op_few 17 (truncate_or_close list_blockset now i fh flags)"
  "op_few 17 (test_fsync list_blockset F now i fh)"
proof -
  show "op_few 0 (open_handle list_blockset i)" by (simp add: op_few_def open_handle_def Let_def)
  show "op_few 17 (truncate_or_close list_blockset now i fh flags)"
    using op_fewD [OF resize_few [of now i "Some fh" 0]]
    unfolding op_few_def truncate_or_close_def split_def by (simp split: sum.split)
  have "op_few 0 (\<lambda>s :: (bytes list, bytes) fs. case flush_wal F (fs_meta s) of
      (m, Err _) \<Rightarrow> (s\<lparr>fs_meta := m\<rparr>, Err (Errno EIO)) | (m, Ok _) \<Rightarrow> (s\<lparr>fs_meta := m\<rparr>, Ok ()))"
    by (auto simp: op_few_def flush_wal_def Let_def split: option.split prod.split sum.split)
  from op_few_and_then [OF test_flush_few [unfolded test_flush_def], OF this, of now i fh]
  show "op_few 17 (test_fsync list_blockset F now i fh)" by (simp add: test_fsync_def)
qed

lemma fs_ops_few:
  "op_few 100 (test_lookup list_blockset p n)" "op_few 100 (test_readdir list_blockset i offset)"
  "op_few 100 (simulate_readlink list_blockset i)" "op_few 100 (test_getxattr list_blockset i n)"
  "op_few 100 (test_listxattr list_blockset i)" "op_few 100 (test_setxattr list_blockset i n v)"
  "op_few 100 (test_removexattr list_blockset i n)" "op_few 100 (simulate_unlink list_blockset p n)"
  "op_few 100 (simulate_rmdir list_blockset p n)" "op_few 100 (test_open list_blockset now i flags)"
  "op_few 100 (test_release_full list_blockset now i fh)" "op_few 100 (test_mkdir_full list_blockset p n md umask u g)"
  "op_few 100 (test_mknod_full list_blockset p n md u g umask)" "op_few 100 (test_link_full list_blockset now i p n)"
  "op_few 100 (test_create_full list_blockset now p n md umask u g flags)"
  "op_few 100 (test_setattr list_blockset now i q u' g' sz fh' mt)"
proof -
  show "op_few 100 (test_readdir list_blockset i offset)" "op_few 100 (simulate_readlink list_blockset i)"
    by (rule op_few_mono, rule pure_few; simp add: test_readdir_def simulate_readlink_def and_then_def ask_meta_def map_errno_def
        split: sum.split list.split)+
  have "op_few 100 (and_then (open_handle list_blockset i) (\<lambda>fh. and_then (truncate_or_close list_blockset now i fh flags)
      (\<lambda>_. ret (fh, True))))" by (rule op_few_mono, (rule few_intros)+) simp
  then show "op_few 100 (test_open list_blockset now i flags)" by (simp add: op_few_def test_open_def Let_def)
  show "op_few 100 (test_release_full list_blockset now i fh)"
    using op_fewD [OF op_few_mono [OF test_release_few [of now i fh], of 100]] by (simp add: op_few_def test_release_full_def)
  show "op_few 100 (test_setattr list_blockset now i q u' g' sz fh' mt)"
    unfolding test_setattr_def Let_def by (cases sz) (simp, rule op_few_mono, (rule few_intros)+, simp)+
  show "op_few 100 (test_create_full list_blockset now p n md umask u g flags)"
    unfolding test_create_full_def test_create_def create_linked_undo
    by (rule op_few_mono, (rule few_intros | simp add: split_def)+)
qed (unfold test_lookup_def test_getxattr_def test_listxattr_def test_setxattr_def test_removexattr_def simulate_unlink_def
    simulate_rmdir_def test_mkdir_full_def test_mknod_full_def test_link_full_def with_inode_def simulate_mkdir_def test_mknod_def
    simulate_link_def create_linked_undo Let_def, (rule op_few_mono, (rule few_intros)+, simp)+)

lemma with_name_few:
  "(\<And>x. few_pushes k (fs_io s) (fs_io (fst (m x s)))) \<Longrightarrow> few_pushes k (fs_io s) (fs_io (fst (with_name n m s)))"
  by (simp add: with_name_def split: option.split)

lemma serve_few: "few_pushes 100 (fs_io s) (fs_io (fst (serve list_blockset W r s)))"
proof -
  have "op_few 100 (test_symlink_full list_blockset p n t u g)" for p n t u g
  proof -
    have "op_few 0 (with_inode list_blockset i)" for i :: u64
      by (rule pure_few) (simp add: with_inode_def and_then_def ask_meta_def ret_def split: sum.split)
    from op_few_and_then [OF symlink_few this] show ?thesis by (simp add: test_symlink_full_def)
  qed
  then show ?thesis
    by (cases r)
      (simp_all add: callback_defs served_few with_name_few fs_ops_few rename_few op_few_mono [OF test_read_few]
        op_few_mono [OF test_flush_few] op_few_mono [OF handle_few(3)] op_few_mono [OF test_write_few])
qed

lemma serve_runs_few:
  "few_pushes (100 * length reqs) (fs_io s) (fs_io (fst (run_all (\<lambda>(W, r). serve list_blockset W r) reqs s)))"
proof (induction reqs arbitrary: s)
  case (Cons wr reqs)
  obtain W r where wr: "wr = (W, r)" by (cases wr)
  show ?case
    using few_pushes_trans [OF serve_few [of s W r] Cons.IH, of "100 * length (wr # reqs)"] by (simp add: wr split_def Let_def)
qed simp

theorem requests_refine_witness:
  "snd (run_all (\<lambda>(W, r). serve list_blockset W r) demo_requests one_file) =
     [Some ReplyOk, Some (ReplyXattrSize 2), Some (ReplyError ENODATA), Some (ReplyError EINVAL), Some (ReplyError ENOTDIR),
      Some ReplyOk, Some (ReplyError ENOENT)]"
proof -
  have "few_pushes 1000 [] (fs_io (fst (run_all (\<lambda>(W, r). serve list_blockset W r) demo_requests one_file)))"
    by (rule few_pushes_trans [OF one_file_few serve_runs_few]) (simp add: demo_requests_def)
  then have "bs_ok list_blockset (fs_io (fst (run_all (\<lambda>(W, r). serve list_blockset W r) demo_requests one_file)))"
    by (rule few_ok) simp_all
  from requests_refine [OF list_blockset_laws one_file_rel demo_requests_spec(1) this] demo_requests_spec(2)
  show ?thesis by simp
qed

end
