(* ===== verification/Mount.thy ===== *)
theory Mount
  imports Recovery Requests
begin

section \<open>Mounting and unmounting\<close>

text \<open>
  \<^verbatim>\<open>mount.rs\<close> of \<^verbatim>\<open>slicefs-cli\<close> and \<^verbatim>\<open>mount_lock.rs\<close> of \<^verbatim>\<open>metadata\<close>. The
  store directory is the record \<open>store_dir\<close>; the content storage below it is the storage argument of the
  block set interface, and a mount is given the storage it finds: the code never syncs it, so what a
  crash leaves of it is an argument of the statements. The blocking FUSE session of \<^verbatim>\<open>fuser::mount2\<close> is the sequence of
  requests it serves; the watchdog thread, signals and console output are not modelled.
\<close>

subsection \<open>The mount lock\<close>

record store_dir =
  sd_legacy :: bool \<comment> \<open>\<^verbatim>\<open>dictionary.bin\<close> exists\<close>
  sd_segments :: "seg_dir option" \<comment> \<open>the files of \<^verbatim>\<open>segments/\<close>\<close>
  sd_lock :: bool \<comment> \<open>\<^verbatim>\<open>mount.lock\<close> exists\<close>

datatype mount_lock_error = DirtyMount | LockIo

text \<open>The argument says whether the host refuses to write the file.\<close>

definition acquire_mount_lock :: "bool \<Rightarrow> store_dir \<Rightarrow> store_dir \<times> (mount_lock_error + unit)" where
  "acquire_mount_lock write_fails d =
     (if sd_lock d then (d, Err DirtyMount)
      else if write_fails then (d, Err LockIo)
      else (d\<lparr>sd_lock := True\<rparr>, Ok ()))"

definition drop_mount_lock :: "store_dir \<Rightarrow> store_dir" where
  "drop_mount_lock d = d\<lparr>sd_lock := False\<rparr>"

subsection \<open>Loading a store\<close>

datatype load_error =
  LegacyStore | NoSegmentsDir | LockFailed mount_lock_error | SegmentsFailed io_error | NoCommittedRoot
  | ReconstructFailed meta_error | WalFailed | LoadPanicked

text \<open>The id after the largest one among the segment files; names are \<^verbatim>\<open>segment-\<close>, a number, \<^verbatim>\<open>.seg\<close>.\<close>

definition segment_number :: "rstring \<Rightarrow> u64 option" where
  "segment_number name =
     (if is_segment_name name then parse_u64 (slice name 8 (length name - 4)) else None)"

definition next_segment_id :: "seg_dir \<Rightarrow> u64" where
  "next_segment_id segs = fold max (List.map_filter segment_number (map fst segs)) 0 + 1"

text \<open>A lock that is still there is taken for the lock of a crashed mount: it is removed and taken again.\<close>

definition take_lock :: "bool \<Rightarrow> store_dir \<Rightarrow> store_dir \<times> (mount_lock_error + unit)" where
  "take_lock write_fails d =
     (case acquire_mount_lock write_fails d of
        (d, Err DirtyMount) \<Rightarrow> acquire_mount_lock write_fails (drop_mount_lock d)
      | r \<Rightarrow> r)"

text \<open>
  On an error the lock guard is dropped, which removes the lock file. The result has the store and the
  segment file its log writes to; the file is created empty, its header is in the buffer of the writer.
\<close>

definition load_store ::
  "('io, 'st) blockset \<Rightarrow> bool \<Rightarrow> bool \<Rightarrow> wal_config \<Rightarrow> 'io \<Rightarrow> store_dir \<Rightarrow>
   store_dir \<times> (load_error + 'io store \<times> rstring option)" where
  "load_store B lock_fails wal_fails wal_config io d =
     (if sd_legacy d then (d, Err LegacyStore)
      else case sd_segments d of
        None \<Rightarrow> (d, Err NoSegmentsDir)
      | Some segs \<Rightarrow>
          (case take_lock lock_fails d of
             (d, Err e) \<Rightarrow> (d, Err (LockFailed e))
           | (d, Ok _) \<Rightarrow>
               (case load_store_from_segments segs of
                  Err e \<Rightarrow> (drop_mount_lock d, Err (SegmentsFailed e))
                | Ok (None, _) \<Rightarrow> (drop_mount_lock d, Err NoCommittedRoot)
                | Ok (Some root, snapshots) \<Rightarrow>
                    (case load_from_root B io root of
                       Err (Fault e) \<Rightarrow> (drop_mount_lock d, Err (ReconstructFailed e))
                     | Err Panic \<Rightarrow> (drop_mount_lock d, Err LoadPanicked)
                     | Ok meta \<Rightarrow>
                         (let meta = set_snapshots snapshots meta;
                              (path, w) = create_wal wal_config (next_segment_id segs)
                          in case path of
                               None \<Rightarrow> (d, Ok (set_wal w meta, None))
                             | Some name \<Rightarrow>
                                 if wal_fails then (drop_mount_lock d, Err WalFailed)
                                 else (d\<lparr>sd_segments := Some (dir_put name (sw_file (wal_file w)) segs)\<rparr>,
                                       Ok (set_wal w meta, Some name)))))))"

subsection \<open>Options\<close>

definition parse_wal_config :: "rstring option \<Rightarrow> wal_config" where
  "parse_wal_config strategy =
     (let s = (case strategy of None \<Rightarrow> str ''per-op'' | Some s \<Rightarrow> s) in
      if s = str ''flush-on-fsync'' then CfgFlushOnFsync
      else if s = str ''periodic'' then CfgPeriodic 5
      else if s = str ''no-wal'' then CfgNoWal
      else CfgPerOp)"

datatype mount_option = FSName rstring | DefaultPermissions | NoAtime | ReadOnly

datatype session_acl = AclAll | AclOwner

record mount_config =
  mc_options :: "mount_option list"
  mc_acl :: session_acl

definition build_mount_options :: "bool \<Rightarrow> bool \<Rightarrow> mount_config" where
  "build_mount_options noatime allow_other =
     \<lparr>mc_options = [FSName (str ''slicefs''), DefaultPermissions] @ (if noatime then [NoAtime] else []),
      mc_acl = (if allow_other then AclAll else AclOwner)\<rparr>"

subsection \<open>The mount command\<close>

datatype mount_error = LoadError load_error | SnapshotNotFound rstring | SnapshotRootFailed load_fault

record mount_args =
  ma_store_path :: rstring
  ma_noatime :: bool
  ma_allow_other :: bool
  ma_wal_strategy :: "rstring option"
  ma_snapshot_ref :: "rstring option"
  ma_auto_snapshot :: bool

text \<open>
  The directory when the segment file the log writes to is left with the contents \<open>f\<close>; nothing else in it
  changes during a session. After a crash \<open>f\<close> is what survives of the file, and the lock stays; a clean
  unmount drops the store, which writes out what the writer of the log has buffered, and removes the lock.
\<close>

definition left_by :: "rstring option \<Rightarrow> bytes \<Rightarrow> store_dir \<Rightarrow> store_dir" where
  "left_by path f d =
     (case path of None \<Rightarrow> d | Some name \<Rightarrow> d\<lparr>sd_segments := map_option (dir_put name f) (sd_segments d)\<rparr>)"

definition dropped_log :: "'io store \<Rightarrow> bytes" where
  "dropped_log meta = (case ds_wal meta of None \<Rightarrow> [] | Some w \<Rightarrow> writer_drop None (wal_file w))"

definition unmounted :: "rstring option \<Rightarrow> bytes \<Rightarrow> store_dir \<Rightarrow> store_dir" where
  "unmounted path f d = drop_mount_lock (left_by path f d)"

text \<open>
  Up to the start of the session: the file system, its configuration, and the segment file of the log of
  a read-write mount. A snapshot is mounted from its own root, with no log attached; the log of the
  loaded store is not used and gets its header when the command ends, or at once on an error.
\<close>

definition run_mount ::
  "('io, 'st) blockset \<Rightarrow> bool \<Rightarrow> bool \<Rightarrow> mount_args \<Rightarrow> 'io \<Rightarrow> store_dir \<Rightarrow>
   store_dir \<times> (mount_error + ('io, 'st) fs \<times> mount_config \<times> rstring option)" where
  "run_mount B lock_fails wal_fails args io d =
     (case load_store B lock_fails wal_fails (parse_wal_config (ma_wal_strategy args)) io d of
        (d, Err e) \<Rightarrow> (d, Err (LoadError e))
      | (d, Ok (meta, path)) \<Rightarrow>
          (let cfg = build_mount_options (ma_noatime args) (ma_allow_other args);
               start = (\<lambda>meta. set_auto_snapshot (ma_auto_snapshot args) (fs_new meta (Some (ma_store_path args))))
           in case ma_snapshot_ref args of
                None \<Rightarrow> (d, Ok (start meta, cfg, path))
              | Some snap_ref \<Rightarrow>
                  (case find_snapshot snap_ref meta of
                     None \<Rightarrow> (unmounted path (dropped_log meta) d, Err (SnapshotNotFound snap_ref))
                   | Some snap \<Rightarrow>
                       (case load_from_root B (ds_io meta) (se_root snap) of
                          Err e \<Rightarrow> (unmounted path (dropped_log meta) d, Err (SnapshotRootFailed e))
                        | Ok snap_meta \<Rightarrow>
                            (d, Ok (start snap_meta, cfg\<lparr>mc_options := mc_options cfg @ [ReadOnly]\<rparr>, None))))))"

end
