(* ===== verification/Session_Log.thy ===== *)
theory Session_Log
  imports Mount
begin

section \<open>The log of a session\<close>

text \<open>
  No request writes to the log of the store, so the log of a session is empty until the unmount commits;
  and the segment file a mount opens is replayed after all the files that were there before it.
\<close>

subsection \<open>Requests do not log\<close>

definition same_log :: "(('io, 'st) fs, 'a) fs_op \<Rightarrow> bool" where
  "same_log m \<longleftrightarrow> (\<forall>s. ds_wal (fs_meta (fst (m s))) = ds_wal (fs_meta s))"

named_theorems log_intros \<open>operations that leave the log alone\<close>

lemma same_logD: "same_log m \<Longrightarrow> ds_wal (fs_meta (fst (m s))) = ds_wal (fs_meta s)"
  by (simp add: same_log_def)

lemma same_log_combinators [log_intros]:
  "same_log (ret x)" "same_log (fail e)" "same_log (ask_meta g q)"
  "same_log m \<Longrightarrow> (\<And>x. same_log (f x)) \<Longrightarrow> same_log (and_then m f)"
  "(\<And>t. ds_wal (fst (c t)) = ds_wal t) \<Longrightarrow> same_log (on_meta g c)"
  "(\<And>t. ds_wal (h t) = ds_wal t) \<Longrightarrow> same_log (modify_meta h)"
  "same_log m \<Longrightarrow> same_log m' \<Longrightarrow> same_log (if b then m else m')"
  "(\<And>x. same_log (f' x)) \<Longrightarrow> (\<And>x. same_log (g' x)) \<Longrightarrow> same_log (case r of Err x \<Rightarrow> f' x | Ok x \<Rightarrow> g' x)"
  by (simp_all add: same_log_def ret_def fail_def ask_meta_def on_meta_def modify_meta_def and_then_def split_def Let_def
      split: sum.split)

lemma ds_wal_store_ops [simp]:
  "ds_wal (fst (create_inode B m s)) = ds_wal s" "ds_wal (fst (update_inode B m s)) = ds_wal s"
  "ds_wal (fst (delete_inode B i s)) = ds_wal s" "ds_wal (fst (create_directory B p n m s)) = ds_wal s"
  "ds_wal (fst (store_lookup B p n s)) = ds_wal s" "ds_wal (fst (store_link B p n i s)) = ds_wal s"
  "ds_wal (fst (store_unlink B p n s)) = ds_wal s" "ds_wal (fst (set_manifest B i bl s)) = ds_wal s"
  "ds_wal (fst (set_xattr B i n v s)) = ds_wal s" "ds_wal (fst (remove_xattr B i n s)) = ds_wal s"
  "ds_wal (increment_refcount d s) = ds_wal s" "ds_wal (decrement_refcount d s) = ds_wal s"
  by (auto simp: create_inode_def update_inode_def delete_inode_def create_directory_def store_lookup_def store_link_def
      store_unlink_def set_manifest_def set_xattr_def remove_xattr_def increment_refcount_def decrement_refcount_def
      allocate_ino_def Let_def split: prod.splits option.splits sum.splits)

lemma ds_wal_refs [simp]:
  "ds_wal (decrement_opt old m) = ds_wal m" "ds_wal (fold decrement_refcount ds m) = ds_wal m"
  "ds_wal (drop_manifest_refs B i m) = ds_wal m" "ds_wal (forget_inode B i m) = ds_wal m"
  "ds_wal (displace B i meta m) = ds_wal m"
proof -
  show fold: "ds_wal (fold decrement_refcount ds m) = ds_wal m" for ds m
    by (induction ds arbitrary: m) simp_all
  show "ds_wal (decrement_opt old m) = ds_wal m" by (simp add: decrement_opt_def split: option.split)
  show "ds_wal (drop_manifest_refs B i m) = ds_wal m" for m
    by (simp add: drop_manifest_refs_def fold split: sum.split)
  then show "ds_wal (forget_inode B i m) = ds_wal m" for m by (simp add: forget_inode_def)
  then show "ds_wal (displace B i meta m) = ds_wal m" by (simp add: displace_def Let_def)
qed

lemma fs_wal_simps [simp]:
  "ds_wal (fs_meta (set_io io s)) = ds_wal (fs_meta s)" "ds_wal (fs_meta (set_handle fh h s)) = ds_wal (fs_meta s)"
  "ds_wal (fs_meta (drop_handle fh s)) = ds_wal (fs_meta s)"
  by (simp_all add: set_io_def set_handle_def drop_handle_def)

lemma file_ops_log [log_intros]:
  "same_log (store_size B touch i len)" "same_log (commit_digest B i old d)" "same_log (link_or_undo B p n i)"
  "same_log (try_lookup B p n)" "same_log (open_handle B i)" "same_log (test_write B fh off data)"
  "same_log (test_read B iter i off sz)"
proof -
  show size: "same_log (store_size B touch i len)" unfolding store_size_def by (intro log_intros) simp
  show commit: "same_log (commit_digest B i old d)" unfolding commit_digest_def by (intro log_intros) simp_all
  show "same_log (link_or_undo B p n i)" "same_log (try_lookup B p n)" "same_log (open_handle B i)"
    by (simp_all add: same_log_def link_or_undo_def try_lookup_def open_handle_def Let_def split_def split: sum.split)
  show "same_log (test_write B fh off data)"
    by (auto simp: same_log_def test_write_def write_fallback_def Let_def split: option.split write_mode.split prod.split)
  show "same_log (test_read B iter i off sz)"
    by (auto simp: same_log_def test_read_def and_then_def ask_meta_def split: option.split write_mode.split prod.split list.split sum.split)
qed

lemma handle_tail_log:
  assumes "\<And>s. ds_wal (fs_meta (g s)) = ds_wal (fs_meta s)"
  shows "same_log (and_then (commit_digest B i old d) (\<lambda>_. and_then (\<lambda>s. (g s, Ok ())) (\<lambda>_. store_size B touch i n)))"
proof -
  have "same_log (\<lambda>s. (g s, Ok () :: fs_fault + unit))" using assms by (simp add: same_log_def)
  then show ?thesis by (intro log_intros)
qed

lemma close_ops_log [log_intros]:
  "same_log (flush_buffer_for_fsync B now i fh)" "same_log (test_release B now i fh)" "same_log (truncate_committed B i n)"
proof -
  have tail: "ds_wal (fs_meta (fst (and_then (commit_digest B i old d) (\<lambda>_. and_then (\<lambda>s. (set_handle fh h s, Ok ()))
      (\<lambda>_. store_size B touch i n)) s))) = ds_wal (fs_meta s)" for old d h touch n s
    by (rule same_logD [OF handle_tail_log]) simp
  show "same_log (flush_buffer_for_fsync B now i fh)"
    by (auto simp: same_log_def flush_buffer_for_fsync_def Let_def tail split: option.split prod.split)
  have commit: "ds_wal (fs_meta (fst (and_then (commit_digest B i old d) (\<lambda>_. store_size B touch i n) s))) = ds_wal (fs_meta s)"
    for old d touch n s by (rule same_logD) (intro log_intros)
  have set: "ds_wal (fs_meta (fst (on_meta as_eio (set_manifest B i bl) s))) = ds_wal (fs_meta s)" for bl s
    by (rule same_logD) (intro log_intros, simp)
  show "same_log (test_release B now i fh)"
    by (auto simp: same_log_def test_release_def Let_def commit set split: option.split prod.split)
  have push: "ds_wal (fs_meta (fst (and_then (on_meta as_eio (set_manifest B i [d])) (\<lambda>_. modify_meta (increment_refcount d)) s))) =
      ds_wal (fs_meta s)" for d s by (rule same_logD) (intro log_intros, simp_all)
  have "same_log (and_then (modify_meta (case old of [] \<Rightarrow> id | d # _ \<Rightarrow> decrement_refcount d)) (\<lambda>_ s.
      let c = resize (unat n) content in if c = [] then on_meta as_eio (set_manifest B i []) s
      else let (io, d) = push_all B (fs_io s) c in
        and_then (on_meta as_eio (set_manifest B i [d])) (\<lambda>_. modify_meta (increment_refcount d)) (set_io io s)))" for old content
  proof (intro log_intros)
    show "ds_wal ((case old of [] \<Rightarrow> id | d # _ \<Rightarrow> decrement_refcount d) t) = ds_wal t" for t by (simp split: list.split)
    show "same_log (\<lambda>s. let c = resize (unat n) content in if c = [] then on_meta as_eio (set_manifest B i []) s
      else let (io, d) = push_all B (fs_io s) c in
        and_then (on_meta as_eio (set_manifest B i [d])) (\<lambda>_. modify_meta (increment_refcount d)) (set_io io s))"
      by (simp add: same_log_def Let_def set push split: prod.split)
  qed
  from same_logD [OF this] show "same_log (truncate_committed B i n)"
    by (auto simp: same_log_def truncate_committed_def Let_def split: sum.split option.split)
qed

lemma truncate_log [log_intros]:
  "same_log (test_setattr_size B now i fh n)" "same_log (truncate_or_close B now i fh' flags)" "same_log (test_open B now i flags)"
proof -
  have handle: "ds_wal (fs_meta (truncate_handle B f h n s)) = ds_wal (fs_meta s)" for f h n s
    by (auto simp: truncate_handle_def Let_def split: write_mode.split prod.split)
  have tail: "ds_wal (fs_meta (fst (store_size B touch i n s))) = ds_wal (fs_meta s)" for touch n s
    by (rule same_logD [OF file_ops_log(1)])
  have closed: "same_log (and_then (truncate_committed B i n) (\<lambda>_. store_size B (touch_ctime now) i n))" for n
    by (intro log_intros)
  show size: "same_log (test_setattr_size B now i fh n)" for fh n
    using same_logD [OF closed] by (auto simp: same_log_def test_setattr_size_def handle tail split: option.split)
  show close: "same_log (truncate_or_close B now i fh' flags)" for fh'
    using same_logD [OF size [of "Some fh'" 0]]
    by (simp add: same_log_def truncate_or_close_def split_def split: sum.split)
  have "same_log (and_then (open_handle B i) (\<lambda>fh. and_then (truncate_or_close B now i fh flags) (\<lambda>_. ret (fh, True))))"
    by (intro log_intros close)
  from same_logD [OF this] show "same_log (test_open B now i flags)" by (simp add: same_log_def test_open_def Let_def)
qed

lemma name_ops_log [log_intros]:
  "same_log (test_lookup B p n)" "same_log (test_mknod B p n m u g umask)" "same_log (simulate_mkdir B p n m umask u g)"
  "same_log (simulate_unlink B p n)" "same_log (simulate_rmdir B p n)" "same_log (simulate_link B now i p n)"
  "same_log (simulate_rename B now p n p' n' flags)" "same_log (with_inode B i)" "same_log (test_readdir B i offset)"
  "same_log (simulate_readlink B i)" "same_log (test_getxattr B i n)" "same_log (test_listxattr B i)"
  "same_log (test_setxattr B i n v)" "same_log (test_removexattr B i n)" "same_log (create_linked B p n meta)"
  "same_log (test_release_full B now i fh)" "same_log (test_setattr B now i q u' g' sz fh' mt)"
proof -
  show "same_log (test_readdir B i offset)" "same_log (simulate_readlink B i)"
    by (auto simp: same_log_def test_readdir_def simulate_readlink_def and_then_def ask_meta_def split: sum.split list.split)
  show "same_log (test_release_full B now i fh)"
    by (simp add: same_log_def test_release_full_def same_logD [OF close_ops_log(2)])
  show "same_log (test_setattr B now i q u' g' sz fh' mt)"
    unfolding test_setattr_def Let_def by (cases sz) (auto intro!: log_intros)
qed (auto simp: test_lookup_def with_inode_def test_getxattr_def test_listxattr_def test_setxattr_def test_removexattr_def
    simulate_mkdir_def simulate_unlink_def simulate_rmdir_def simulate_link_def rename_forms rename_displace_def rename_tail_def
    test_mknod_def create_linked_undo Let_def intro!: log_intros)

lemma symlink_log [log_intros]: "same_log (simulate_symlink B p n target u g)"
proof -
  have tail: "ds_wal (fs_meta (fst (and_then (on_meta as_eio (set_manifest B i [d])) (\<lambda>_. and_then (modify_meta (increment_refcount d)) (\<lambda>_.
      and_then (store_size B id i n) (\<lambda>_. ret i))) s))) = ds_wal (fs_meta s)" for i d n s
    by (rule same_logD) (intro log_intros, simp_all)
  have "same_log (\<lambda>s. let (io, d) = push_all B (fs_io s) target in
      and_then (on_meta as_eio (set_manifest B i [d])) (\<lambda>_. and_then (modify_meta (increment_refcount d)) (\<lambda>_.
      and_then (store_size B id i n) (\<lambda>_. ret i))) (set_io io s))" for i n
    by (simp add: same_log_def tail split: prod.split)
  then show ?thesis unfolding simulate_symlink_def Let_def [of "of_nat (length target)"]
    by (simp add: Let_def [of "\<lparr>ino = _, mode = _, uid = _, gid = _, nlinks = _, size = _, mtime_sec = _, mtime_nsec = _, ctime_sec = _, ctime_nsec = _\<rparr>"])
      (intro log_intros)
qed

lemma more_ops_log [log_intros]:
  "same_log (test_create_full B now p n m umask u g flags)" "same_log (test_symlink_full B p n t u g)"
  "same_log (test_mkdir_full B p n m umask u g)" "same_log (test_mknod_full B p n m u g umask)"
  "same_log (test_link_full B now i p n)" "same_log (test_flush B now i fh)"
  by (auto simp: test_create_full_def test_create_def test_symlink_full_def test_mkdir_full_def test_mknod_full_def
      test_link_full_def test_flush_def intro!: log_intros)

text \<open>An fsync request flushes the log and may fail there; an empty log stays empty.\<close>

lemma flush_empty_log: "wal_holds w [] 0 \<Longrightarrow> wal_holds (snd (flush_and_sync F w)) [] 0"
  using writer_holds_sync [of _ "[]" 0 "wf_budget F" "wf_sync F"]
  by (cases w)
    (auto simp: map_wal_def per_op_flush_def fof_flush_def periodic_flush_fof end_call_def buffered_holds_def split_def)

definition empty_log :: "('io, 'st) fs \<Rightarrow> bool" where
  "empty_log s \<longleftrightarrow> (\<exists>w. ds_wal (fs_meta s) = Some w \<and> wal_holds w [] 0)"

lemma empty_log_replying: "same_log m \<Longrightarrow> empty_log s \<Longrightarrow> empty_log (fst (replying f (handled ok err m) s))"
  by (simp add: fst_replying empty_log_def same_logD)

lemma empty_log_name: "(\<And>x. empty_log (fst (m x s))) \<Longrightarrow> empty_log s \<Longrightarrow> empty_log (fst (with_name n m s))"
  by (simp add: with_name_def split: option.split)

lemma fsync_empty_log:
  assumes "empty_log s"
  shows "empty_log (fst (test_fsync B F now i fh s))"
proof -
  have "empty_log (fst (flush_buffer_for_fsync B now i fh s))"
    using assms by (simp add: empty_log_def same_logD [OF close_ops_log(1)])
  moreover have "empty_log (fst (case flush_wal F (fs_meta s) of
      (m, Err _) \<Rightarrow> (s\<lparr>fs_meta := m\<rparr>, Err (Errno EIO)) | (m, Ok _) \<Rightarrow> (s\<lparr>fs_meta := m\<rparr>, Ok ())))" if "empty_log s" for s :: "('a, 'b) fs"
    using that flush_empty_log by (auto simp: empty_log_def flush_wal_def Let_def split_def split: sum.split)
  ultimately show ?thesis by (simp add: test_fsync_def and_then_def split_def split: sum.split)
qed

lemma serve_empty_log: "empty_log s \<Longrightarrow> empty_log (fst (serve B W r s))"
  by (cases r)
    (simp_all add: callback_defs empty_log_replying empty_log_name file_ops_log truncate_log name_ops_log more_ops_log
      symlink_log close_ops_log, simp add: fst_replying fsync_empty_log)

lemma session_empty_log: "empty_log s \<Longrightarrow> empty_log (fst (run_all (\<lambda>(W, r). serve B W r) reqs s))"
  by (induction reqs arbitrary: s) (auto simp: split_def Let_def serve_empty_log)

subsection \<open>The segment of a session\<close>

definition good_segments :: "(u64 \<times> bytes) list \<Rightarrow> bool" where
  "good_segments ps \<longleftrightarrow> distinct (map fst ps) \<and> (\<forall>(i, f) \<in> set ps. unat i < 999999 \<and> openable f)"

definition log_of :: "(u64 \<times> bytes) list \<Rightarrow> segment_entry list" where
  "log_of ps = dir_entries (map seg_file (sort_key fst ps))"

lemma segment_number_name: "segment_number (segment_file_name w i) = Some i"
proof -
  have len: "length (str ''segment-'') = 8" "length (str ''.seg'') = 4" by (simp_all add: str_def)
  then have "slice (segment_file_name w i) 8 (length (segment_file_name w i) - 4) = fmt_padded w (unat i)"
    by (simp add: segment_file_name_def slice_def)
  then show ?thesis
    using parse_u64_padded [of "unat i" w] unat_u64_less [of i] segment_file_name_is [of w i]
    by (simp add: segment_number_def)
qed

lemma next_segment_id_files: "next_segment_id (map seg_file ps) = fold max (map fst ps) 0 + 1"
proof -
  have "List.map_filter segment_number (map fst (map seg_file ps)) = map fst ps"
    by (induction ps) (simp_all add: map_filter_simps seg_file_def segment_number_name)
  then show ?thesis by (simp add: next_segment_id_def)
qed

lemma next_segment_id_new:
  assumes "good_segments ps"
  shows "unat (next_segment_id (map seg_file ps)) < 10 ^ 6" "i \<in> fst ` set ps \<Longrightarrow> i < next_segment_id (map seg_file ps)"
proof -
  let ?m = "fold max (map fst ps) 0"
  have max: "?m = Max (set (0 # map fst ps))" using Max.set_eq_fold [of 0 "map fst ps"] by simp
  then have "?m \<in> set (0 # map fst ps)" using Max_in [of "set (0 # map fst ps)"] by simp
  then have small: "unat ?m < 999999" using assms(1) by (auto simp: good_segments_def)
  then have suc: "unat (?m + 1) = unat ?m + 1" by (subst unat_word_ariths) simp
  then show "unat (next_segment_id (map seg_file ps)) < 10 ^ 6" using small by (simp add: next_segment_id_files)
  show "i < next_segment_id (map seg_file ps)" if "i \<in> fst ` set ps"
  proof -
    have "i \<le> ?m" unfolding max by (rule Max_ge) (use that in auto)
    then show ?thesis using suc by (simp add: next_segment_id_files word_less_nat_alt word_le_nat_alt)
  qed
qed

text \<open>The new segment is replayed last, whatever it holds.\<close>

lemma load_with_session:
  assumes good: "good_segments ps" and id: "i = next_segment_id (map seg_file ps)" and f: "openable f"
  shows "load_store_from_segments (map seg_file (ps @ [(i, f)])) =
    Ok (last_root (log_of ps @ segment_entries f), snapshots_of (log_of ps @ segment_entries f))"
proof -
  note new = next_segment_id_new [OF good, folded id]
  have "sort_key fst (ps @ [(i, f)]) = sort_key fst ps @ [(i, f)]"
  proof (rule sort_key_inj_key_eq)
    show "inj_on fst (set (ps @ [(i, f)]))"
      using good new(2) by (auto simp: good_segments_def distinct_map inj_on_def)
    show "sorted (map fst (sort_key fst ps @ [(i, f)]))"
      using new(2) by (auto simp: sorted_append intro: less_imp_le)
  qed simp
  then have E: "log_of (ps @ [(i, f)]) = log_of ps @ segment_entries f"
    by (simp add: log_of_def dir_entries_def seg_file_def)
  have "distinct (map fst (ps @ [(i, f)]))" using good new(2) by (auto simp: good_segments_def)
  moreover have "\<forall>(j, g) \<in> set (ps @ [(i, f)]). unat j < 10 ^ 6" using good new(1) by (auto simp: good_segments_def)
  moreover have "\<forall>(j, g) \<in> set (ps @ [(i, f)]). openable g" using good f by (auto simp: good_segments_def)
  ultimately show ?thesis using load_by_id [of "ps @ [(i, f)]", OF _ _ _ refl] E by (simp add: log_of_def)
qed

lemma load_before_session:
  assumes "good_segments ps"
  shows "load_store_from_segments (map seg_file ps) = Ok (last_root (log_of ps), snapshots_of (log_of ps))"
  by (rule load_by_id) (use assms in \<open>auto simp: good_segments_def log_of_def\<close>)

lemma dir_put_session:
  assumes "good_segments ps" "i = next_segment_id (map seg_file ps)"
  shows "dir_put (segment_file_name 6 i) f (map seg_file ps) = map seg_file (ps @ [(i, f)])"
    "dir_put (segment_file_name 6 i) f (map seg_file (ps @ [(i, g)])) = map seg_file (ps @ [(i, f)])"
proof -
  note new = next_segment_id_new [OF assms(1), folded assms(2)]
  have fresh: "segment_file_name 6 i \<notin> fst ` set (map seg_file ps)"
  proof
    assume "segment_file_name 6 i \<in> fst ` set (map seg_file ps)"
    then obtain j h where j: "(j, h) \<in> set ps" "segment_file_name 6 i = segment_file_name 6 j" by (auto simp: seg_file_def)
    then have "i = j" using segment_name_inj [of 6 i j] new(1) assms(1) by (auto simp: good_segments_def)
    then show False using new(2) [of j] j(1) by force
  qed
  show "dir_put (segment_file_name 6 i) f (map seg_file ps) = map seg_file (ps @ [(i, f)])"
    using dir_put_fresh [OF fresh] by (simp add: seg_file_def)
  have "dir_put n f (fs @ [(n, g)]) = fs @ [(n, f)]" if "n \<notin> fst ` set fs" for n and fs :: seg_dir
    using that by (induction fs) auto
  from this [OF fresh] show "dir_put (segment_file_name 6 i) f (map seg_file (ps @ [(i, g)])) = map seg_file (ps @ [(i, f)])"
    by (simp add: seg_file_def)
qed

lemma crash_openable:
  assumes "wal_holds w es d" "crash_image (wal_file w) f"
  shows "openable f"
proof -
  obtain j rest where w: "sw_written (wal_file w) = segment_header_bytes j @ rest"
    using assms(1) by (cases w) (auto simp: writer_holds_def buffered_holds_def)
  obtain n where "n \<le> length (sw_file (wal_file w))" "f = take n (sw_file (wal_file w))" using assms(2) by (auto simp: crash_image_def)
  then have f: "f = take n (sw_written (wal_file w))" by (simp add: sw_written_def)
  show ?thesis
  proof (cases "n < 16")
    case True
    then show ?thesis by (simp add: openable_def f min_less_iff_disj)
  next
    case False
    then have "f = segment_header_bytes j @ take (n - 16) rest" by (simp add: f w)
    then show ?thesis by (simp add: openable_def reader_open_segment)
  qed
qed

text \<open>The file after a log is dropped.\<close>

lemma dropped_replay:
  assumes "wal_holds w es (length es)" "\<forall>e \<in> set es. entry_fits e"
  shows "segment_entries (writer_drop b (wal_file w)) = map norm_entry es" "openable (writer_drop b (wal_file w))"
proof -
  obtain w' where w': "wal_holds w' es (length es)" "crash_image (wal_file w') (writer_drop b (wal_file w))"
    using assms(1) by (rule wal_drop_image)
  from dyn.crash_replay [OF w'(1) assms(2) w'(2)] show "segment_entries (writer_drop b (wal_file w)) = map norm_entry es" by auto
  show "openable (writer_drop b (wal_file w))" by (rule crash_openable [OF w'])
qed

end
