(* ===== verification/Remount.thy ===== *)
theory Remount
  imports Session_Log
begin

section \<open>What survives an unmount and a crash\<close>

text \<open>
  A session of requests between two mounts: the state at a clean unmount is what the next mount finds
  (unless the session ran without a log), and after a crash the next mount finds the state the session
  started from.
\<close>

subsection \<open>Mounting\<close>

lemma load_from_root_io: "load_from_root B io r = Ok t \<Longrightarrow> ds_io t = io"
  by (auto simp: load_from_root_def Let_def split: option.splits if_splits sum.splits)

lemma load_store_result:
  assumes run: "load_store B lock_fails wal_fails config io d = (d1, Ok (m, Some n))" and segs: "sd_segments d = Some segs"
  shows "\<not> sd_legacy d1 \<and> n = segment_file_name 6 (next_segment_id segs) \<and> (\<exists>g. sd_segments d1 = Some (dir_put n g segs)) \<and>
    (\<exists>w. ds_wal m = Some w \<and> wal_holds w [] 0) \<and> ds_io m = io"
proof -
  obtain d' u where lock: "take_lock lock_fails d = (d', Ok u)"
    using run segs by (simp add: load_store_def split: if_splits prod.splits sum.splits)
  have leg: "\<not> sd_legacy d" using run by (auto simp: load_store_def split: if_splits)
  have d': "\<not> sd_legacy d'"
    using lock leg by (auto simp: take_lock_def acquire_mount_lock_def drop_mount_lock_def split: if_splits)
  obtain root snaps where load: "load_store_from_segments segs = Ok (Some root, snaps)"
    using run segs leg lock by (auto simp: load_store_def split: sum.splits option.splits)
  obtain t where t: "load_from_root B io root = Ok t"
    using run segs leg lock load by (auto simp: load_store_def split: sum.splits load_fault.splits)
  obtain p w where w: "create_wal config (next_segment_id segs) = (p, w)" by (metis surj_pair)
  have p: "p = Some n" "\<not> wal_fails" "m = set_wal w (set_snapshots snaps t)"
    "d1 = d'\<lparr>sd_segments := Some (dir_put n (sw_file (wal_file w)) segs)\<rparr>"
    using run segs leg lock load t w by (auto simp: load_store_def Let_def split: option.splits if_splits)
  have "config \<noteq> CfgNoWal" using w p(1) by (auto simp: create_wal_def)
  from create_wal_holds [OF this, of "next_segment_id segs"] have "wal_holds w [] 0" by (simp add: w)
  moreover have "n = segment_file_name 6 (next_segment_id segs)"
    using w p(1) by (auto simp: create_wal_def Let_def split: wal_config.splits)
  ultimately show ?thesis using d' load_from_root_io [OF t] by (auto simp: p(3,4) set_wal_def set_snapshots_def)
qed

lemma mount_result:
  assumes run: "run_mount B lock_fails wal_fails args io d = (d1, Ok (s0, cfg, Some n))" and segs: "sd_segments d = Some segs"
  shows "\<not> sd_legacy d1" "n = segment_file_name 6 (next_segment_id segs)" "\<exists>g. sd_segments d1 = Some (dir_put n g segs)"
    "empty_log s0" "fs_io s0 = io"
proof -
  obtain m where "load_store B lock_fails wal_fails (parse_wal_config (ma_wal_strategy args)) io d = (d1, Ok (m, Some n))"
    "fs_meta s0 = m"
    using run by (auto simp: run_mount_def Let_def set_auto_snapshot_def fs_new_def split: prod.splits sum.splits option.splits)
  from load_store_result [OF this(1) segs] this(2)
  show "\<not> sd_legacy d1" "n = segment_file_name 6 (next_segment_id segs)" "\<exists>g. sd_segments d1 = Some (dir_put n g segs)"
    "empty_log s0" "fs_io s0 = io" by (auto simp: empty_log_def)
qed

text \<open>A mount without a log leaves the segment files alone.\<close>

lemma mount_no_log:
  assumes run: "run_mount B lock_fails wal_fails args io d = (d1, Ok (s0, cfg, path))" and segs: "sd_segments d = Some segs"
    and rw: "ma_snapshot_ref args = None"
  shows "path = None \<longleftrightarrow> parse_wal_config (ma_wal_strategy args) = CfgNoWal"
    and "path = None \<Longrightarrow> \<not> sd_legacy d1 \<and> sd_segments d1 = Some segs \<and> fs_io s0 = io"
proof -
  let ?config = "parse_wal_config (ma_wal_strategy args)"
  obtain m where load: "load_store B lock_fails wal_fails ?config io d = (d1, Ok (m, path))" "fs_meta s0 = m"
    using run rw by (auto simp: run_mount_def Let_def set_auto_snapshot_def fs_new_def split: prod.splits sum.splits)
  have leg: "\<not> sd_legacy d" using load(1) by (auto simp: load_store_def split: if_splits)
  obtain d' u where lock: "take_lock lock_fails d = (d', Ok u)"
    using load(1) segs by (simp add: load_store_def split: if_splits prod.splits sum.splits)
  have d': "\<not> sd_legacy d'" "sd_segments d' = Some segs"
    using lock leg segs by (auto simp: take_lock_def acquire_mount_lock_def drop_mount_lock_def split: if_splits)
  obtain root snaps where root: "load_store_from_segments segs = Ok (Some root, snaps)"
    using load(1) segs leg lock by (auto simp: load_store_def split: sum.splits option.splits)
  obtain st where st: "load_from_root B io root = Ok st"
    using load(1) segs leg lock root by (auto simp: load_store_def split: sum.splits load_fault.splits)
  obtain p w where w: "create_wal ?config (next_segment_id segs) = (p, w)" by (metis surj_pair)
  have p: "path = p" "m = set_wal w (set_snapshots snaps st)" "p = None \<Longrightarrow> d1 = d'"
    using load(1) segs leg lock root st w by (auto simp: load_store_def Let_def split: option.splits if_splits)
  show "path = None \<longleftrightarrow> ?config = CfgNoWal"
    using w p(1) by (auto simp: create_wal_def Let_def split: wal_config.splits)
  show "\<not> sd_legacy d1 \<and> sd_segments d1 = Some segs \<and> fs_io s0 = io" if "path = None"
    using d' p that load(2) load_from_root_io [OF st] by (simp add: set_wal_def set_snapshots_def)
qed

lemma take_lock_ok: "take_lock False d = (d\<lparr>sd_lock := True\<rparr>, Ok ())"
  by (simp add: take_lock_def acquire_mount_lock_def drop_mount_lock_def)

lemma mount_succeeds:
  assumes "\<not> sd_legacy d" "sd_segments d = Some segs" "load_store_from_segments segs = Ok (Some r, snaps)"
    "load_from_root B io r = Ok t" "ma_snapshot_ref args = None"
  shows "\<exists>d2 s2 cfg n2 w. run_mount B False False args io d = (d2, Ok (s2, cfg, n2)) \<and>
    fs_meta s2 = set_wal w (set_snapshots snaps t) \<and> fs_open_files s2 = [] \<and>
    (parse_wal_config (ma_wal_strategy args) \<noteq> CfgNoWal \<longrightarrow> n2 \<noteq> None)"
proof -
  let ?config = "parse_wal_config (ma_wal_strategy args)"
  obtain p w where w: "create_wal ?config (next_segment_id segs) = (p, w)" by (metis surj_pair)
  then have p: "?config \<noteq> CfgNoWal \<longrightarrow> p \<noteq> None" by (auto simp: create_wal_def Let_def split: wal_config.splits)
  obtain d2 where "load_store B False False ?config io d = (d2, Ok (set_wal w (set_snapshots snaps t), p))"
    using assms w by (cases p) (simp_all add: load_store_def take_lock_ok Let_def)
  then have "run_mount B False False args io d = (d2, Ok (set_auto_snapshot (ma_auto_snapshot args)
      (fs_new (set_wal w (set_snapshots snaps t)) (Some (ma_store_path args))),
      build_mount_options (ma_noatime args) (ma_allow_other args), p))" by (simp add: run_mount_def assms(5))
  with p show ?thesis by (simp add: set_auto_snapshot_def fs_new_def) blast
qed

text \<open>A root that a commit of a store with the state \<open>a\<close> wrote, in a storage that may have grown since.\<close>

definition committed :: "('io, 'st) blockset \<Rightarrow> 'io \<Rightarrow> digest224 \<Rightarrow> meta_state \<Rightarrow> bool" where
  "committed B io r a \<longleftrightarrow> (\<exists>F m m'. store_rel B m a \<and> a_inodes a 1 \<noteq> None \<and> store_small m \<and>
     commit B F m = (m', Ok r) \<and> bs_grows B (ds_io m') io)"

lemma committed_grows: "committed B io r a \<Longrightarrow> bs_grows B io io' \<Longrightarrow> committed B io' r a"
  unfolding committed_def by (elim exE conjE, intro exI conjI) (assumption | erule (1) bs_grows_trans)+

lemma committed_mount:
  assumes "blockset_laws B" "committed B io r a" "bs_ok B io" "\<not> sd_legacy d" "sd_segments d = Some segs"
    "load_store_from_segments segs = Ok (Some r, snaps)" "ma_snapshot_ref args = None"
  shows "\<exists>d2 s2 cfg n2. run_mount B False False args io d = (d2, Ok (s2, cfg, n2)) \<and> fs_rel B s2 a \<and>
    fs_open_files s2 = [] \<and> fs_io s2 = io \<and> (parse_wal_config (ma_wal_strategy args) \<noteq> CfgNoWal \<longrightarrow> n2 \<noteq> None)"
proof -
  obtain t where t: "load_from_root B io r = Ok t" "store_rel B t a" "ds_io t = io"
    using assms(2) commit_load_rel [OF assms(1) _ _ _ _ _ assms(3)] unfolding committed_def by blast
  obtain d2 s2 cfg n2 w where "run_mount B False False args io d = (d2, Ok (s2, cfg, n2))"
    "fs_meta s2 = set_wal w (set_snapshots snaps t)" "fs_open_files s2 = []"
    "parse_wal_config (ma_wal_strategy args) \<noteq> CfgNoWal \<longrightarrow> n2 \<noteq> None"
    using mount_succeeds [OF assms(4-6) t(1) assms(7)] by (elim exE conjE)
  moreover have "fs_rel B s2 a \<and> fs_io s2 = io"
    using t(2,3) by (simp add: fs_rel_def store_rel_def set_wal_def set_snapshots_def calculation(2,3))
  ultimately show ?thesis by blast
qed

subsection \<open>What an unmount logs\<close>

definition logs :: "segment_entry list \<Rightarrow> 'io store \<Rightarrow> bool" where
  "logs es m \<longleftrightarrow> (\<exists>w d. ds_wal m = Some w \<and> wal_holds w es d)"

lemma log_entry_logs: "logs es m \<Longrightarrow> logs (es @ [wal_entry_to_segment e]) (log_wal_entry no_fault e m)"
proof -
  assume "logs es m"
  then obtain w d where w: "ds_wal m = Some w" "wal_holds w es d" unfolding logs_def by blast
  from dyn.log_holds [OF w(2), of e] w(1) show ?thesis by (auto simp: logs_def log_wal_entry_def)
qed

lemma logs_cong: "ds_wal m' = ds_wal m \<Longrightarrow> logs es m' = logs es m"
  by (simp add: logs_def)

lemma commit_logs:
  assumes "logs es m" "commit B no_fault m = (m', Ok r)"
  shows "logs (es @ [RootUpdate r]) m'"
proof -
  obtain io root where "commit B no_fault m =
      (log_wal_entry no_fault (WalRootUpdate root) (m\<lparr>ds_io := io, ds_last_root := Some root\<rparr>), Ok root)" by (rule commit_steps)
  then show ?thesis
    using log_entry_logs [of es "m\<lparr>ds_io := io, ds_last_root := Some root\<rparr>" "WalRootUpdate root"] assms
    by (auto simp: logs_def)
qed

lemma commit_committed:
  assumes laws: "blockset_laws B" and rel: "store_rel B m a" and root: "a_inodes a 1 \<noteq> None" and small: "store_small m"
    and run: "commit B F m = (m', r)"  and ok: "bs_ok B (ds_io m')"
  shows "\<exists>d. r = Ok d \<and> committed B (ds_io m') d a \<and> store_rel B m' a \<and> store_small m' \<and> bs_grows B (ds_io m) (ds_io m')"
proof -
  obtain io d where c: "commit B F m = (log_wal_entry F (WalRootUpdate d) (m\<lparr>ds_io := io, ds_last_root := Some d\<rparr>), Ok d)"
    by (rule commit_steps)
  have m': "m' = (log_wal_entry F (WalRootUpdate d) (m\<lparr>ds_io := io, ds_last_root := Some d\<rparr>))" "r = Ok d" using c run by simp_all
  have grows: "bs_grows B (ds_io m) (ds_io m')" using commit_grows [OF laws, of m F] run by simp
  have same: "store_rel B (log_wal_entry F e (n\<lparr>ds_last_root := x\<rparr>)) a = store_rel B n a"
    "store_small (log_wal_entry F e (n\<lparr>ds_io := io, ds_last_root := x\<rparr>)) = store_small n" for e n x
    by (simp_all add: store_rel_def store_small_def log_wal_entry_def split: option.split)
  have io: "ds_io m' = io" by (simp add: m' log_wal_entry_def split: option.split)
  have "store_rel B (m\<lparr>ds_io := io\<rparr>) a" using store_rel_grows [OF rel grows ok] by (simp add: io)
  then have "store_rel B m' a" using same(1) [of _ _ "m\<lparr>ds_io := io\<rparr>"] by (simp add: m')
  moreover have "store_small m'" using same(2) small by (simp add: m')
  moreover have "committed B (ds_io m') d a" unfolding committed_def
    by (rule exI [of _ F], rule exI [of _ m], rule exI [of _ m']) (simp add: rel root small run m'(2) del: not_None_eq)
  ultimately show ?thesis using m'(2) grows by blast
qed

lemma snapshot_logs:
  assumes "logs es m" "commit B no_fault m = (m2, Ok r2)"
  shows "\<exists>v. logs (es @ [RootUpdate r2, SnapshotRecord v r2 now (Some n)])
      (fst (create_snapshot B no_fault no_fault now (Some n) m)) \<and>
    ds_io (fst (create_snapshot B no_fault no_fault now (Some n) m)) = ds_io m2"
proof -
  let ?m3 = "log_wal_entry no_fault (WalSnapshot (next_version m2) r2 now (Some n)) m2"
  have "logs (es @ [RootUpdate r2, SnapshotRecord (next_version m2) r2 now (Some n)]) ?m3"
    using log_entry_logs [OF commit_logs [OF assms], of "WalSnapshot (next_version m2) r2 now (Some n)"] by simp
  moreover have "ds_io ?m3 = ds_io m2" by (simp add: log_wal_entry_def split: option.split)
  ultimately show ?thesis by (auto simp: create_snapshot_def assms(2) Let_def logs_def)
qed

lemma shutdown_logs:
  assumes "logs es m"
  shows "\<exists>w. ds_wal (fst (shutdown_wal no_fault m)) = Some w \<and> wal_holds w es (length es)"
    "ds_io (fst (shutdown_wal no_fault m)) = ds_io m"
proof -
  obtain w d where w: "ds_wal m = Some w" "wal_holds w es d" using assms unfolding logs_def by blast
  from dyn.stop_holds [OF w(2)] w(1)
  show "\<exists>w. ds_wal (fst (shutdown_wal no_fault m)) = Some w \<and> wal_holds w es (length es)"
    "ds_io (fst (shutdown_wal no_fault m)) = ds_io m"
    by (simp_all add: shutdown_wal_def Let_def split_def)
qed

lemma unmount_name: "length (str ''auto-unmount'') = 12" "utf8_valid (str ''auto-unmount'')"
  by (simp_all add: str_def)

lemma destroy_log:
  assumes laws: "blockset_laws B" and log: "empty_log s" and rel: "fs_rel B s a" "a_inodes a 1 \<noteq> None" "store_small (fs_meta s)"
    and s': "s' = fst (test_destroy B no_fault no_fault no_fault no_fault now s)" and ok: "bs_ok B (fs_io s')"
  shows "\<exists>w es r. ds_wal (fs_meta s') = Some w \<and> wal_holds w es (length es) \<and> (\<forall>e \<in> set es. entry_fits e) \<and>
    last_root (map norm_entry es) = Some r \<and> committed B (fs_io s') r a \<and> bs_grows B (fs_io s) (fs_io s')"
proof -
  have store: "store_rel B (fs_meta s) a" using rel(1) by (simp add: fs_rel_def)
  have log0: "logs [] (fs_meta s)" using log by (auto simp: empty_log_def logs_def)
  obtain m1 r1 where c1: "commit B no_fault (fs_meta s) = (m1, Ok r1)" using commit_steps [of B "fs_meta s" no_fault] by metis
  obtain m2 r2 where c2: "commit B no_fault m1 = (m2, Ok r2)" using commit_steps [of B m1 no_fault] by metis
  have log1: "logs [RootUpdate r1] m1" using commit_logs [OF log0 c1] by simp
  have m: "fs_meta s' = fst (shutdown_wal no_fault
      (if fs_auto_snapshot s then fst (create_snapshot B no_fault no_fault now (Some (str ''auto-unmount'')) m1) else m1))"
    by (simp add: s' test_destroy_def c1)
  show ?thesis
  proof (cases "fs_auto_snapshot s")
    case True
    from snapshot_logs [OF log1 c2, of now "str ''auto-unmount''"] obtain v where
      v: "logs [RootUpdate r1, RootUpdate r2, SnapshotRecord v r2 now (Some (str ''auto-unmount''))]
        (fst (create_snapshot B no_fault no_fault now (Some (str ''auto-unmount'')) m1))"
      "ds_io (fst (create_snapshot B no_fault no_fault now (Some (str ''auto-unmount'')) m1)) = ds_io m2" by auto
    have io: "fs_io s' = ds_io m2" using shutdown_logs(2) [OF v(1)] v(2) m True by simp
    have g2: "bs_grows B (ds_io m1) (ds_io m2)" using commit_grows [OF laws, of m1 no_fault] c2 by simp
    have ok1: "bs_ok B (ds_io m1)" using bs_growsD(1) [OF g2] ok io by simp
    from commit_committed [OF laws store rel(2,3) c1 ok1] have one: "store_rel B m1 a" "store_small m1"
      "bs_grows B (fs_io s) (ds_io m1)" by auto
    from commit_committed [OF laws one(1) rel(2) one(2) c2] ok io have "committed B (fs_io s') r2 a" by simp
    moreover have "bs_grows B (fs_io s) (fs_io s')" using bs_grows_trans [OF one(3) g2] io by simp
    moreover have "\<forall>e \<in> set [RootUpdate r1, RootUpdate r2, SnapshotRecord v r2 now (Some (str ''auto-unmount''))]. entry_fits e"
      using unmount_name by simp
    moreover have "last_root (map norm_entry [RootUpdate r1, RootUpdate r2, SnapshotRecord v r2 now (Some (str ''auto-unmount''))]) = Some r2"
      by (simp add: last_root_def)
    ultimately show ?thesis using shutdown_logs(1) [OF v(1)] unfolding m if_P [OF True] by blast
  next
    case False
    have io: "fs_io s' = ds_io m1" using shutdown_logs(2) [OF log1] m False by simp
    from commit_committed [OF laws store rel(2,3) c1] ok io
    have "committed B (fs_io s') r1 a" "bs_grows B (fs_io s) (fs_io s')" by simp_all
    moreover have "last_root (map norm_entry [RootUpdate r1]) = Some r1" "\<forall>e \<in> set [RootUpdate r1]. entry_fits e"
      by (simp_all add: last_root_def)
    ultimately show ?thesis using shutdown_logs(1) [OF log1] unfolding m if_not_P [OF False] by blast
  qed
qed

lemma destroy_grows:
  assumes "blockset_laws B"
  shows "bs_grows B (fs_io s) (fs_io (fst (test_destroy B F1 F2 F3 F4 now s)))"
proof -
  obtain m1 r1 where c1: "commit B F1 (fs_meta s) = (m1, Ok r1)" using commit_steps [of B "fs_meta s" F1] by metis
  obtain m2 r2 where c2: "commit B F2 m1 = (m2, Ok r2)" using commit_steps [of B m1 F2] by metis
  have stop: "ds_io (fst (shutdown_wal F4 m)) = ds_io m" for m :: "'a store"
    by (simp add: shutdown_wal_def Let_def split_def split: option.split)
  have log: "ds_io (log_wal_entry F3 e m) = ds_io m" for e and m :: "'a store" by (simp add: log_wal_entry_def split: option.split)
  have "bs_grows B (fs_io s) (ds_io m1)" "bs_grows B (ds_io m1) (ds_io m2)"
    using commit_grows [OF assms, of "fs_meta s" F1] commit_grows [OF assms, of m1 F2] c1 c2 by simp_all
  moreover from this have "bs_grows B (fs_io s) (ds_io m2)" by (rule bs_grows_trans)
  ultimately show ?thesis by (simp add: test_destroy_def c1 create_snapshot_def c2 Let_def stop log)
qed

lemma session_grows: "blockset_laws B \<Longrightarrow> bs_grows B (fs_io s) (fs_io (fst (run_all (\<lambda>(W, r). serve B W r) reqs s)))"
proof (induction reqs arbitrary: s)
  case (Cons wr reqs)
  obtain W r where "wr = (W, r)" by (metis surj_pair)
  then show ?case using bs_grows_trans [OF serve_grows [OF Cons.prems, of s W r] Cons.IH [OF Cons.prems]] by (simp add: split_def Let_def)
qed simp

lemma read_closed:
  assumes "fs_rel B s a" "fs_open_files s = []" "enumerates iter" "a_manifests a i \<noteq> None" "file_has B (fs_io s) a i c"
  shows "snd (test_read B iter i off sz s) = Ok (sub_range c off sz)"
proof -
  have "set (iter []) = {}" using assms(3) by simp
  then have none: "iter (fs_open_files s) = []" by (simp add: assms(2))
  have store: "store_rel B (fs_meta s) a" using assms(1) by (simp add: fs_rel_def)
  have nil: "sub_range [] off sz = []" by (simp add: sub_range_def slice_def)
  show ?thesis
    using assms(4,5)
    by (auto simp: test_read_def none and_then_def ask_meta_def map_errno_def get_manifest_at [OF store] nil
        file_has_def unwrap_or_default_def split: option.splits list.splits)
qed

lemma session_dir:
  assumes "good_segments ps" "sd_segments d = Some (map seg_file ps)" "i = next_segment_id (map seg_file ps)"
    and "run_mount B lock_fails wal_fails args io d = (d1, Ok (s0, cfg, Some n))"
  shows "sd_segments (left_by (Some n) f d1) = Some (map seg_file (ps @ [(i, f)]))" "\<not> sd_legacy (left_by (Some n) f d1)"
proof -
  note res = mount_result [OF assms(4,2)]
  then obtain g where "sd_segments d1 = Some (map seg_file (ps @ [(i, g)]))"
    using dir_put_session(1) [OF assms(1,3)] assms(3) by auto
  then show "sd_segments (left_by (Some n) f d1) = Some (map seg_file (ps @ [(i, f)]))"
    using dir_put_session(2) [OF assms(1,3)] res(2) assms(3) by (simp add: left_by_def)
  show "\<not> sd_legacy (left_by (Some n) f d1)" using res(1) by (simp add: left_by_def)
qed

lemma empty_log_replay:
  assumes "empty_log s" "ds_wal (fs_meta s) = Some w" "crash_image (wal_file w) f"
  shows "segment_entries f = []" "openable f"
proof -
  have w: "wal_holds w [] 0" using assms(1,2) by (simp add: empty_log_def)
  from dyn.crash_replay [OF w _ assms(3)] show "segment_entries f = []" by simp
  show "openable f" by (rule crash_openable [OF w assms(3)])
qed

subsection \<open>A store with one file\<close>

definition demo_commit :: "bytes list store \<times> (meta_error + digest224)" where
  "demo_commit = commit list_blockset no_fault (fs_meta one_file)"

definition demo_root :: digest224 where
  "demo_root = (case snd demo_commit of Ok r \<Rightarrow> r | Err _ \<Rightarrow> Digest224 0 0 0 0 0 0 0)"

definition demo_io :: "bytes list" where
  "demo_io = ds_io (fst demo_commit)"

definition demo_segs :: "(u64 \<times> bytes) list" where
  "demo_segs = [(1, segment_header_bytes 1 @ enc_record (RootUpdate demo_root))]"

definition demo_dir :: store_dir where
  "demo_dir = \<lparr>sd_legacy = False, sd_segments = Some (map seg_file demo_segs), sd_lock = False\<rparr>"

definition demo_args :: mount_args where
  "demo_args = \<lparr>ma_store_path = str ''f'', ma_noatime = False, ma_allow_other = False, ma_wal_strategy = None,
     ma_snapshot_ref = None, ma_auto_snapshot = True\<rparr>"

lemma demo_segs_good: "good_segments demo_segs" "sd_segments demo_dir = Some (map seg_file demo_segs)"
  "load_store_from_segments (map seg_file demo_segs) = Ok (Some demo_root, [])"
proof -
  show good: "good_segments demo_segs" by (simp add: good_segments_def demo_segs_def one_root_segment)
  show "sd_segments demo_dir = Some (map seg_file demo_segs)" by (simp add: demo_dir_def)
  have "log_of demo_segs = [RootUpdate demo_root]"
    by (simp add: log_of_def demo_segs_def dir_entries_def seg_file_def one_root_segment)
  then show "load_store_from_segments (map seg_file demo_segs) = Ok (Some demo_root, [])"
    using load_before_session [OF good] by (simp add: last_root_def snapshots_of_def map_filter_simps)
qed

lemma demo_io_few: "few_pushes 111 [] demo_io"
  unfolding demo_io_def demo_commit_def by (rule few_pushes_trans [OF one_file_few commit_few]) simp

lemma small_maps:
  assumes "store_rel B m a" "card (dom (a_inodes a)) < 2 ^ 58" "card (dom (a_dirs a)) < 2 ^ 58"
    "card (dom (a_manifests a)) < 2 ^ 58" "card (dom (a_xattrs a)) < 2 ^ 58" "card (dom (a_refs a)) < 2 ^ 58"
  shows "store_small m"
  using assms(2-6) store_relD(1-5) [OF assms(1), THEN denotes_card] by (simp add: store_small_def)

lemma one_file_store: "store_small (fs_meta one_file)" "a_inodes one_file_maps 1 \<noteq> None"
proof -
  have rel: "store_rel list_blockset (fs_meta one_file) one_file_maps" using one_file_rel by (simp add: fs_rel_def)
  show "store_small (fs_meta one_file)"
    by (rule small_maps [OF rel]) (simp_all add: one_file_maps_def ns_eval demo_strs)
  show "a_inodes one_file_maps 1 \<noteq> None" by (simp add: one_file_maps_def ns_eval demo_strs)
qed

lemma demo_committed: "committed list_blockset demo_io demo_root one_file_maps" "bs_ok list_blockset demo_io"
proof -
  show ok: "bs_ok list_blockset demo_io" by (rule few_ok [OF demo_io_few]) simp_all
  obtain m r where c: "commit list_blockset no_fault (fs_meta one_file) = (m, r)" by (metis surj_pair)
  have rel: "store_rel list_blockset (fs_meta one_file) one_file_maps" using one_file_rel by (simp add: fs_rel_def)
  have m: "ds_io m = demo_io" by (simp add: demo_io_def demo_commit_def c)
  from commit_committed [OF list_blockset_laws rel one_file_store(2,1) c] ok m obtain d where
    "r = Ok d" "committed list_blockset demo_io d one_file_maps" by auto
  then show "committed list_blockset demo_io demo_root one_file_maps" by (simp add: demo_root_def demo_commit_def c)
qed

lemma demo_mount:
  obtains d1 s0 cfg n where "run_mount list_blockset False False demo_args demo_io demo_dir = (d1, Ok (s0, cfg, Some n))"
    "fs_rel list_blockset s0 one_file_maps"
proof -
  have "\<not> sd_legacy demo_dir" "ma_snapshot_ref demo_args = None" by (simp_all add: demo_dir_def demo_args_def)
  moreover have "parse_wal_config (ma_wal_strategy demo_args) = CfgPerOp"
    by (simp add: demo_args_def parse_wal_config_def, simp add: str_def)
  ultimately show ?thesis
    using committed_mount [OF list_blockset_laws demo_committed _ demo_segs_good(2,3), of demo_args] that by auto
qed

lemma destroy_few: "few_pushes 14 (fs_io s) (fs_io (fst (test_destroy list_blockset F1 F2 F3 F4 now s)))"
proof -
  obtain m1 r1 where c1: "commit list_blockset F1 (fs_meta s) = (m1, Ok r1)" using commit_steps [of list_blockset "fs_meta s" F1] by metis
  obtain m2 r2 where c2: "commit list_blockset F2 m1 = (m2, Ok r2)" using commit_steps [of list_blockset m1 F2] by metis
  have stop: "ds_io (fst (shutdown_wal F4 m)) = ds_io m" for m :: "bytes list store"
    by (simp add: shutdown_wal_def Let_def split_def split: option.split)
  have "few_pushes 7 (fs_io s) (ds_io m1)" "few_pushes 7 (ds_io m1) (ds_io m2)"
    using commit_few [of "fs_meta s" F1] commit_few [of m1 F2] c1 c2 by simp_all
  moreover from this have "few_pushes 14 (fs_io s) (ds_io m2)" "few_pushes 14 (fs_io s) (ds_io m1)"
    by (auto simp: few_pushes_def)
  moreover have "ds_io (log_wal_entry F3 e m2) = ds_io m2" for e by (simp add: log_wal_entry_def split: option.split)
  ultimately show ?thesis by (simp add: test_destroy_def c1 create_snapshot_def c2 Let_def stop)
qed

subsection \<open>Properties\<close>

text \<open>
  C19. A clean unmount with a log keeps everything: mount a store read-write, serve any requests,
  unmount, all without a crash or a failing write. The next mount succeeds. If the session had a log (any
  strategy but \<^verbatim>\<open>no-wal\<close>), it finds exactly the inodes, directories, extended attributes and counts the
  session ended with, and every file reads as the session left its committed contents. With \<^verbatim>\<open>no-wal\<close> nothing
  records the new root, and the next mount finds the state the session started from, although the
  unmount was clean.
\<close>

theorem unmount_remount:
  assumes "blockset_laws B" and "good_segments ps" and "sd_segments d = Some (map seg_file ps)"
    and "run_mount B lock_fails wal_fails args io d = (d1, Ok (s0, cfg, path))" and "ma_snapshot_ref args = None"
    and "load_store_from_segments (map seg_file ps) = Ok (Some r0, snaps)" and "committed B io r0 a0"
    and "s = fst (run_all (\<lambda>(W, r). serve B W r) reqs s0)"
    and "fs_rel B s a" and "a_inodes a 1 \<noteq> None" and "store_small (fs_meta s)"
    and "s' = fst (test_destroy B no_fault no_fault no_fault no_fault now s)" and "bs_ok B (fs_io s')"
    and "ma_snapshot_ref args' = None" and "enumerates iter"
  shows "\<exists>d2 s2 cfg' n2.
    run_mount B False False args' (fs_io s') (unmounted path (dropped_log (fs_meta s')) d1) = (d2, Ok (s2, cfg', n2)) \<and>
    fs_open_files s2 = [] \<and>
    (if parse_wal_config (ma_wal_strategy args) = CfgNoWal then fs_rel B s2 a0
     else fs_rel B s2 a \<and> (\<forall>i c off sz. a_manifests a i \<noteq> None \<and> file_has B (fs_io s) a i c \<longrightarrow>
       snd (test_read B iter i off sz s2) = Ok (sub_range c off sz)))"
proof (cases path)
  case None
  note log = mount_no_log [OF assms(4,3,5)]
  have none: "parse_wal_config (ma_wal_strategy args) = CfgNoWal" using log(1) None by simp
  have d1: "\<not> sd_legacy d1" "sd_segments d1 = Some (map seg_file ps)" "fs_io s0 = io" using log(2) None by simp_all
  have "bs_grows B (fs_io s0) (fs_io s)" unfolding assms(8) by (rule session_grows [OF assms(1)])
  from bs_grows_trans [OF this destroy_grows [OF assms(1)]] have "bs_grows B io (fs_io s')"
    unfolding assms(12) d1(3) .
  from committed_mount [OF assms(1) committed_grows [OF assms(7) this] assms(13), of "unmounted path (dropped_log (fs_meta s')) d1",
      OF _ _ assms(6,14)] d1
  show ?thesis using none by (auto simp: None unmounted_def left_by_def drop_mount_lock_def)
next
  case (Some n)
  note run1 = assms(4) [unfolded Some]
  have logs: "parse_wal_config (ma_wal_strategy args) \<noteq> CfgNoWal" using mount_no_log(1) [OF assms(4,3,5)] Some by simp
  have "empty_log s" unfolding assms(8) by (rule session_empty_log [OF mount_result(4) [OF run1 assms(3)]])
  from destroy_log [OF assms(1) this assms(9-13)] obtain w es r where
    es: "ds_wal (fs_meta s') = Some w" "wal_holds w es (length es)" "\<forall>e \<in> set es. entry_fits e" "last_root (map norm_entry es) = Some r"
      "committed B (fs_io s') r a" "bs_grows B (fs_io s) (fs_io s')" by auto
  let ?f = "dropped_log (fs_meta s')"
  have f: "segment_entries ?f = map norm_entry es" "openable ?f"
    using dropped_replay [OF es(2,3)] es(1) by (simp_all add: dropped_log_def)
  note dir = session_dir [OF assms(2,3) refl run1, of ?f]
  have "load_store_from_segments (map seg_file (ps @ [(next_segment_id (map seg_file ps), ?f)])) =
      Ok (Some r, snapshots_of (log_of ps @ segment_entries ?f))"
    using load_with_session [OF assms(2) refl f(2)] es(4) by (simp add: f(1) last_root_append)
  from committed_mount [OF assms(1) es(5) assms(13), of "unmounted (Some n) ?f d1", OF _ _ this assms(14)] dir
  obtain d2 s2 cfg' n2 where run: "run_mount B False False args' (fs_io s') (unmounted (Some n) ?f d1) = (d2, Ok (s2, cfg', n2))"
    "fs_rel B s2 a" "fs_open_files s2 = []" "fs_io s2 = fs_io s'" by (auto simp: unmounted_def drop_mount_lock_def)
  have "snd (test_read B iter i off sz s2) = Ok (sub_range c off sz)" if "a_manifests a i \<noteq> None" "file_has B (fs_io s) a i c" for i c off sz
    using read_closed [OF run(2,3) assms(15) that(1)] file_has_grows [OF es(6) assms(13) that(2)] run(4) by simp
  with run logs show ?thesis unfolding Some by auto
qed

lemma demo_utf8: "utf8_valid (str ''f'')" "utf8_valid (str ''g'')" "str ''f'' \<noteq> []"
  by (simp_all add: str_def)

lemma demo_after:
  "a_inodes (fst (run_all (\<lambda>(W, r). spec_serve W r) demo_requests one_file_maps)) 1 \<noteq> None"
  "store_rel B m (fst (run_all (\<lambda>(W, r). spec_serve W r) demo_requests one_file_maps)) \<Longrightarrow> store_small m"
proof -
  have d: "dom (a_inodes a) = {1}" "dom (a_dirs a) = {1}" "a_manifests a = Map.empty" "dom (a_xattrs a) \<subseteq> {2}" "a_refs a = Map.empty"
    if "a = fst (run_all (\<lambda>(W, r). spec_serve W r) demo_requests one_file_maps)" for a
    unfolding that using demo_utf8
    by (auto simp: demo_requests_def one_file_maps_def ns_eval demo_strs with_name_def name_or_empty_def from_utf8_def
      xattrs_of_def reply_done_def reply_defs sized_def split: if_splits)
  show "a_inodes (fst (run_all (\<lambda>(W, r). spec_serve W r) demo_requests one_file_maps)) 1 \<noteq> None" using d(1) [OF refl] by blast
  show "store_small m" if "store_rel B m (fst (run_all (\<lambda>(W, r). spec_serve W r) demo_requests one_file_maps))"
    using card_mono [OF _ d(4) [OF refl]] by (intro small_maps [OF that]) (simp_all add: d(1,2,3,5) [OF refl])
qed

theorem unmount_remount_witness:
  "\<exists>d1 s0 cfg n s' d2 s2 cfg' n2. run_mount list_blockset False False demo_args demo_io demo_dir = (d1, Ok (s0, cfg, Some n)) \<and>
     s' = fst (test_destroy list_blockset no_fault no_fault no_fault no_fault 9
       (fst (run_all (\<lambda>(W, r). serve list_blockset W r) demo_requests s0))) \<and>
     run_mount list_blockset False False demo_args (fs_io s') (unmounted (Some n) (dropped_log (fs_meta s')) d1) =
       (d2, Ok (s2, cfg', n2)) \<and>
     fs_rel list_blockset s2 (fst (run_all (\<lambda>(W, r). spec_serve W r) demo_requests one_file_maps))"
proof -
  let ?a = "fst (run_all (\<lambda>(W, r). spec_serve W r) demo_requests one_file_maps)"
  obtain d1 s0 cfg n where run: "run_mount list_blockset False False demo_args demo_io demo_dir = (d1, Ok (s0, cfg, Some n))"
    "fs_rel list_blockset s0 one_file_maps" by (rule demo_mount)
  note res = mount_result [OF run(1) demo_segs_good(2)]
  define s where "s = fst (run_all (\<lambda>(W, r). serve list_blockset W r) demo_requests s0)"
  define s' where "s' = fst (test_destroy list_blockset no_fault no_fault no_fault no_fault 9 s)"
  have few: "few_pushes 1000 [] (fs_io s)" unfolding s_def
    by (rule few_pushes_trans [OF demo_io_few serve_runs_few [of demo_requests s0, unfolded res(5)]]) (simp add: demo_requests_def)
  have ok: "bs_ok list_blockset (fs_io s)" by (rule few_ok [OF few]) simp_all
  have "few_pushes 1014 [] (fs_io s')" unfolding s'_def by (rule few_pushes_trans [OF few destroy_few]) simp
  then have ok': "bs_ok list_blockset (fs_io s')" by (rule few_ok) simp_all
  have rel: "fs_rel list_blockset s ?a"
    using fuse_sim.runs_rel [OF run(2) demo_requests_spec(1)] list_blockset_laws ok unfolding s_def by blast
  have small: "store_small (fs_meta s)" using demo_after(2) rel unfolding fs_rel_def by blast
  have args: "ma_snapshot_ref demo_args = None" "enumerates (id :: (u64, bytes open_file_state) btree \<Rightarrow> _)" by (simp_all add: demo_args_def)
  have "parse_wal_config (ma_wal_strategy demo_args) \<noteq> CfgNoWal"
    by (simp add: demo_args_def parse_wal_config_def, simp add: str_def)
  with unmount_remount [OF list_blockset_laws demo_segs_good(1,2) run(1) args(1) demo_segs_good(3) demo_committed(1) s_def rel
      demo_after(1) small s'_def ok' args]
  show ?thesis using run(1) s_def s'_def by auto
qed

text \<open>
  C20. A crash loses the whole session, whatever it synced: no request logs a root, so after a crash at
  any point the next mount finds the state the session started from, even if every file was flushed
  with \<^verbatim>\<open>fsync\<close> first. The crash may leave any prefix of the log file with at least its synced part, and any
  content storage \<open>io'\<close> that still has what was there at the mount (the session's own contents may be
  lost or not).
\<close>

theorem crash_loses_session:
  assumes "blockset_laws B" and "good_segments ps" and "sd_segments d = Some (map seg_file ps)"
    and "run_mount B lock_fails wal_fails args io d = (d1, Ok (s0, cfg, Some n))"
    and "load_store_from_segments (map seg_file ps) = Ok (Some r, snaps)" and "committed B io r a"
    and "s = fst (run_all (\<lambda>(W, r). serve B W r) reqs s0)" and "bs_grows B io io'" and "bs_ok B io'"
    and "ds_wal (fs_meta s) = Some w" and "crash_image (wal_file w) f"
    and "ma_snapshot_ref args' = None"
  shows "\<exists>d2 s2 cfg' n2. run_mount B False False args' io' (left_by (Some n) f d1) = (d2, Ok (s2, cfg', n2)) \<and>
    fs_rel B s2 a \<and> fs_open_files s2 = []"
proof -
  note res = mount_result [OF assms(4,3)]
  have "empty_log s" unfolding assms(7) by (rule session_empty_log [OF res(4)])
  note f = empty_log_replay [OF this assms(10,11)]
  note dir = session_dir [OF assms(2,3) refl assms(4), of f]
  have "last_root (log_of ps) = Some r" "snapshots_of (log_of ps) = snaps"
    using load_before_session [OF assms(2)] assms(5) by simp_all
  then have load: "load_store_from_segments (map seg_file (ps @ [(next_segment_id (map seg_file ps), f)])) = Ok (Some r, snaps)"
    using load_with_session [OF assms(2) refl f(2)] by (simp add: f(1))
  from committed_mount [OF assms(1) committed_grows [OF assms(6,8)] assms(9) dir(2,1) load assms(12)]
  show ?thesis by blast
qed

theorem crash_loses_session_witness:
  "\<exists>d1 s0 cfg n s w d2 s2 cfg' n2. run_mount list_blockset False False demo_args demo_io demo_dir = (d1, Ok (s0, cfg, Some n)) \<and>
     s = fst (run_all (\<lambda>(W, r). serve list_blockset W r)
       [(demo_world, UnlinkReq 1 (str ''f'')), (demo_world, Fsync 1 0)] s0) \<and> ds_wal (fs_meta s) = Some w \<and>
     run_mount list_blockset False False demo_args (fs_io s) (left_by (Some n) (sw_file (wal_file w)) d1) =
       (d2, Ok (s2, cfg', n2)) \<and>
     fs_rel list_blockset s2 one_file_maps \<and> resolve 1 (str ''f'') one_file_maps = Ok 2"
proof -
  let ?reqs = "[(demo_world, UnlinkReq 1 (str ''f'')), (demo_world, Fsync 1 0)]"
  obtain d1 s0 cfg n where run: "run_mount list_blockset False False demo_args demo_io demo_dir = (d1, Ok (s0, cfg, Some n))"
    by (rule demo_mount)
  note res = mount_result [OF run demo_segs_good(2)]
  define s where "s = fst (run_all (\<lambda>(W, r). serve list_blockset W r) ?reqs s0)"
  have few: "few_pushes 1000 [] (fs_io s)" unfolding s_def
    by (rule few_pushes_trans [OF demo_io_few serve_runs_few [of ?reqs s0, unfolded res(5)]]) simp
  have ok: "bs_ok list_blockset (fs_io s)" by (rule few_ok [OF few]) simp_all
  have "empty_log s" unfolding s_def by (rule session_empty_log [OF res(4)])
  then obtain w where w: "ds_wal (fs_meta s) = Some w" "wal_holds w [] 0" unfolding empty_log_def by blast
  have grows: "bs_grows list_blockset demo_io (fs_io s)"
    using session_grows [OF list_blockset_laws, of s0 ?reqs] by (simp add: s_def res(5))
  have "ma_snapshot_ref demo_args = None" by (simp add: demo_args_def)
  from crash_loses_session [OF list_blockset_laws demo_segs_good(1,2) run demo_segs_good(3) demo_committed(1) s_def grows ok w(1)
      wal_holds_file [OF w(2)] this]
  show ?thesis using run w(1) s_def one_file_maps_facts(2) by blast
qed

end
