(* ===== verification/Offline.thy ===== *)
theory Offline
  imports Remount
begin

section \<open>Commands on an unmounted store\<close>

text \<open>
  \<^verbatim>\<open>snapshot.rs\<close>, \<^verbatim>\<open>scrub.rs\<close> and \<^verbatim>\<open>gc.rs\<close> of \<^verbatim>\<open>slicefs-cli\<close> and \<^verbatim>\<open>gc/background.rs\<close> of \<^verbatim>\<open>metadata\<close>. A command
  takes the store directory and the content storage and returns both with its result; console output is
  left out. The faults of the log writes and the clock are arguments.
\<close>

subsection \<open>Snapshot commands\<close>

datatype offline_error =
  StoreMounted | SegmentsUnreadable io_error | NothingCommitted | StoreCorrupt load_fault | LogFailed
  | UnknownSnapshot rstring | CommitFailed meta_error | ShutdownFailed io_error

text \<open>The replay of the segment directory; a directory that does not exist is an error.\<close>

definition replay_dir :: "store_dir \<Rightarrow> offline_error + (digest224 option \<times> snapshot_entry list)" where
  "replay_dir d =
     (case sd_segments d of
        None \<Rightarrow> Err (SegmentsUnreadable IoError)
      | Some segs \<Rightarrow>
          (case load_store_from_segments segs of Err e \<Rightarrow> Err (SegmentsUnreadable e) | Ok r \<Rightarrow> Ok r))"

text \<open>
  The common start of the commands that write: the store of the last root with a log in a new segment,
  and the name of that segment.
\<close>

definition open_offline ::
  "('io, 'st) blockset \<Rightarrow> bool \<Rightarrow> 'io \<Rightarrow> store_dir \<Rightarrow> offline_error + 'io store \<times> rstring" where
  "open_offline B wal_fails io d =
     (if sd_lock d then Err StoreMounted
      else case replay_dir d of
        Err e \<Rightarrow> Err e
      | Ok (None, _) \<Rightarrow> Err NothingCommitted
      | Ok (Some root, snapshots) \<Rightarrow>
          (case load_from_root B io root of
             Err e \<Rightarrow> Err (StoreCorrupt e)
           | Ok meta \<Rightarrow>
               (let meta = set_snapshots snapshots meta;
                    next_id = next_segment_id (case sd_segments d of None \<Rightarrow> [] | Some segs \<Rightarrow> segs)
                in if wal_fails then Err LogFailed
                   else Ok (set_wal (snd (create_wal CfgPerOp next_id)) meta, segment_file_name 6 next_id))))"

text \<open>
  What the command leaves on disk: the new segment with what its log wrote, and the storage. The store is
  dropped on every path, and the drop writes out what the log still has buffered after an error.
\<close>

definition close_offline :: "rstring \<Rightarrow> store_dir \<Rightarrow> 'io store \<Rightarrow> store_dir \<times> 'io" where
  "close_offline name d meta =
     (left_by (Some name) (dropped_log meta) d, ds_io meta)"

definition run_snapshot_create ::
  "('io, 'st) blockset \<Rightarrow> bool \<Rightarrow> wal_fault \<times> wal_fault \<times> wal_fault \<Rightarrow> u64 \<Rightarrow> rstring option \<Rightarrow> store_dir \<times> 'io \<Rightarrow>
   (store_dir \<times> 'io) \<times> (offline_error + snapshot_entry)" where
  "run_snapshot_create B wal_fails F now name s =
     (case (s, F) of ((d, io), F1, F2, F3) \<Rightarrow>
      (case open_offline B wal_fails io d of
        Err e \<Rightarrow> (s, Err e)
      | Ok (meta, path) \<Rightarrow>
          (case create_snapshot B F1 F2 now name meta of
             (meta, Err e) \<Rightarrow> (close_offline path d meta, Err (CommitFailed e))
           | (meta, Ok snap) \<Rightarrow>
               (case shutdown_wal F3 meta of
                  (meta, Err e) \<Rightarrow> (close_offline path d meta, Err (ShutdownFailed e))
                | (meta, Ok _) \<Rightarrow> (close_offline path d meta, Ok snap)))))"

definition write_root_update :: "wal_fault \<Rightarrow> digest224 \<Rightarrow> 'io store \<Rightarrow> 'io store \<times> (meta_error + unit)" where
  "write_root_update F new_root meta = commit_root F new_root meta"

text \<open>The result has the snapshot that was switched to and the one that saves the state before.\<close>

definition run_snapshot_switch ::
  "('io, 'st) blockset \<Rightarrow> bool \<Rightarrow> wal_fault \<times> wal_fault \<times> wal_fault \<times> wal_fault \<Rightarrow> u64 \<Rightarrow> rstring \<Rightarrow> store_dir \<times> 'io \<Rightarrow>
   (store_dir \<times> 'io) \<times> (offline_error + snapshot_entry \<times> snapshot_entry)" where
  "run_snapshot_switch B wal_fails F now version_or_name s =
     (case (s, F) of ((d, io), F1, F2, F3, F4) \<Rightarrow>
      (case open_offline B wal_fails io d of
        Err e \<Rightarrow> (s, Err e)
      | Ok (meta, path) \<Rightarrow>
          (case find_snapshot version_or_name meta of
             None \<Rightarrow> (close_offline path d meta, Err (UnknownSnapshot version_or_name))
           | Some target \<Rightarrow>
               (case create_snapshot B F1 F2 now (Some (str ''auto-before-switch'')) meta of
                  (meta, Err e) \<Rightarrow> (close_offline path d meta, Err (CommitFailed e))
                | (meta, Ok auto_snap) \<Rightarrow>
                    (case write_root_update F3 (se_root target) meta of
                       (meta, Err e) \<Rightarrow> (close_offline path d meta, Err (CommitFailed e))
                     | (meta, Ok _) \<Rightarrow>
                         (case shutdown_wal F4 meta of
                            (meta, Err e) \<Rightarrow> (close_offline path d meta, Err (ShutdownFailed e))
                          | (meta, Ok _) \<Rightarrow> (close_offline path d meta, Ok (target, auto_snap))))))))"

text \<open>The rows of the listing: version, name, time of creation, root.\<close>

definition run_snapshot_list :: "store_dir \<Rightarrow> offline_error + snapshot_entry list" where
  "run_snapshot_list d = (case replay_dir d of Err e \<Rightarrow> Err e | Ok (_, snapshots) \<Rightarrow> Ok snapshots)"

subsection \<open>Scrub\<close>

datatype scrub_error = MissingRoot digest224 | TreeCorrupt meta_error

datatype scrub_failure = ScrubLegacy | ScrubNoSegments | ScrubUnreadable io_error | ScrubPanicked

record scrub_report =
  sr_roots_verified :: nat
  sr_mounted :: bool
  sr_errors :: "scrub_error list"
  sr_saturated_blocks :: nat

definition sr_corrupted_roots :: "scrub_report \<Rightarrow> nat" where
  "sr_corrupted_roots r = length (sr_errors r)"

text \<open>The report is printed in any case; the command succeeds when it has no error.\<close>

definition scrub_ok :: "scrub_report \<Rightarrow> bool" where
  "scrub_ok r \<longleftrightarrow> \<not> sr_corrupted_roots r > 0"

definition run_scrub :: "('io, 'st) blockset \<Rightarrow> 'io \<Rightarrow> store_dir \<Rightarrow> scrub_failure + scrub_report" where
  "run_scrub B io d =
     (if sd_legacy d then Err ScrubLegacy
      else case sd_segments d of
        None \<Rightarrow> Err ScrubNoSegments
      | Some segs \<Rightarrow>
          (case load_store_from_segments segs of
             Err e \<Rightarrow> Err (ScrubUnreadable e)
           | Ok (root_opt, snapshots) \<Rightarrow>
               (let all_roots = (case root_opt of None \<Rightarrow> [] | Some root \<Rightarrow> [root]) @ map se_root snapshots;
                    found = filter (\<lambda>root. storage_get B io root \<noteq> None) all_roots;
                    missing = filter (\<lambda>root. storage_get B io root = None) all_roots;
                    report = (\<lambda>more saturated. Ok \<lparr>sr_roots_verified = length found, sr_mounted = sd_lock d,
                      sr_errors = map MissingRoot missing @ more, sr_saturated_blocks = saturated\<rparr>)
                in case root_opt of
                     None \<Rightarrow> report [] 0
                   | Some root \<Rightarrow>
                       (case load_from_root B io root of
                          Ok meta \<Rightarrow> report [] (saturated_refcount_count meta)
                        | Err (Fault e) \<Rightarrow> report [TreeCorrupt e] 0
                        | Err Panic \<Rightarrow> Err ScrubPanicked))))"

subsection \<open>Garbage collection\<close>

definition run_gc :: "(rstring \<Rightarrow> wal_fault \<times> bool) \<Rightarrow> store_dir \<Rightarrow> store_dir \<times> (offline_error + gc_stats)" where
  "run_gc F d =
     (if sd_lock d then (d, Err StoreMounted)
      else case replay_dir d of
        Err e \<Rightarrow> (d, Err e)
      | Ok _ \<Rightarrow>
          (case sd_segments d of
             None \<Rightarrow> (d, Ok gc_stats_default)
           | Some segs \<Rightarrow>
               (case run_gc_inner F segs of
                  (Err e, segs) \<Rightarrow> (d\<lparr>sd_segments := Some segs\<rparr>, Err (SegmentsUnreadable e))
                | (Ok stats, segs) \<Rightarrow> (d\<lparr>sd_segments := Some segs\<rparr>, Ok stats))))"

text \<open>
  The background thread wakes up at intervals. At a wake-up others have changed the directory since the
  last one, and the thread sees whether it should stop and whether the store is still in use. The number
  of orphans is the constant 1 in the source.
\<close>

record bg_tick =
  bg_others :: "seg_dir \<Rightarrow> seg_dir"
  bg_shutdown :: bool
  bg_store_alive :: bool
  bg_faults :: "rstring \<Rightarrow> wal_fault \<times> bool"

partial_function (option) background_gc :: "nat \<Rightarrow> (nat \<Rightarrow> bg_tick) \<Rightarrow> nat \<Rightarrow> seg_dir \<Rightarrow> seg_dir option" where
  "background_gc orphan_threshold ticks n dir =
     (let t = ticks n; dir = bg_others t dir in
      if bg_shutdown t then Some dir
      else if \<not> bg_store_alive t then Some dir
      else background_gc orphan_threshold ticks (Suc n)
        (let orphan_count = 1 in if orphan_count > orphan_threshold then snd (run_gc_inner (bg_faults t) dir) else dir))"

text \<open>The threshold a mount uses.\<close>

definition mount_orphan_threshold :: nat where
  "mount_orphan_threshold = 1000"

definition bg_stops :: "bg_tick \<Rightarrow> bool" where
  "bg_stops t \<longleftrightarrow> bg_shutdown t \<or> \<not> bg_store_alive t"

lemma background_gc_next:
  "bg_stops (ticks n) \<Longrightarrow> background_gc th ticks n dir = Some (bg_others (ticks n) dir)"
  "\<not> bg_stops (ticks n) \<Longrightarrow> background_gc th ticks n dir = background_gc th ticks (Suc n)
     (if th = 0 then snd (run_gc_inner (bg_faults (ticks n)) (bg_others (ticks n) dir)) else bg_others (ticks n) dir)"
  using background_gc.simps [of th ticks n dir] by (auto simp: bg_stops_def Let_def)

lemma background_gc_returns:
  assumes "n \<le> k" "bg_stops (ticks k)" "\<And>j. n \<le> j \<Longrightarrow> j < k \<Longrightarrow> \<not> bg_stops (ticks j)"
  shows "background_gc th ticks n dir \<noteq> None"
    "0 < th \<Longrightarrow> background_gc th ticks n dir = Some (fold (\<lambda>j. bg_others (ticks j)) [n..<Suc k] dir)"
proof -
  have "background_gc th ticks n dir \<noteq> None \<and>
      (0 < th \<longrightarrow> background_gc th ticks n dir = Some (fold (\<lambda>j. bg_others (ticks j)) [n..<Suc k] dir))"
    using assms(1,3)
  proof (induction n arbitrary: dir rule: inc_induct)
    case base
    then show ?case using background_gc_next(1) [of ticks k] assms(2) by simp
  next
    case (step n)
    let ?d = "if th = 0 then snd (run_gc_inner (bg_faults (ticks n)) (bg_others (ticks n) dir)) else bg_others (ticks n) dir"
    have "\<not> bg_stops (ticks n)" using step.prems [of n] step.hyps by blast
    from background_gc_next(2) [of ticks n, OF this]
    have eq: "background_gc th ticks n dir = background_gc th ticks (Suc n) ?d" .
    have upt: "[n..<Suc k] = n # [Suc n..<Suc k]" using step.hyps by (intro upt_conv_Cons) linarith
    have "\<not> bg_stops (ticks j)" if "Suc n \<le> j" "j < k" for j by (rule step.prems) (use that in linarith)+
    from step.IH [OF this, of ?d] show ?case unfolding eq upt by auto
  qed
  then show "background_gc th ticks n dir \<noteq> None"
    "0 < th \<Longrightarrow> background_gc th ticks n dir = Some (fold (\<lambda>j. bg_others (ticks j)) [n..<Suc k] dir)" by blast+
qed

lemma background_gc_stopped:
  assumes "background_gc th ticks n dir = Some r"
  shows "\<exists>k. n \<le> k \<and> bg_stops (ticks k)"
proof (rule background_gc.raw_induct [where P = "\<lambda>_ ticks n _ _. \<exists>k. n \<le> k \<and> bg_stops (ticks k)", OF _ assms])
  fix f th ticks n dir r
  assume IH: "\<And>th ticks n dir r. f th ticks n dir = Some r \<Longrightarrow> \<exists>k. n \<le> k \<and> bg_stops (ticks k)"
    and step: "(let t = ticks n; dir = bg_others t dir in
      if bg_shutdown t then Some dir
      else if \<not> bg_store_alive t then Some dir
      else f th ticks (Suc n)
        (let orphan_count = 1 in if th < orphan_count then snd (run_gc_inner (bg_faults t) dir) else dir)) = Some r"
  show "\<exists>k. n \<le> k \<and> bg_stops (ticks k)"
  proof (cases "bg_stops (ticks n)")
    case False
    with step obtain d where "f th ticks (Suc n) d = Some r" by (auto simp: Let_def bg_stops_def)
    from IH [OF this] obtain k where "Suc n \<le> k" "bg_stops (ticks k)" by blast
    then show ?thesis by (intro exI [of _ k]) simp
  qed blast
qed

subsection \<open>Opening and closing a store offline\<close>

definition mounts_as :: "('io, 'st) blockset \<Rightarrow> mount_args \<Rightarrow> 'io \<Rightarrow> store_dir \<Rightarrow> meta_state \<Rightarrow> bool" where
  "mounts_as B args io d a \<longleftrightarrow> (\<exists>d2 s2 cfg n. run_mount B False False args io d = (d2, Ok (s2, cfg, n)) \<and>
     fs_rel B s2 a \<and> fs_open_files s2 = [])"

lemma committed_load:
  assumes "blockset_laws B" "committed B io r a" "bs_ok B io"
  shows "\<exists>t. load_from_root B io r = Ok t \<and> store_rel B t a \<and> ds_io t = io \<and> store_small t \<and> a_inodes a 1 \<noteq> None"
proof -
  obtain F m m' where m: "store_rel B m a" "a_inodes a 1 \<noteq> None" "store_small m" "commit B F m = (m', Ok r)"
    "bs_grows B (ds_io m') io" using assms(2) unfolding committed_def by (elim exE conjE)
  from commit_load_rel [OF assms(1) m assms(3)] m(2,3) show ?thesis by (auto simp: same_maps_def store_small_def)
qed

lemma open_offline_ok:
  assumes "\<not> sd_lock d" "sd_segments d = Some segs" "load_store_from_segments segs = Ok (Some r, snaps)" "load_from_root B io r = Ok t"
  shows "open_offline B False io d =
    Ok (set_wal (snd (create_wal CfgPerOp (next_segment_id segs))) (set_snapshots snaps t), segment_file_name 6 (next_segment_id segs))"
  using assms by (simp add: open_offline_def replay_dir_def Let_def)

lemma new_log: "logs [] (set_wal (snd (create_wal CfgPerOp i)) m)"
  using create_wal_holds [of CfgPerOp i] by (auto simp: logs_def set_wal_def)

lemma store_rel_set [simp]:
  "store_rel B (set_wal w m) a = store_rel B m a" "store_rel B (set_snapshots es m) a = store_rel B m a"
  "store_small (set_wal w m) = store_small m" "store_small (set_snapshots es m) = store_small m"
  "ds_io (set_wal w m) = ds_io m" "ds_io (set_snapshots es m) = ds_io m"
  by (simp_all add: store_rel_def store_small_def set_wal_def set_snapshots_def)

lemma find_snapshot_set:
  "find_snapshot ref (set_wal w m) = find_snapshot ref m"
  "find_snapshot ref (set_wal w (set_snapshots es m)) = find_snapshot ref (set_snapshots es m')"
  by (rule find_snapshot_maps; simp add: set_wal_def set_snapshots_def)+

lemma commit_ok: "\<exists>m1 r1. commit B F m = (m1, Ok r1)"
  by (rule commit_steps [of B m F]) blast

lemma create_snapshot_run:
  assumes "commit B F m = (m1, Ok r1)"
  shows "\<exists>m2. create_snapshot B F F' now name m =
    (m2, Ok \<lparr>se_version = next_version m1, se_name = name, se_root = r1, se_created_at = now\<rparr>) \<and> ds_io m2 = ds_io m1 \<and>
    ds_wal m2 = ds_wal (log_wal_entry F' (WalSnapshot (next_version m1) r1 now name) m1)"
  using assms by (simp add: create_snapshot_def Let_def log_wal_entry_def split: option.split)

lemma newest_found:
  assumes "parse_u64 name = None" "se_name e = Some name"
  shows "find_snapshot name (set_snapshots (es @ [e]) m) = Some e"
  using assms by (simp add: find_snapshot_def set_snapshots_def map_filter_def bt_of_list_def bt_get_insert bt_sorted_of_list [unfolded bt_of_list_def])

lemma mount_snapshot:
  assumes "\<not> sd_legacy d" "sd_segments d = Some segs" "load_store_from_segments segs = Ok (Some r, snaps)"
    "load_from_root B io r = Ok t" "ma_snapshot_ref args = Some ref" "find_snapshot ref (set_snapshots snaps t) = Some e"
    "load_from_root B io (se_root e) = Ok t'" "store_rel B t' a"
  shows "mounts_as B args io d a"
proof -
  let ?config = "parse_wal_config (ma_wal_strategy args)"
  obtain p w where w: "create_wal ?config (next_segment_id segs) = (p, w)" by (metis surj_pair)
  obtain d2 where d2: "load_store B False False ?config io d = (d2, Ok (set_wal w (set_snapshots snaps t), p))"
    using assms w by (cases p) (simp_all add: load_store_def take_lock_ok Let_def)
  have "ds_io t = io" by (rule load_from_root_io [OF assms(4)])
  then show ?thesis using d2 assms(5-8)
    by (simp add: mounts_as_def run_mount_def find_snapshot_set(1) Let_def set_auto_snapshot_def fs_new_def fs_rel_def)
qed

lemma switch_name: "parse_u64 (str ''auto-before-switch'') = None" "utf8_valid (str ''auto-before-switch'')"
  "length (str ''auto-before-switch'') = 18" "str ''auto-before-switch'' \<noteq> []"
proof -
  show "parse_u64 (str ''auto-before-switch'') = None" by code_simp
qed (simp_all add: str_def)

lemma log_entry_io [simp]: "ds_io (log_wal_entry F e m) = ds_io m"
  by (simp add: log_wal_entry_def split: option.split)

lemma switch_run:
  assumes op: "open_offline B False io d = Ok (m, path)" and log: "logs [] m" and found: "find_snapshot ref m = Some target"
    and c: "commit B no_fault m = (m1, Ok r1)"
  shows "\<exists>f v. run_snapshot_switch B False (no_fault, no_fault, no_fault, no_fault) now ref (d, io) =
      ((left_by (Some path) f d, ds_io m1), Ok (target,
        \<lparr>se_version = v, se_name = Some (str ''auto-before-switch''), se_root = r1, se_created_at = now\<rparr>)) \<and> openable f \<and>
    segment_entries f = [RootUpdate r1, SnapshotRecord v r1 now (Some (str ''auto-before-switch'')), RootUpdate (se_root target)]"
proof -
  let ?n = "str ''auto-before-switch''"
  let ?auto = "\<lparr>se_version = next_version m1, se_name = Some ?n, se_root = r1, se_created_at = now\<rparr>"
  let ?es = "[RootUpdate r1, SnapshotRecord (next_version m1) r1 now (Some ?n), RootUpdate (se_root target)]"
  obtain m2 where m2: "create_snapshot B no_fault no_fault now (Some ?n) m = (m2, Ok ?auto)" "ds_io m2 = ds_io m1"
    "ds_wal m2 = ds_wal (log_wal_entry no_fault (WalSnapshot (next_version m1) r1 now (Some ?n)) m1)"
    using create_snapshot_run [OF c] by blast
  have log1: "logs [RootUpdate r1] m1" using commit_logs [OF log c] by simp
  have log2: "logs [RootUpdate r1, SnapshotRecord (next_version m1) r1 now (Some ?n)] m2"
    using log_entry_logs [OF log1, of "WalSnapshot (next_version m1) r1 now (Some ?n)"] m2(3) by (simp add: logs_def)
  define m3 where "m3 = log_wal_entry no_fault (WalRootUpdate (se_root target)) (m2\<lparr>ds_last_root := Some (se_root target)\<rparr>)"
  have log3: "logs ?es m3" unfolding m3_def
    using log_entry_logs [of "[RootUpdate r1, SnapshotRecord (next_version m1) r1 now (Some ?n)]"
        "m2\<lparr>ds_last_root := Some (se_root target)\<rparr>" "WalRootUpdate (se_root target)"] log2 by (simp add: logs_def)
  obtain w where w: "ds_wal (fst (shutdown_wal no_fault m3)) = Some w" "wal_holds w ?es (length ?es)"
    using shutdown_logs(1) [OF log3] by blast
  have down: "shutdown_wal no_fault m3 = (fst (shutdown_wal no_fault m3), Ok ())"
  proof -
    obtain w3 d3 where "ds_wal m3 = Some w3" "wal_holds w3 ?es d3" using log3 unfolding logs_def by blast
    with dyn.stop_holds [OF this(2)] show ?thesis by (simp add: shutdown_wal_def Let_def split_def)
  qed
  have io: "ds_io (fst (shutdown_wal no_fault m3)) = ds_io m1" using shutdown_logs(2) [OF log3] m2(2) by (simp add: m3_def)
  have "run_snapshot_switch B False (no_fault, no_fault, no_fault, no_fault) now ref (d, io) =
      (close_offline path d (fst (shutdown_wal no_fault m3)), Ok (target, ?auto))"
    by (simp add: run_snapshot_switch_def op found m2(1) write_root_update_def commit_root_def flip: m3_def) (subst down, simp)
  moreover have "\<forall>e \<in> set ?es. entry_fits e" using switch_name by simp
  ultimately show ?thesis using dropped_replay [OF w(2), of None] w(1) io switch_name(4)
    by (intro exI [of _ "writer_drop None (wal_file w)"] exI [of _ "next_version m1"]) (simp add: close_offline_def dropped_log_def)
qed

lemma offline_storage_ok:
  assumes "blockset_laws B" "committed B io r a" "\<not> sd_lock d" "sd_segments d = Some segs"
    and "load_store_from_segments segs = Ok (Some r, snaps)"
    and run: "run_snapshot_switch B False (no_fault, no_fault, no_fault, no_fault) now ref (d, io) = ((d1, io1), res)" "bs_ok B io1"
    and "find_snapshot ref (set_snapshots snaps m) = Some target"
  shows "bs_ok B io"
proof (cases "load_from_root B io r")
  case (Inl e)
  then have "open_offline B False io d = Err (StoreCorrupt e)" using assms(3-5) by (simp add: open_offline_def replay_dir_def)
  then show ?thesis using run by (simp add: run_snapshot_switch_def)
next
  case (Inr t)
  let ?m = "set_wal (snd (create_wal CfgPerOp (next_segment_id segs))) (set_snapshots snaps t)"
  obtain m1 r1 where c: "commit B no_fault ?m = (m1, Ok r1)" using commit_ok by blast
  have "find_snapshot ref ?m = Some target" using assms(8) by (rule trans [OF find_snapshot_set(2)])
  from switch_run [OF open_offline_ok [OF assms(3-5) Inr] new_log this c, of now] run(1) have "io1 = ds_io m1" by auto
  moreover have "bs_grows B io (ds_io m1)"
    using commit_grows [OF assms(1), of ?m no_fault] c load_from_root_io [OF Inr] by simp
  ultimately show ?thesis using bs_growsD(1) [of B io io1] run(2) by simp
qed

subsection \<open>A store with two committed states\<close>

text \<open>After the commit of \<open>one_file\<close>, file 2 gets a manifest with a digest that nothing is stored under.\<close>

definition lost_digest :: digest224 where
  "lost_digest = Digest224 0 1 0 0 0 0 0"

definition lost_maps :: meta_state where
  "lost_maps = one_file_maps\<lparr>a_manifests := [2 \<mapsto> [lost_digest]]\<rparr>"

definition lost_store :: "bytes list store" where
  "lost_store = fst (run_op list_blockset (SetManifest 2 [lost_digest]) (fst demo_commit))"

definition lost_commit :: "bytes list store \<times> (meta_error + digest224)" where
  "lost_commit = commit list_blockset no_fault lost_store"

definition lost_root :: digest224 where
  "lost_root = (case snd lost_commit of Ok r \<Rightarrow> r | Err _ \<Rightarrow> Digest224 0 0 0 0 0 0 0)"

definition lost_io :: "bytes list" where
  "lost_io = ds_io (fst lost_commit)"

definition lost_dir :: "segment_entry list \<Rightarrow> store_dir" where
  "lost_dir es = \<lparr>sd_legacy = False,
     sd_segments = Some (map seg_file [(1, segment_header_bytes 1 @ concat (map enc_record es))]), sd_lock = False\<rparr>"

lemma lost_dir_load:
  assumes "\<forall>e \<in> set es. entry_fits e"
  shows "good_segments [(1, segment_header_bytes 1 @ concat (map enc_record es))]"
    "load_store_from_segments (map seg_file [(1, segment_header_bytes 1 @ concat (map enc_record es))]) =
      Ok (last_root (map norm_entry es), snapshots_of (map norm_entry es))"
proof -
  let ?ps = "[(1 :: u64, segment_header_bytes 1 @ concat (map enc_record es))]"
  show good: "good_segments ?ps" by (simp add: good_segments_def openable_def reader_open_segment)
  have "log_of ?ps = map norm_entry es"
    using read_log(1) [OF assms] by (simp add: log_of_def dir_entries_def seg_file_def segment_entries_body)
  then show "load_store_from_segments (map seg_file ?ps) = Ok (last_root (map norm_entry es), snapshots_of (map norm_entry es))"
    using load_before_session [OF good] by simp
qed

lemma lost_io_few: "few_pushes 126 [] lost_io" "few_pushes 119 [] (ds_io lost_store)"
proof -
  have "few_pushes 111 [] (ds_io (fst demo_commit))" using demo_io_few by (simp add: demo_io_def)
  then show few: "few_pushes 119 [] (ds_io lost_store)"
    unfolding lost_store_def by (rule few_pushes_trans [OF _ run_op_few]) simp
  show "few_pushes 126 [] lost_io" unfolding lost_io_def lost_commit_def by (rule few_pushes_trans [OF few commit_few]) simp
qed

lemma lost_committed:
  "committed list_blockset lost_io lost_root lost_maps" "committed list_blockset lost_io demo_root one_file_maps"
  "bs_ok list_blockset lost_io" "storage_get list_blockset lost_io lost_digest = None"
proof -
  show ok: "bs_ok list_blockset lost_io" by (rule few_ok [OF lost_io_few(1)]) simp_all
  have ok1: "bs_ok list_blockset (ds_io lost_store)" by (rule few_ok [OF lost_io_few(2)]) simp_all
  show "storage_get list_blockset lost_io lost_digest = None" by (simp add: list_blockset_def list_get_def lost_digest_def)
  obtain m r where c0: "commit list_blockset no_fault (fs_meta one_file) = (m, r)" by (metis surj_pair)
  have rel0: "store_rel list_blockset (fs_meta one_file) one_file_maps" using one_file_rel by (simp add: fs_rel_def)
  have m: "ds_io m = demo_io" "fst demo_commit = m" by (simp_all add: demo_io_def demo_commit_def c0)
  from commit_committed [OF list_blockset_laws rel0 one_file_store(2,1) c0] demo_committed(2) m(1)
  have rel1: "store_rel list_blockset m one_file_maps" by auto
  have "op_allowed (SetManifest 2 [lost_digest]) one_file_maps" by (simp add: op_allowed_def)
  from run_op_refines [OF list_blockset_laws rel1 this] ok1
  have rel: "store_rel list_blockset lost_store lost_maps"
    by (simp add: op_refines_def lost_store_def m(2) lost_maps_def one_file_maps_facts(4))
  have small: "store_small lost_store"
    by (rule small_maps [OF rel]) (simp_all add: lost_maps_def one_file_maps_def ns_eval demo_strs)
  have root: "a_inodes lost_maps 1 \<noteq> None" using one_file_store(2) by (simp add: lost_maps_def)
  obtain m2 r2 where c: "commit list_blockset no_fault lost_store = (m2, r2)" by (metis surj_pair)
  have m2: "ds_io m2 = lost_io" by (simp add: lost_io_def lost_commit_def c)
  from commit_committed [OF list_blockset_laws rel root small c] ok m2 obtain d where
    d: "r2 = Ok d" "committed list_blockset lost_io d lost_maps" "bs_grows list_blockset (ds_io lost_store) lost_io" by auto
  then show "committed list_blockset lost_io lost_root lost_maps" by (simp add: lost_root_def lost_commit_def c)
  have "bs_grows list_blockset demo_io (ds_io lost_store)"
    using run_op_grows [OF list_blockset_laws, of m "SetManifest 2 [lost_digest]"] by (simp add: lost_store_def m)
  from committed_grows [OF demo_committed(1) bs_grows_trans [OF this d(3)]]
  show "committed list_blockset lost_io demo_root one_file_maps" .
qed

subsection \<open>Properties\<close>

text \<open>
  C31. The background collector of a mount stops at the first wake-up that finds the stop flag set or the
  store gone, runs forever if there is none, and with the threshold a mount gives it has then done
  nothing: the segment directory is what the others made of it.
\<close>

theorem background_gc_stops:
  "(background_gc threshold ticks n dir = None \<longleftrightarrow> \<not> (\<exists>k. n \<le> k \<and> bg_stops (ticks k))) \<and>
   background_gc mount_orphan_threshold ticks n dir =
     (if \<exists>k. n \<le> k \<and> bg_stops (ticks k)
      then Some (fold (\<lambda>j. bg_others (ticks j)) [n..<Suc (LEAST k. n \<le> k \<and> bg_stops (ticks k))] dir) else None)"
proof (cases "\<exists>k. n \<le> k \<and> bg_stops (ticks k)")
  case True
  let ?k = "LEAST k. n \<le> k \<and> bg_stops (ticks k)"
  have k: "n \<le> ?k" "bg_stops (ticks ?k)" using LeastI_ex [OF True] by blast+
  have "\<not> bg_stops (ticks j)" if "n \<le> j" "j < ?k" for j using not_less_Least [OF that(2)] that(1) by blast
  from background_gc_returns [of n ?k ticks, OF k this] True show ?thesis by (simp add: mount_orphan_threshold_def)
next
  case False
  then have "background_gc th ticks n dir = None" for th
    using background_gc_stopped [of th ticks n dir] by (cases "background_gc th ticks n dir") auto
  with False show ?thesis by simp
qed

text \<open>
  C24. Switching to a snapshot: the command succeeds, the next mount finds exactly the state of the
  snapshot, and the state before the switch is not lost: mounting the snapshot
  \<^verbatim>\<open>auto-before-switch\<close> gives it back.
\<close>

theorem snapshot_switch:
  assumes "blockset_laws B" and "good_segments ps" and "sd_segments d = Some (map seg_file ps)"
    and "\<not> sd_lock d" and "\<not> sd_legacy d"
    and "load_store_from_segments (map seg_file ps) = Ok (Some r, snaps)" and "committed B io r a"
    and "find_snapshot ref (set_snapshots snaps m) = Some target" and "committed B io (se_root target) b"
    and "run_snapshot_switch B False (no_fault, no_fault, no_fault, no_fault) now ref (d, io) = ((d1, io1), res)"
    and "bs_ok B io1" and "ma_snapshot_ref args = None" and "ma_snapshot_ref args' = Some (str ''auto-before-switch'')"
  shows "\<exists>auto. res = Ok (target, auto) \<and> mounts_as B args io1 d1 b \<and> mounts_as B args' io1 d1 a"
proof -
  let ?i = "next_segment_id (map seg_file ps)"
  have ok: "bs_ok B io" by (rule offline_storage_ok [OF assms(1,7,4,3,6,10,11,8)])
  from committed_load [OF assms(1,7) ok] obtain t where t: "load_from_root B io r = Ok t" "store_rel B t a"
    "ds_io t = io" "store_small t" "a_inodes a 1 \<noteq> None" by blast
  let ?m = "set_wal (snd (create_wal CfgPerOp ?i)) (set_snapshots snaps t)"
  obtain m1 r1 where c: "commit B no_fault ?m = (m1, Ok r1)" using commit_ok by blast
  have "find_snapshot ref ?m = Some target" using assms(8) by (rule trans [OF find_snapshot_set(2)])
  from switch_run [OF open_offline_ok [OF assms(4,3,6) t(1)] new_log this c, of now] assms(10) obtain f v where
    run: "d1 = left_by (Some (segment_file_name 6 ?i)) f d" "io1 = ds_io m1" "res = Ok (target, \<lparr>se_version = v, se_name = Some (str ''auto-before-switch''), se_root = r1, se_created_at = now\<rparr>)"
    and f: "openable f"
      "segment_entries f = [RootUpdate r1, SnapshotRecord v r1 now (Some (str ''auto-before-switch'')), RootUpdate (se_root target)]"
    by auto
  define auto where "auto = \<lparr>se_version = v, se_name = Some (str ''auto-before-switch''), se_root = r1, se_created_at = now\<rparr>"
  have saved: "committed B io1 r1 a" "bs_grows B io io1"
    using commit_committed [OF assms(1) _ t(5) _ c] t(2-4) assms(11) run(2) by auto
  have dir: "sd_segments d1 = Some (map seg_file (ps @ [(?i, f)]))" "\<not> sd_legacy d1"
    using assms(3,5) dir_put_session(1) [OF assms(2) refl] by (simp_all add: run(1) left_by_def)
  have "snapshots_of (log_of ps) = snaps" using load_before_session [OF assms(2)] assms(6) by simp
  moreover have "snapshots_of (segment_entries f) = [auto]"
    by (simp add: f(2) snapshots_of_def map_filter_simps auto_def)
  moreover have "last_root (segment_entries f) = Some (se_root target)" by (simp add: f(2) last_root_def)
  ultimately have load: "load_store_from_segments (map seg_file (ps @ [(?i, f)])) = Ok (Some (se_root target), snaps @ [auto])"
    using load_with_session [OF assms(2) refl f(1)] by (simp add: last_root_append)
  have target: "committed B io1 (se_root target) b" by (rule committed_grows [OF assms(9) saved(2)])
  have "mounts_as B args io1 d1 b"
    using committed_mount [OF assms(1) target assms(11) dir(2,1) load assms(12)] unfolding mounts_as_def by blast
  moreover have "mounts_as B args' io1 d1 a"
  proof -
    obtain t' where t': "load_from_root B io1 (se_root target) = Ok t'" using committed_load [OF assms(1) target assms(11)] by blast
    have root: "se_root auto = r1" "se_name auto = Some (str ''auto-before-switch'')" by (simp_all add: auto_def)
    obtain t1 where "load_from_root B io1 (se_root auto) = Ok t1" "store_rel B t1 a"
      using committed_load [OF assms(1) saved(1) assms(11)] root(1) by auto
    from mount_snapshot [OF dir(2,1) load t' assms(13) newest_found [OF switch_name(1) root(2)] this] show ?thesis .
  qed
  ultimately show ?thesis using run(3) by blast
qed

theorem snapshot_switch_witness:
  "\<exists>d1 io1 target auto. run_snapshot_switch list_blockset False (no_fault, no_fault, no_fault, no_fault) 9 (str ''f'')
       (lost_dir [RootUpdate demo_root, SnapshotRecord 1 demo_root 9 (Some (str ''f'')), RootUpdate lost_root], lost_io) =
       ((d1, io1), Ok (target, auto)) \<and>
     mounts_as list_blockset demo_args io1 d1 one_file_maps \<and>
     mounts_as list_blockset (demo_args\<lparr>ma_snapshot_ref := Some (str ''auto-before-switch'')\<rparr>) io1 d1 lost_maps"
proof -
  let ?es = "[RootUpdate demo_root, SnapshotRecord 1 demo_root 9 (Some (str ''f'')), RootUpdate lost_root]"
  let ?target = "\<lparr>se_version = 1, se_name = Some (str ''f''), se_root = demo_root, se_created_at = 9\<rparr>"
  have "length (str ''f'') = 1" by (simp add: str_def)
  then have fits: "\<forall>e \<in> set ?es. entry_fits e" using demo_utf8 by simp
  have load: "load_store_from_segments (map seg_file [(1, segment_header_bytes 1 @ concat (map enc_record ?es))]) = Ok (Some lost_root, [?target])"
    using lost_dir_load(2) [OF fits] demo_utf8(3) by (simp add: last_root_def snapshots_of_def map_filter_simps)
  have parse: "parse_u64 (str ''f'') = None" by code_simp
  have found: "find_snapshot (str ''f'') (set_snapshots [?target] m) = Some ?target" for m :: "bytes list store"
    using newest_found [OF parse, of ?target "[]"] by simp
  obtain d1 io1 res where run: "run_snapshot_switch list_blockset False (no_fault, no_fault, no_fault, no_fault) 9 (str ''f'')
      (lost_dir ?es, lost_io) = ((d1, io1), res)" by (metis surj_pair)
  have "few_pushes 7 lost_io io1"
  proof -
    obtain t where t: "load_from_root list_blockset lost_io lost_root = Ok t"
      using committed_load [OF list_blockset_laws lost_committed(1,3)] by blast
    let ?segs = "map seg_file [(1, segment_header_bytes 1 @ concat (map enc_record ?es))]"
    let ?m = "set_wal (snd (create_wal CfgPerOp (next_segment_id ?segs))) (set_snapshots [?target] t)"
    obtain m1 r1 where c: "commit list_blockset no_fault ?m = (m1, Ok r1)" using commit_ok by blast
    have segs: "\<not> sd_lock (lost_dir ?es)" "sd_segments (lost_dir ?es) = Some ?segs" by (simp_all add: lost_dir_def)
    have "find_snapshot (str ''f'') ?m = Some ?target" by (rule trans [OF find_snapshot_set(2) found])
    from switch_run [OF open_offline_ok [OF segs load t] new_log this c, of 9] run have "io1 = ds_io m1" by auto
    then show ?thesis using commit_few [of ?m no_fault] c load_from_root_io [OF t] by simp
  qed
  from few_pushes_trans [OF lost_io_few(1) this, of 133] have "bs_ok list_blockset io1" by (intro few_ok [of 133 "[]"]) simp_all
  moreover have "ma_snapshot_ref demo_args = None" by (simp add: demo_args_def)
  ultimately have "\<exists>auto. res = Ok (?target, auto) \<and> mounts_as list_blockset demo_args io1 d1 one_file_maps \<and>
      mounts_as list_blockset (demo_args\<lparr>ma_snapshot_ref := Some (str ''auto-before-switch'')\<rparr>) io1 d1 lost_maps"
    using snapshot_switch [OF list_blockset_laws lost_dir_load(1) [OF fits] _ _ _ load lost_committed(1) found _ run, of one_file_maps demo_args
        "demo_args\<lparr>ma_snapshot_ref := Some (str ''auto-before-switch'')\<rparr>"] lost_committed(2)
    by (simp add: lost_dir_def)
  then show ?thesis using run by blast
qed

text \<open>
  C29. Scrubbing does not look at file contents: a store whose metadata loads is reported clean even
  when the contents of a file are gone, so that reading it from the mounted store fails.
\<close>

theorem scrub_ignores_contents:
  assumes "blockset_laws B" and "\<not> sd_legacy d" and "sd_segments d = Some segs"
    and "load_store_from_segments segs = Ok (Some r, [])" and "committed B io r a" and "bs_ok B io"
    and "a_manifests a i = Some (digest # rest)" and "storage_get B io digest = None"
    and "ma_snapshot_ref args = None" and "enumerates iter"
  shows "(\<exists>report. run_scrub B io d = Ok report \<and> scrub_ok report \<and> sr_roots_verified report = 1) \<and>
    (\<exists>d2 s2 cfg n. run_mount B False False args io d = (d2, Ok (s2, cfg, n)) \<and>
       snd (test_read B iter i off sz s2) = Err (Errno EIO))"
proof -
  obtain t where t: "load_from_root B io r = Ok t" using committed_load [OF assms(1,5,6)] by blast
  then have "storage_get B io r \<noteq> None" by (auto simp: load_from_root_def split: option.splits)
  then have "\<exists>report. run_scrub B io d = Ok report \<and> scrub_ok report \<and> sr_roots_verified report = 1"
    using assms(2-4) t by (auto simp: run_scrub_def Let_def scrub_ok_def sr_corrupted_roots_def)
  moreover obtain d2 s2 cfg n where run: "run_mount B False False args io d = (d2, Ok (s2, cfg, n))" "fs_rel B s2 a"
    "fs_open_files s2 = []" "fs_io s2 = io" using committed_mount [OF assms(1,5,6,2,3,4,9)] by blast
  moreover have "snd (test_read B iter i off sz s2) = Err (Errno EIO)"
  proof -
    have "set (iter []) = {}" using assms(10) by simp
    then have none: "iter (fs_open_files s2) = []" by (simp add: run(3))
    have store: "store_rel B (fs_meta s2) a" using run(2) by (simp add: fs_rel_def)
    show ?thesis using assms(7,8) run(4)
      by (simp add: test_read_def none and_then_def ask_meta_def map_errno_def get_manifest_at [OF store])
  qed
  ultimately show ?thesis by blast
qed

theorem scrub_ignores_contents_witness:
  "(\<exists>report. run_scrub list_blockset lost_io (lost_dir [RootUpdate lost_root]) = Ok report \<and> scrub_ok report) \<and>
   (\<exists>d2 s2 cfg n. run_mount list_blockset False False demo_args lost_io (lost_dir [RootUpdate lost_root]) = (d2, Ok (s2, cfg, n)) \<and>
      snd (test_read list_blockset id 2 0 10 s2) = Err (Errno EIO))"
proof -
  let ?segs = "map seg_file [(1, segment_header_bytes 1 @ concat (map enc_record [RootUpdate lost_root]))]"
  have "load_store_from_segments ?segs = Ok (Some lost_root, [])"
    using lost_dir_load(2) [of "[RootUpdate lost_root]"] by (simp add: last_root_def snapshots_of_def map_filter_simps)
  moreover have "a_manifests lost_maps 2 = Some [lost_digest]" by (simp add: lost_maps_def)
  ultimately show ?thesis
    using scrub_ignores_contents [OF list_blockset_laws _ _ _ lost_committed(1,3) _ lost_committed(4),
        of "lost_dir [RootUpdate lost_root]" ?segs 2 "[]" demo_args id 0 10]
    by (auto simp: lost_dir_def demo_args_def)
qed

end
