(* ===== verification/Seed.thy ===== *)
theory Seed
  imports Offline
begin

section \<open>Importing a directory tree\<close>

text \<open>
  \<^verbatim>\<open>seed.rs\<close> of \<^verbatim>\<open>slicefs-cli\<close>. The host tree is what \<^verbatim>\<open>read_dir\<close>, \<^verbatim>\<open>metadata\<close> and \<^verbatim>\<open>read\<close> answer: a call
  that fails is \<open>None\<close> or \<open>SourceGone\<close>. \<^verbatim>\<open>std::fs::metadata\<close> follows symbolic links, so the tree has the
  target of a link in its place. An entry has the file name and the string \<^verbatim>\<open>to_string_lossy\<close> makes of it.
\<close>

subsection \<open>The command\<close>

record host_meta =
  hm_mode :: u32
  hm_uid :: u32
  hm_gid :: u32
  hm_mtime :: i64
  hm_mtime_nsec :: i64

datatype source_node =
    SourceDir host_meta "(bytes \<times> rstring \<times> source_node) list option"
  | SourceFile host_meta "bytes option"
  | SourceOther
  | SourceGone

type_synonym source_entry = "bytes \<times> rstring \<times> source_node"

datatype seed_error = HostFailed | StoreFailed meta_error | SegmentFailed io_error

definition file_inode_meta :: "host_meta \<Rightarrow> u64 \<Rightarrow> inode_meta" where
  "file_inode_meta m sz =
     (new_file 0 (hm_uid m) (hm_gid m) (S_IFREG OR (hm_mode m AND 0xFFF)))
       \<lparr>size := sz, mtime_sec := hm_mtime m, mtime_nsec := ucast (hm_mtime_nsec m)\<rparr>"

definition dir_inode_meta :: "host_meta \<Rightarrow> inode_meta" where
  "dir_inode_meta m = new_directory 0 (hm_uid m) (hm_gid m) (S_IFDIR OR (hm_mode m AND 0xFFF))"

definition seed_file ::
  "('io, 'st) blockset \<Rightarrow> host_meta \<Rightarrow> bytes option \<Rightarrow> 'io store \<Rightarrow> 'io store \<times> (seed_error + u64 \<times> digest224)" where
  "seed_file B m content s =
     (case content of
        None \<Rightarrow> (s, Err HostFailed)
      | Some bytes \<Rightarrow>
          (let (io, content_digest) = push_all B (ds_io s) bytes in
           case create_inode B (file_inode_meta m (of_nat (length bytes))) (s\<lparr>ds_io := io\<rparr>) of
             (s, Err e) \<Rightarrow> (s, Err (StoreFailed e))
           | (s, Ok i) \<Rightarrow> (s, Ok (i, content_digest))))"

text \<open>Sorting does not change the size of a tree, which is the measure of the recursion.\<close>

lemma size_sort_key: "size_list f (sort_key k xs) = size_list f xs"
proof -
  have "mset (map f (sort_key k xs)) = mset (map f xs)" by simp
  then have "sum_list (map f (sort_key k xs)) = sum_list (map f xs)" by (metis sum_mset_sum_list)
  then show ?thesis by (simp add: size_list_conv_sum_list)
qed

function walk_entries :: "('io, 'st) blockset \<Rightarrow> u64 \<Rightarrow> source_entry list \<Rightarrow> 'io store \<Rightarrow> 'io store \<times> (seed_error + unit)" where
  "walk_entries B parent_ino [] s = (s, Ok ())"
| "walk_entries B parent_ino ((file_name, name, node) # rest) s =
     (case node of
        SourceGone \<Rightarrow> (s, Err HostFailed)
      | SourceDir m entries \<Rightarrow>
          (case create_directory B parent_ino name (dir_inode_meta m) s of
             (s, Err e) \<Rightarrow> (s, Err (StoreFailed e))
           | (s, Ok i) \<Rightarrow>
               (case entries of
                  None \<Rightarrow> (s, Err HostFailed)
                | Some es \<Rightarrow>
                    (case walk_entries B i (sort_key fst es) s of
                       (s, Err e) \<Rightarrow> (s, Err e)
                     | (s, Ok _) \<Rightarrow> walk_entries B parent_ino rest s)))
      | SourceFile m content \<Rightarrow>
          (case seed_file B m content s of
             (s, Err e) \<Rightarrow> (s, Err e)
           | (s, Ok (i, content_digest)) \<Rightarrow>
               (case store_link B parent_ino name i s of
                  (s, Err e) \<Rightarrow> (s, Err (StoreFailed e))
                | (s, Ok _) \<Rightarrow>
                    (case set_manifest B i [content_digest] s of
                       (s, Err e) \<Rightarrow> (s, Err (StoreFailed e))
                     | (s, Ok _) \<Rightarrow> walk_entries B parent_ino rest s)))
      | SourceOther \<Rightarrow> walk_entries B parent_ino rest s)"
  by pat_completeness auto
termination
  by (relation "measure (\<lambda>(B, p, es, s). size_list (size_prod (\<lambda>_. 0) (size_prod (\<lambda>_. 0) size_class.size)) es)")
    (auto simp: size_sort_key)

definition walk_dir :: "('io, 'st) blockset \<Rightarrow> u64 \<Rightarrow> source_entry list option \<Rightarrow> 'io store \<Rightarrow> 'io store \<times> (seed_error + unit)" where
  "walk_dir B parent_ino entries s =
     (case entries of None \<Rightarrow> (s, Err HostFailed) | Some es \<Rightarrow> walk_entries B parent_ino (sort_key fst es) s)"

text \<open>
  The segment file with one root update, as it is after the writer is dropped, also on an error; \<open>F\<close> says
  what the disk accepts and whether the sync fails.
\<close>

definition seed_segment :: "wal_fault \<Rightarrow> digest224 \<Rightarrow> (io_error + unit) \<times> bytes" where
  "seed_segment F root =
     (case write_entry (wf_budget F) (RootUpdate root) (writer_new 1) of
        (Err e, budget, w) \<Rightarrow> (Err e, writer_drop budget w)
      | (Ok _, budget, w) \<Rightarrow>
          (case writer_close budget (wf_sync F) w of (r, budget, w) \<Rightarrow> (r, writer_drop budget w)))"

text \<open>
  \<open>u\<close> and \<open>g\<close> are the ids of the process; the source is \<open>None\<close> when its metadata cannot be read. A store that
  is already there keeps its other files.
\<close>

definition run_seed ::
  "('io, 'st) blockset \<Rightarrow> wal_fault \<Rightarrow> u32 \<Rightarrow> u32 \<Rightarrow> (host_meta \<times> source_entry list option) option \<Rightarrow>
   store_dir \<times> 'io \<Rightarrow> (store_dir \<times> 'io) \<times> (seed_error + unit)" where
  "run_seed B F u g source st =
     (case st of (d, io) \<Rightarrow>
     (let s = store_new B u g io in
      case source of
        None \<Rightarrow> ((d, ds_io s), Err HostFailed)
      | Some (m, entries) \<Rightarrow>
          (case get_inode B 1 s of
             Err e \<Rightarrow> ((d, ds_io s), Err (StoreFailed e))
           | Ok root_inode \<Rightarrow>
               (let meta = dir_inode_meta m in
                case update_inode B (root_inode\<lparr>mode := mode meta, uid := uid meta, gid := gid meta\<rparr>) s of
                  (s, Err e) \<Rightarrow> ((d, ds_io s), Err (StoreFailed e))
                | (s, Ok _) \<Rightarrow>
                    (case walk_dir B 1 entries s of
                       (s, Err e) \<Rightarrow> ((d, ds_io s), Err e)
                     | (s, Ok _) \<Rightarrow>
                         (case commit B no_fault s of
                            (s, Err e) \<Rightarrow> ((d, ds_io s), Err (StoreFailed e))
                          | (s, Ok root) \<Rightarrow>
                              (let (r, f) = seed_segment F root;
                                   segs = (case sd_segments d of None \<Rightarrow> [] | Some segs \<Rightarrow> segs)
                               in ((d\<lparr>sd_segments := Some (dir_put (segment_file_name 6 1) f segs)\<rparr>, ds_io s),
                                   (case r of Err e \<Rightarrow> Err (SegmentFailed e) | Ok _ \<Rightarrow> Ok ())))))))))"

subsection \<open>The tree as finite maps\<close>

text \<open>
  What an import should make of a tree: the maps of inodes and directories, and the contents of the
  files. There is no result when the tree cannot be read or does not fit (a name that is not a string
  or occurs twice, numbers or sizes that overflow). A file keeps its permissions, owner, modification time
  and size, a directory its permissions and owner; its times are not imported.
\<close>

definition imported_file :: "host_meta \<Rightarrow> bytes \<Rightarrow> inode_meta" where
  "imported_file m c =
     \<lparr>ino = 0, mode = 0x8000 OR (hm_mode m AND 0xFFF), uid = hm_uid m, gid = hm_gid m, nlinks = 1, size = of_nat (length c),
      mtime_sec = hm_mtime m, mtime_nsec = ucast (hm_mtime_nsec m), ctime_sec = 0, ctime_nsec = 0\<rparr>"

definition imported_dir :: "host_meta \<Rightarrow> inode_meta" where
  "imported_dir m =
     \<lparr>ino = 0, mode = 0x4000 OR (hm_mode m AND 0xFFF), uid = hm_uid m, gid = hm_gid m, nlinks = 2, size = 0,
      mtime_sec = 0, mtime_nsec = 0, ctime_sec = 0, ctime_nsec = 0\<rparr>"

type_synonym seed_state = "meta_state \<times> (u64 \<rightharpoonup> bytes)"

definition seed_mkdir :: "u64 \<Rightarrow> rstring \<Rightarrow> inode_meta \<Rightarrow> meta_state \<Rightarrow> (meta_state \<times> u64) option" where
  "seed_mkdir p n m a =
     (if op_allowed (CreateDirectory p n m) a
      then case spec_op (CreateDirectory p n m) a of (a', Ok (RIno i)) \<Rightarrow> Some (a', i) | _ \<Rightarrow> None
      else None)"

definition seed_mkfile :: "u64 \<Rightarrow> rstring \<Rightarrow> inode_meta \<Rightarrow> bytes \<Rightarrow> seed_state \<Rightarrow> seed_state option" where
  "seed_mkfile p n m c st =
     (let a = fst st; i = a_next a; a1 = fst (spec_op (CreateInode m) a) in
      if op_allowed (CreateInode m) a \<and> op_allowed (Link p n i) a1 \<and> length c < 2 ^ 64
      then case spec_op (Link p n i) a1 of (a2, Ok _) \<Rightarrow> Some (a2, (snd st)(i \<mapsto> c)) | _ \<Rightarrow> None
      else None)"

function spec_walk :: "u64 \<Rightarrow> source_entry list \<Rightarrow> seed_state \<Rightarrow> seed_state option" where
  "spec_walk p [] st = Some st"
| "spec_walk p ((file_name, name, node) # rest) st =
     (case node of
        SourceDir m (Some es) \<Rightarrow>
          (case seed_mkdir p name (imported_dir m) (fst st) of
             None \<Rightarrow> None
           | Some (a, i) \<Rightarrow>
               (case spec_walk i (sort_key fst es) (a, snd st) of None \<Rightarrow> None | Some st \<Rightarrow> spec_walk p rest st))
      | SourceFile m (Some c) \<Rightarrow>
          (case seed_mkfile p name (imported_file m c) c st of
             None \<Rightarrow> None | Some st \<Rightarrow> spec_walk p rest st)
      | SourceOther \<Rightarrow> spec_walk p rest st
      | _ \<Rightarrow> None)"
  by pat_completeness auto
termination
  by (relation "measure (\<lambda>(p, es, st). size_list (size_prod (\<lambda>_. 0) (size_prod (\<lambda>_. 0) size_class.size)) es)")
    (auto simp: size_sort_key)

definition spec_root :: "u32 \<Rightarrow> u32 \<Rightarrow> host_meta \<Rightarrow> meta_state" where
  "spec_root u g m = (meta_init u g)\<lparr>a_inodes :=
     [1 \<mapsto> (imported_dir m)\<lparr>ino := 1\<rparr>]\<rparr>"

definition spec_seed :: "u32 \<Rightarrow> u32 \<Rightarrow> host_meta \<Rightarrow> source_entry list \<Rightarrow> seed_state option" where
  "spec_seed u g m es = spec_walk 1 (sort_key fst es) (spec_root u g m, Map.empty)"

subsection \<open>The import makes these maps\<close>

text \<open>The records the code builds are the ones of the specification.\<close>

lemma imported_meta: "file_inode_meta m (of_nat (length c)) = imported_file m c" "dir_inode_meta m = imported_dir m"
  by (simp_all add: file_inode_meta_def dir_inode_meta_def imported_file_def imported_dir_def new_file_def new_directory_def
      S_IFREG_def S_IFDIR_def)

text \<open>The manifest of a file has one digest, under which the contents are stored.\<close>

definition contents_at :: "('io, 'st) blockset \<Rightarrow> 'io \<Rightarrow> (u64 \<rightharpoonup> digest224 list) \<Rightarrow> (u64 \<rightharpoonup> bytes) \<Rightarrow> bool" where
  "contents_at B io M C \<longleftrightarrow> (\<forall>i. case C i of None \<Rightarrow> M i = None
     | Some c \<Rightarrow> (\<exists>d. M i = Some [d] \<and> storage_get B io d = Some c))"

definition seed_rel :: "('io, 'st) blockset \<Rightarrow> 'io store \<Rightarrow> seed_state \<Rightarrow> bool" where
  "seed_rel B s st \<longleftrightarrow> (\<exists>M. store_rel B s ((fst st)\<lparr>a_manifests := M\<rparr>) \<and> contents_at B (ds_io s) M (snd st))"

lemma contents_at_grows:
  "contents_at B io M C \<Longrightarrow> bs_grows B io io' \<Longrightarrow> bs_ok B io' \<Longrightarrow> contents_at B io' M C"
  unfolding contents_at_def by (fastforce split: option.splits dest: bs_growsD(2))

lemma seed_file_grows:
  assumes "blockset_laws B"
  shows "bs_grows B (ds_io s) (ds_io (fst (seed_file B m c s)))"
proof (cases c)
  case (Some bytes)
  obtain io d where p: "push_all B (ds_io s) bytes = (io, d)" by (metis surj_pair)
  have "bs_grows B io (ds_io (fst (create_inode B (file_inode_meta m (of_nat (length bytes))) (s\<lparr>ds_io := io\<rparr>))))"
    using run_op_grows [OF assms, of "s\<lparr>ds_io := io\<rparr>" "CreateInode (file_inode_meta m (of_nat (length bytes)))"]
    by (simp add: respond_def)
  from bs_grows_trans [OF push_all_grows [OF assms p] this] show ?thesis
    by (simp add: seed_file_def Some p split_def Let_def split: sum.split)
qed (simp add: seed_file_def)

lemma seed_ops_grow:
  assumes "blockset_laws B"
  shows "bs_grows B (ds_io s) (ds_io (fst (create_directory B p n dm s)))"
    "bs_grows B (ds_io s) (ds_io (fst (store_link B p n i s)))" "bs_grows B (ds_io s) (ds_io (fst (set_manifest B i bl s)))"
  using run_op_grows [OF assms, of s "CreateDirectory p n dm"] run_op_grows [OF assms, of s "Link p n i"]
    run_op_grows [OF assms, of s "SetManifest i bl"] by (simp_all add: respond_def)

text \<open>Induction along the walk.\<close>

lemma entries_induct [case_names Nil Gone Unread Dir Lost File Other]:
  assumes "P []" "\<And>f n rest. P ((f, n, SourceGone) # rest)" "\<And>f n m rest. P ((f, n, SourceDir m None) # rest)"
    and dir: "\<And>f n m es rest. P (sort_key fst es) \<Longrightarrow> P rest \<Longrightarrow> P ((f, n, SourceDir m (Some es)) # rest)"
    and "\<And>f n m rest. P ((f, n, SourceFile m None) # rest)"
    and one: "\<And>f n m c rest. P rest \<Longrightarrow> P ((f, n, SourceFile m (Some c)) # rest)"
    and other: "\<And>f n rest. P rest \<Longrightarrow> P ((f, n, SourceOther) # rest)"
  shows "P es"
proof (induction es rule: measure_induct_rule [where f = "size_list (size_prod (\<lambda>_. 0) (size_prod (\<lambda>_. 0) size_class.size))"])
  case (less es)
  show ?case
  proof (cases es)
    case (Cons x rest)
    obtain f n node where x: "x = (f, n, node)" by (metis prod_cases3)
    have rest: "P rest" by (rule less) (simp add: Cons)
    show ?thesis
    proof (cases node)
      case (SourceDir m ents)
      show ?thesis
      proof (cases ents)
        case (Some es')
        have "P (sort_key fst es')" by (rule less) (simp add: Cons x SourceDir Some size_sort_key)
        then show ?thesis using dir rest by (simp add: Cons x SourceDir Some)
      qed (simp add: Cons x SourceDir assms(3))
    next
      case (SourceFile m c)
      then show ?thesis using one rest assms(5) by (cases c) (simp_all add: Cons x)
    qed (simp_all add: Cons x assms(2) other rest)
  qed (simp add: assms(1))
qed

lemma walk_grows:
  assumes laws: "blockset_laws B"
  shows "bs_grows B (ds_io s) (ds_io (fst (walk_entries B p es s)))"
proof (induction es arbitrary: p s rule: entries_induct)
  case (Unread f n m rest)
  then show ?case using seed_ops_grow(1) [OF laws, of s p n "dir_inode_meta m"] by (simp add: split_def split: sum.split)
next
  case (Dir f n m es rest)
  obtain s1 r where c: "create_directory B p n (dir_inode_meta m) s = (s1, r)" by (metis surj_pair)
  have g: "bs_grows B (ds_io s) (ds_io s1)" using seed_ops_grow(1) [OF laws, of s p n "dir_inode_meta m"] c by simp
  show ?case
  proof (cases r)
    case (Inr i)
    obtain s2 r2 where w: "walk_entries B i (sort_key fst es) s1 = (s2, r2)" by (metis surj_pair)
    have "bs_grows B (ds_io s1) (ds_io s2)" using Dir(1) [of s1 i] w by simp
    then show ?thesis using bs_grows_trans [OF g] bs_grows_trans [OF _ Dir(2) [of s2 p]] c Inr w by (cases r2) auto
  qed (use c g in simp)
next
  case (File f n m c rest)
  obtain s1 r where c: "seed_file B m (Some c) s = (s1, r)" by (metis surj_pair)
  have g: "bs_grows B (ds_io s) (ds_io s1)" using seed_file_grows [OF laws, of s m "Some c"] c by simp
  show ?case
  proof (cases r)
    case (Inr x)
    obtain i d where x: "x = (i, d)" by (metis surj_pair)
    obtain s2 r2 where l: "store_link B p n i s1 = (s2, r2)" by (metis surj_pair)
    obtain s3 r3 where sm: "set_manifest B i [d] s2 = (s3, r3)" by (metis surj_pair)
    have g2: "bs_grows B (ds_io s) (ds_io s2)" using bs_grows_trans [OF g] seed_ops_grow(2) [OF laws, of s1 p n i] l by simp
    have g3: "bs_grows B (ds_io s) (ds_io s3)" using bs_grows_trans [OF g2] seed_ops_grow(3) [OF laws, of s2 i "[d]"] sm by simp
    show ?thesis using g2 g3 bs_grows_trans [OF g3 File [of s3 p]] c Inr x l sm by (cases r2; cases r3) auto
  qed (use c g in simp)
qed (simp_all add: seed_file_def)

lemma after_step_grows:
  assumes laws: "blockset_laws B"
  shows "create_directory B p n (dir_inode_meta m) s = (s1, r1) \<Longrightarrow>
      bs_grows B (ds_io s1) (ds_io (fst (walk_entries B p ((f, n, SourceDir m (Some es)) # rest) s)))"
    "seed_file B m c s = (s1, r1') \<Longrightarrow> bs_grows B (ds_io s1) (ds_io (fst (walk_entries B p ((f, n, SourceFile m c) # rest) s)))"
proof -
  have walk: "walk_entries B q ents t = (t', x) \<Longrightarrow> bs_grows B (ds_io t) (ds_io t')" for q ents t t' x
    using walk_grows [OF laws, of t q ents] by simp
  show "create_directory B p n (dir_inode_meta m) s = (s1, r1) \<Longrightarrow>
      bs_grows B (ds_io s1) (ds_io (fst (walk_entries B p ((f, n, SourceDir m (Some es)) # rest) s)))"
    by (auto split: sum.split prod.split dest!: walk intro: bs_grows_trans walk_grows [OF laws])
  have link: "store_link B q k i t = (t', x) \<Longrightarrow> bs_grows B (ds_io t) (ds_io t')" for q k i t t' x
    using seed_ops_grow(2) [OF laws, of t q k i] by simp
  have man: "set_manifest B i bl t = (t', x) \<Longrightarrow> bs_grows B (ds_io t) (ds_io t')" for i bl t t' x
    using seed_ops_grow(3) [OF laws, of t i bl] by simp
  show "seed_file B m c s = (s1, r1') \<Longrightarrow> bs_grows B (ds_io s1) (ds_io (fst (walk_entries B p ((f, n, SourceFile m c) # rest) s)))"
    by (auto split: sum.split prod.split dest!: walk link man intro: bs_grows_trans walk_grows [OF laws])
qed

lemma spec_manifests:
  "spec_op (CreateDirectory p n m) (a\<lparr>a_manifests := M\<rparr>) =
     ((fst (spec_op (CreateDirectory p n m) a))\<lparr>a_manifests := M\<rparr>, snd (spec_op (CreateDirectory p n m) a))"
  "spec_op (Link p n i) (a\<lparr>a_manifests := M\<rparr>) =
     ((fst (spec_op (Link p n i) a))\<lparr>a_manifests := M\<rparr>, snd (spec_op (Link p n i) a))"
  "spec_op (CreateInode m) (a\<lparr>a_manifests := M\<rparr>) =
     ((fst (spec_op (CreateInode m) a))\<lparr>a_manifests := M\<rparr>, snd (spec_op (CreateInode m) a))"
  by (simp_all add: spec_create_directory_def Let_def split: option.split)

lemma allowed_manifests:
  "op_allowed (CreateDirectory p n m) (a\<lparr>a_manifests := M\<rparr>) = op_allowed (CreateDirectory p n m) a"
  "op_allowed (Link p n i) (a\<lparr>a_manifests := M\<rparr>) = op_allowed (Link p n i) a"
  "op_allowed (CreateInode m) (a\<lparr>a_manifests := M\<rparr>) = op_allowed (CreateInode m) a"
  by (simp_all add: op_allowed_def dir_room_def)

lemma mkdir_step:
  assumes laws: "blockset_laws B" and rel: "seed_rel B s (a, C)" and spec: "seed_mkdir p n m a = Some (a', i)"
    and run: "create_directory B p n m s = (s', r)" and ok: "bs_ok B (ds_io s')"
  shows "r = Ok i \<and> seed_rel B s' (a', C)"
proof -
  obtain M where M: "store_rel B s (a\<lparr>a_manifests := M\<rparr>)" "contents_at B (ds_io s) M C" using rel by (auto simp: seed_rel_def)
  have a: "op_allowed (CreateDirectory p n m) a" "spec_op (CreateDirectory p n m) a = (a', Ok (RIno i))"
    using spec by (auto simp: seed_mkdir_def split: if_splits prod.splits sum.splits resp.splits)
  from run_op_refines [OF laws M(1), of "CreateDirectory p n m"] a ok run
  have "store_rel B s' (a'\<lparr>a_manifests := M\<rparr>)" "r = Ok i"
    by (cases r; simp add: op_refines_def allowed_manifests spec_manifests respond_def same_resp_def del: spec_op.simps)+
  moreover have "bs_grows B (ds_io s) (ds_io s')" using seed_ops_grow(1) [OF laws, of s p n m] run by simp
  ultimately show ?thesis using contents_at_grows [OF M(2) _ ok] by (auto simp: seed_rel_def)
qed

text \<open>The three calls for a file: store its bytes with a new inode, give it a name, set its manifest.\<close>

lemma create_file_step:
  assumes laws: "blockset_laws B" and rel: "seed_rel B s (a, C)" and allowed: "op_allowed (CreateInode fm) a"
    and fm: "fm = file_inode_meta m (of_nat (length c))" and run: "seed_file B m (Some c) s = (s', r)" and ok: "bs_ok B (ds_io s')"
  shows "\<exists>d. r = Ok (a_next a, d) \<and> seed_rel B s' (fst (spec_op (CreateInode fm) a), C) \<and> storage_get B (ds_io s') d = Some c"
proof -
  obtain M where M: "store_rel B s (a\<lparr>a_manifests := M\<rparr>)" "contents_at B (ds_io s) M C" using rel by (auto simp: seed_rel_def)
  obtain io d where p: "push_all B (ds_io s) c = (io, d)" by (metis surj_pair)
  obtain s1 r1 where c1: "create_inode B fm (s\<lparr>ds_io := io\<rparr>) = (s1, r1)" by (metis surj_pair)
  have s': "s' = s1" using run p c1 fm by (cases r1) (auto simp: seed_file_def)
  have g1: "bs_grows B (ds_io s) io" by (rule push_all_grows [OF laws p])
  have g2: "bs_grows B io (ds_io s')"
    using run_op_grows [OF laws, of "s\<lparr>ds_io := io\<rparr>" "CreateInode fm"] c1 by (simp add: respond_def s')
  have ok1: "bs_ok B io" by (rule bs_growsD(1) [OF g2 ok])
  have rel1: "store_rel B (s\<lparr>ds_io := io\<rparr>) (a\<lparr>a_manifests := M\<rparr>)" by (rule store_rel_grows [OF M(1) g1 ok1])
  have "snd (spec_op (CreateInode fm) a) = Ok (RIno (a_next a))" by simp
  with run_op_refines [OF laws rel1, of "CreateInode fm"] allowed ok c1
  have "store_rel B s1 ((fst (spec_op (CreateInode fm) a))\<lparr>a_manifests := M\<rparr>)" "r1 = Ok (a_next a)"
    by (cases r1; simp add: op_refines_def allowed_manifests spec_manifests respond_def same_resp_def s' del: spec_op.simps)+
  moreover have "r = Ok (a_next a, d)" using run p c1 fm calculation(2) by (simp add: seed_file_def)
  moreover have "contents_at B (ds_io s1) M C" using contents_at_grows [OF M(2) bs_grows_trans [OF g1 g2] ok] by (simp add: s')
  moreover have "storage_get B (ds_io s') d = Some c" by (rule bs_growsD(2) [OF g2 ok push_all_get [OF laws p ok1]])
  ultimately show ?thesis unfolding seed_rel_def s' fst_conv snd_conv by blast
qed

lemma link_step:
  assumes laws: "blockset_laws B" and rel: "seed_rel B s (a, C)" and allowed: "op_allowed (Link p n i) a"
    and spec: "spec_op (Link p n i) a = (a', Ok x)" and run: "store_link B p n i s = (s', r)" and ok: "bs_ok B (ds_io s')"
  shows "r = Ok () \<and> seed_rel B s' (a', C)"
proof -
  obtain M where M: "store_rel B s (a\<lparr>a_manifests := M\<rparr>)" "contents_at B (ds_io s) M C" using rel by (auto simp: seed_rel_def)
  from run_op_refines [OF laws M(1), of "Link p n i"] allowed ok run
  have "store_rel B s' (a'\<lparr>a_manifests := M\<rparr>)" "r = Ok ()"
    by (cases r; simp add: op_refines_def allowed_manifests spec_manifests spec respond_def same_resp_def del: spec_op.simps)+
  moreover have "bs_grows B (ds_io s) (ds_io s')" using seed_ops_grow(2) [OF laws, of s p n i] run by simp
  ultimately show ?thesis using contents_at_grows [OF M(2) _ ok] by (auto simp: seed_rel_def)
qed

lemma manifest_step:
  assumes laws: "blockset_laws B" and rel: "seed_rel B s (a, C)" and stored: "storage_get B (ds_io s) d = Some c"
    and run: "set_manifest B i [d] s = (s', r)" and ok: "bs_ok B (ds_io s')"
  shows "r = Ok () \<and> seed_rel B s' (a, C(i \<mapsto> c))"
proof -
  obtain M where M: "store_rel B s (a\<lparr>a_manifests := M\<rparr>)" "contents_at B (ds_io s) M C" using rel by (auto simp: seed_rel_def)
  from run_op_refines [OF laws M(1), of "SetManifest i [d]"] ok run
  have "store_rel B s' (a\<lparr>a_manifests := M(i \<mapsto> [d])\<rparr>)" "r = Ok ()"
    by (cases r; simp add: op_refines_def op_allowed_def respond_def same_resp_def)+
  moreover have g: "bs_grows B (ds_io s) (ds_io s')" using seed_ops_grow(3) [OF laws, of s i "[d]"] run by simp
  moreover have "contents_at B (ds_io s') (M(i \<mapsto> [d])) (C(i \<mapsto> c))"
    using contents_at_grows [OF M(2) g ok] bs_growsD(2) [OF g ok stored] by (auto simp: contents_at_def fun_upd_def)
  ultimately show ?thesis by (auto simp: seed_rel_def)
qed

lemma walk_refines:
  assumes laws: "blockset_laws B"
  shows "seed_rel B s st \<Longrightarrow> spec_walk p es st = Some st' \<Longrightarrow> walk_entries B p es s = (s', r) \<Longrightarrow> bs_ok B (ds_io s') \<Longrightarrow>
    r = Ok () \<and> seed_rel B s' st'"
proof (induction es arbitrary: p s st s' r st' rule: entries_induct)
  case (Dir f n m es rest)
  obtain a C where st: "st = (a, C)" by (metis surj_pair)
  obtain a1 i st2 where spec: "seed_mkdir p n (dir_inode_meta m) a = Some (a1, i)"
    "spec_walk i (sort_key fst es) (a1, C) = Some st2" "spec_walk p rest st2 = Some st'"
    using Dir.prems(2) by (auto simp: st imported_meta split: option.splits)
  obtain s1 r1 where c: "create_directory B p n (dir_inode_meta m) s = (s1, r1)" by (metis surj_pair)
  obtain s2 r2 where w: "walk_entries B i (sort_key fst es) s1 = (s2, r2)" by (metis surj_pair)
  obtain s3 r3 where w': "walk_entries B p rest s2 = (s3, r3)" by (metis surj_pair)
  have g: "bs_grows B (ds_io s1) (ds_io s2)" "bs_grows B (ds_io s2) (ds_io s3)"
    using walk_grows [OF laws, of s1 i "sort_key fst es"] walk_grows [OF laws, of s2 p rest] w w' by simp_all
  have "bs_ok B (ds_io s1)" using bs_growsD(1) [OF after_step_grows(1) [OF laws c]] Dir.prems(3,4) by (metis fst_conv)
  from mkdir_step [OF laws Dir.prems(1) [unfolded st] spec(1) c this] have one: "r1 = Ok i" "seed_rel B s1 (a1, C)" by simp_all
  have "bs_ok B (ds_io s2)" using Dir.prems(3,4) bs_growsD(1) [OF g(2)] c w w' one(1) by (cases r2) auto
  from Dir.IH(1) [OF one(2) spec(2) w this] have two: "r2 = Ok ()" "seed_rel B s2 st2" by simp_all
  have "s' = s3" "r = r3" using Dir.prems(3) c w w' one(1) two(1) by simp_all
  with Dir.IH(2) [OF two(2) spec(3) w'] Dir.prems(4) show ?case by simp
next
  case (File f n m c rest)
  let ?fm = "file_inode_meta m (of_nat (length c))"
  obtain a C where st: "st = (a, C)" by (metis surj_pair)
  let ?i = "a_next a" and ?a1 = "fst (spec_op (CreateInode ?fm) a)"
  obtain a2 x where spec: "op_allowed (CreateInode ?fm) a" "op_allowed (Link p n ?i) ?a1" "spec_op (Link p n ?i) ?a1 = (a2, Ok x)"
    "spec_walk p rest (a2, C(?i \<mapsto> c)) = Some st'"
    using File.prems(2) by (auto simp: st imported_meta seed_mkfile_def Let_def simp del: spec_op.simps split: option.splits if_splits prod.splits sum.splits)
  obtain s1 r1 where c: "seed_file B m (Some c) s = (s1, r1)" by (metis surj_pair)
  obtain s2 r2 where l: "store_link B p n ?i s1 = (s2, r2)" by (metis surj_pair)
  have g12: "bs_grows B (ds_io s1) (ds_io s2)" using seed_ops_grow(2) [OF laws, of s1 p n ?i] l by simp
  have ok: "bs_ok B (ds_io s1)" using bs_growsD(1) [OF after_step_grows(2) [OF laws c]] File.prems(3,4) by (metis fst_conv)
  from create_file_step [OF laws File.prems(1) [unfolded st] spec(1) refl c ok] obtain d where
    one: "r1 = Ok (?i, d)" "seed_rel B s1 (?a1, C)" "storage_get B (ds_io s1) d = Some c" by blast
  obtain s3 r3 where sm: "set_manifest B ?i [d] s2 = (s3, r3)" by (metis surj_pair)
  obtain s4 r4 where w: "walk_entries B p rest s3 = (s4, r4)" by (metis surj_pair)
  have g: "bs_grows B (ds_io s2) (ds_io s3)" "bs_grows B (ds_io s3) (ds_io s4)"
    using seed_ops_grow(3) [OF laws, of s2 ?i "[d]"] walk_grows [OF laws, of s3 p rest] sm w by simp_all
  have ok2: "bs_ok B (ds_io s2)"
    using File.prems(3,4) bs_growsD(1) [OF g(1)] bs_growsD(1) [OF g(2)] c l sm w one(1) by (cases r2; cases r3) auto
  from link_step [OF laws one(2) spec(2,3) l ok2] have two: "r2 = Ok ()" "seed_rel B s2 (a2, C)" by simp_all
  have ok3: "bs_ok B (ds_io s3)" using File.prems(3,4) bs_growsD(1) [OF g(2)] c l sm w one(1) two(1) by (cases r3) auto
  from manifest_step [OF laws two(2) bs_growsD(2) [OF g12 ok2 one(3)] sm ok3]
  have three: "r3 = Ok ()" "seed_rel B s3 (a2, C(?i \<mapsto> c))" by simp_all
  have "s' = s4" "r = r4" using File.prems(3) c l sm w one(1) two(1) three(1) by simp_all
  with File.IH [OF three(2) spec(4) w] File.prems(4) show ?case by simp
qed (auto split: option.splits)

lemma walk_root: "spec_walk p es st = Some st' \<Longrightarrow> a_inodes (fst st) 1 \<noteq> None \<Longrightarrow> a_inodes (fst st') 1 \<noteq> None"
proof (induction es arbitrary: p st st' rule: entries_induct)
  case (Dir f n m es rest)
  obtain a i st2 where s: "seed_mkdir p n (imported_dir m) (fst st) = Some (a, i)"
    "spec_walk i (sort_key fst es) (a, snd st) = Some st2" "spec_walk p rest st2 = Some st'"
    using Dir.prems(1) by (auto split: option.splits)
  have "a_inodes a 1 \<noteq> None"
    using s(1) Dir.prems(2)
    by (auto simp: seed_mkdir_def spec_create_directory_def Let_def split: if_splits option.splits prod.splits sum.splits resp.splits)
  from Dir.IH(2) [OF s(3) Dir.IH(1) [OF s(2)]] this show ?case by simp
next
  case (File f n m c rest)
  obtain st2 where s: "seed_mkfile p n (imported_file m c) c st = Some st2" "spec_walk p rest st2 = Some st'"
    using File.prems(1) by (auto split: option.splits)
  have "a_inodes (fst st2) 1 \<noteq> None"
    using s(1) File.prems(2) by (auto simp: seed_mkfile_def Let_def split: if_splits option.splits)
  from File.IH [OF s(2) this] show ?case .
qed (auto split: option.splits)

text \<open>The root directory takes mode and owner of the source directory.\<close>

lemma root_step:
  assumes laws: "blockset_laws B" and ok: "bs_ok B (ds_io s1)"
    and run: "update_inode B (root_inode\<lparr>mode := mode (dir_inode_meta m), uid := uid (dir_inode_meta m), gid := gid (dir_inode_meta m)\<rparr>)
      (store_new B u g io) = (s1, r)"
    and root: "root_inode = new_directory 1 u g (S_IFDIR OR 0x1ED)"
  shows "get_inode B 1 (store_new B u g io) = Ok root_inode \<and> r = Ok () \<and> seed_rel B s1 (spec_root u g m, Map.empty)"
proof -
  let ?s = "store_new B u g io"
  let ?new = "root_inode\<lparr>mode := mode (dir_inode_meta m), uid := uid (dir_inode_meta m), gid := gid (dir_inode_meta m)\<rparr>"
  have g: "bs_grows B (ds_io ?s) (ds_io s1)" using run_op_grows [OF laws, of ?s "UpdateInode ?new"] run by (simp add: respond_def)
  have rel: "store_rel B ?s (meta_init u g)" by (rule store_new_rel [OF laws bs_growsD(1) [OF g ok]])
  have new: "?new = (imported_dir m)\<lparr>ino := 1\<rparr>"
    by (simp add: root new_directory_def imported_meta imported_dir_def)
  have "op_allowed (UpdateInode ?new) (meta_init u g)" unfolding new
    by (simp add: op_allowed_def meta_init_def total_size_def imported_dir_def)
  with run_op_refines [OF laws rel, of "UpdateInode ?new"] ok run
  have "store_rel B s1 (spec_root u g m) \<and> r = Ok ()" unfolding new
    by (cases r) (simp_all add: op_refines_def respond_def same_resp_def meta_init_def spec_root_def imported_dir_def)
  moreover have "spec_root u g m = (spec_root u g m)\<lparr>a_manifests := Map.empty\<rparr>" by (simp add: spec_root_def meta_init_def)
  ultimately have "seed_rel B s1 (spec_root u g m, Map.empty)" "r = Ok ()"
    unfolding seed_rel_def contents_at_def by (auto intro: exI [of _ Map.empty])
  moreover have "get_inode B 1 ?s = Ok root_inode" using get_inode_at [OF rel, of 1] by (simp add: meta_init_def root)
  ultimately show ?thesis by blast
qed

lemma seed_segment_ok:
  "\<exists>f. seed_segment no_fault r = (Ok (), f) \<and> openable f \<and> segment_entries f = [RootUpdate r]"
proof -
  let ?f = "segment_header_bytes 1 @ enc_record (RootUpdate r) @ eof_record"
  have f: "segment_entries ?f = [RootUpdate r]" "openable ?f"
    using read_log(2) [of "[RootUpdate r]" "[]"] by (simp_all add: segment_entries_body openable_def reader_open_segment)
  obtain w where w: "write_entry None (RootUpdate r) (writer_new 1) = (Ok (), None, w)"
    "sw_written w = sw_written (writer_new 1) @ enc_record (RootUpdate r)" by (rule write_entry_None)
  obtain w' where w': "writer_close None False w = (Ok (), None, w')" "sw_file w' = sw_written w @ eof_record" "sw_buffer w' = []"
    by (rule writer_close_None)
  have "seed_segment no_fault r = (Ok (), ?f)"
    using w w' by (simp add: seed_segment_def no_fault_def writer_drop_synced segment_header_bytes_def)
  with f show ?thesis by blast
qed

definition seed_small :: "seed_state \<Rightarrow> bool" where
  "seed_small st \<longleftrightarrow> card (dom (a_inodes (fst st))) < 2 ^ 58 \<and> card (dom (a_dirs (fst st))) < 2 ^ 58 \<and>
     card (dom (a_xattrs (fst st))) < 2 ^ 58 \<and> card (dom (a_refs (fst st))) < 2 ^ 58 \<and> card (dom (snd st)) < 2 ^ 58"

lemma contents_atD:
  assumes "contents_at B io M C" "C i = Some c"
  shows "\<exists>d. M i = Some [d] \<and> storage_get B io d = Some c"
proof -
  have "case C i of None \<Rightarrow> M i = None | Some c \<Rightarrow> (\<exists>d. M i = Some [d] \<and> storage_get B io d = Some c)"
    using assms(1) unfolding contents_at_def by (rule allE)
  then show ?thesis using assms(2) by simp
qed

lemma contents_dom: "contents_at B io M C \<Longrightarrow> dom M = dom C"
  unfolding contents_at_def by (auto simp: dom_def split: option.splits)

lemma run_seed_grows:
  assumes laws: "blockset_laws B" and run: "run_seed B F u g (Some (m, Some es)) (d, io) = ((d1, io1), res)"
  shows "bs_grows B (ds_io (store_new B u g io)) io1"
proof -
  have up: "update_inode B x t = (t', y) \<Longrightarrow> bs_grows B (ds_io t) (ds_io t')" for x t t' y
    using run_op_grows [OF laws, of t "UpdateInode x"] by (simp add: respond_def)
  have walk: "walk_entries B q ents t = (t', x) \<Longrightarrow> bs_grows B (ds_io t) (ds_io t')" for q ents t t' x
    using walk_grows [OF laws, of t q ents] by simp
  have com: "commit B no_fault t = (t', x) \<Longrightarrow> bs_grows B (ds_io t) (ds_io t')" for t t' x
    using commit_grows [OF laws, of t no_fault] by simp
  show ?thesis using run
    by (auto simp: run_seed_def walk_dir_def Let_def split: prod.splits sum.splits dest!: up walk com intro: bs_grows_trans)
qed

lemma run_seed_steps:
  assumes "get_inode B 1 (store_new B u g io) = Ok root"
    "update_inode B (root\<lparr>mode := mode (dir_inode_meta m), uid := uid (dir_inode_meta m), gid := gid (dir_inode_meta m)\<rparr>)
      (store_new B u g io) = (s1, r1)"
    "walk_entries B 1 (sort_key fst es) s1 = (s2, r2)" "commit B no_fault s2 = (s3, Ok r)" "seed_segment no_fault r = (Ok (), f)"
  shows "run_seed B no_fault u g (Some (m, Some es)) (d, io) =
    (case r1 of Err e \<Rightarrow> ((d, ds_io s1), Err (StoreFailed e)) | Ok _ \<Rightarrow>
      (case r2 of Err e \<Rightarrow> ((d, ds_io s2), Err e) | Ok _ \<Rightarrow>
        ((d\<lparr>sd_segments := Some (dir_put (segment_file_name 6 1) f (case sd_segments d of None \<Rightarrow> [] | Some segs \<Rightarrow> segs))\<rparr>,
          ds_io s3), Ok ())))"
  using assms by (simp add: run_seed_def walk_dir_def Let_def split: sum.split)

lemma seed_run:
  assumes laws: "blockset_laws B" and spec: "spec_seed u g m es = Some (a, C)" and small: "seed_small (a, C)"
    and run: "run_seed B no_fault u g (Some (m, Some es)) (d, io) = ((d1, io1), res)" and ok: "bs_ok B io1"
  shows "\<exists>f M r. res = Ok () \<and> contents_at B io1 M C \<and> committed B io1 r (a\<lparr>a_manifests := M\<rparr>) \<and> openable f \<and>
    segment_entries f = [RootUpdate r] \<and>
    d1 = d\<lparr>sd_segments := Some (dir_put (segment_file_name 6 1) f (case sd_segments d of None \<Rightarrow> [] | Some segs \<Rightarrow> segs))\<rparr>"
proof -
  let ?root = "new_directory 1 u g (S_IFDIR OR 0x1ED)" and ?s = "store_new B u g io"
  let ?new = "?root\<lparr>mode := mode (dir_inode_meta m), uid := uid (dir_inode_meta m), gid := gid (dir_inode_meta m)\<rparr>"
  obtain s1 r1 where u: "update_inode B ?new ?s = (s1, r1)" by (metis surj_pair)
  obtain s2 r2 where w: "walk_entries B 1 (sort_key fst es) s1 = (s2, r2)" by (metis surj_pair)
  obtain s3 r where c: "commit B no_fault s2 = (s3, Ok r)" using commit_ok by blast
  have g: "bs_grows B (ds_io s1) (ds_io s2)" "bs_grows B (ds_io s2) (ds_io s3)" "bs_grows B (ds_io ?s) (ds_io s1)"
    using walk_grows [OF laws, of s1 1 "sort_key fst es"] commit_grows [OF laws, of s2 no_fault]
      run_op_grows [OF laws, of ?s "UpdateInode ?new"] w c u by (simp_all add: respond_def)
  obtain f where f: "seed_segment no_fault r = (Ok (), f)" "openable f" "segment_entries f = [RootUpdate r]"
    using seed_segment_ok by blast
  have "bs_ok B (ds_io ?s)" by (rule bs_growsD(1) [OF run_seed_grows [OF laws run] ok])
  then have root: "get_inode B 1 ?s = Ok ?root" using get_inode_at [OF store_new_rel [OF laws], of u g io 1] by (simp add: meta_init_def)
  note steps = run [unfolded run_seed_steps [OF root u w c f(1)]]
  have "bs_ok B (ds_io s1)" using steps ok bs_growsD(1) [OF g(1)] bs_growsD(1) [OF g(2)] by (cases r1; cases r2) auto
  from root_step [OF laws this u refl] have one: "r1 = Ok ()" "seed_rel B s1 (spec_root u g m, Map.empty)" by simp_all
  have ok2: "bs_ok B (ds_io s2)" using steps ok one(1) bs_growsD(1) [OF g(2)] by (cases r2) auto
  from walk_refines [OF laws one(2) spec [unfolded spec_seed_def] w ok2] have two: "r2 = Ok ()" "seed_rel B s2 (a, C)" by simp_all
  have fin: "io1 = ds_io s3" "res = Ok ()"
    "d1 = d\<lparr>sd_segments := Some (dir_put (segment_file_name 6 1) f (case sd_segments d of None \<Rightarrow> [] | Some segs \<Rightarrow> segs))\<rparr>"
    using steps one(1) two(1) by auto
  from two(2) obtain M where M: "store_rel B s2 (a\<lparr>a_manifests := M\<rparr>)" "contents_at B (ds_io s2) M C" by (auto simp: seed_rel_def)
  have "store_small s2" using small contents_dom [OF M(2)] by (intro small_maps [OF M(1)]) (simp_all add: seed_small_def)
  moreover have "a_inodes (a\<lparr>a_manifests := M\<rparr>) 1 \<noteq> None"
    using walk_root [OF spec [unfolded spec_seed_def]] by (simp add: spec_root_def)
  ultimately have "committed B io1 r (a\<lparr>a_manifests := M\<rparr>)"
    using commit_committed [OF laws M(1) _ _ c] ok fin(1) by auto
  moreover have "contents_at B io1 M C" using contents_at_grows [OF M(2) g(2)] ok fin(1) by simp
  ultimately show ?thesis using fin(2,3) f(2,3) by blast
qed

subsection \<open>A small tree\<close>

definition tree_size :: "source_entry list \<Rightarrow> nat" where
  "tree_size = size_list (size_prod (\<lambda>_. 0) (size_prod (\<lambda>_. 0) size_class.size))"

lemma walk_few: "few_pushes (30 * tree_size es) (ds_io s) (ds_io (fst (walk_entries list_blockset p es s)))"
proof (induction es arbitrary: p s rule: entries_induct)
  case (Unread f n m rest)
  have "few_pushes 8 (ds_io s) (ds_io (fst (create_directory list_blockset p n (dir_inode_meta m) s)))"
    using run_op_few [of s "CreateDirectory p n (dir_inode_meta m)"] by (simp add: respond_def)
  then show ?case by (auto simp: tree_size_def few_pushes_def split: prod.splits sum.splits)
next
  case (Dir f n m es rest)
  obtain s1 r1 where c: "create_directory list_blockset p n (dir_inode_meta m) s = (s1, r1)" by (metis surj_pair)
  have f1: "few_pushes 8 (ds_io s) (ds_io s1)" using run_op_few [of s "CreateDirectory p n (dir_inode_meta m)"] c by (simp add: respond_def)
  show ?case
  proof (cases r1)
    case (Inr i)
    obtain s2 r2 where w: "walk_entries list_blockset i (sort_key fst es) s1 = (s2, r2)" by (metis surj_pair)
    have f2: "few_pushes (30 * tree_size es) (ds_io s1) (ds_io s2)" using Dir.IH(1) [of s1 i] w by (simp add: tree_size_def size_sort_key)
    have "few_pushes (30 * tree_size rest) (ds_io s2) (ds_io (fst (walk_entries list_blockset p rest s2)))" by (rule Dir.IH(2))
    then show ?thesis using f1 f2 c w Inr by (cases r2) (auto simp: tree_size_def few_pushes_def)
  qed (use f1 c in \<open>auto simp: tree_size_def few_pushes_def\<close>)
next
  case (File f n m c rest)
  obtain io d where push: "push_all list_blockset (ds_io s) c = (io, d)" by (metis surj_pair)
  obtain s1 r1 where c: "create_inode list_blockset (file_inode_meta m (of_nat (length c))) (s\<lparr>ds_io := io\<rparr>) = (s1, r1)" by (metis surj_pair)
  have f0: "few_pushes 1 (ds_io s) io" by (rule push_all_few [OF push])
  have f1: "few_pushes 8 io (ds_io s1)"
    using run_op_few [of "s\<lparr>ds_io := io\<rparr>" "CreateInode (file_inode_meta m (of_nat (length c)))"] c by (simp add: respond_def)
  show ?case
  proof (cases r1)
    case (Inr i)
    obtain s2 r2 where l: "store_link list_blockset p n i s1 = (s2, r2)" by (metis surj_pair)
    obtain s3 r3 where sm: "set_manifest list_blockset i [d] s2 = (s3, r3)" by (metis surj_pair)
    have f2: "few_pushes 8 (ds_io s1) (ds_io s2)" "few_pushes 8 (ds_io s2) (ds_io s3)"
      using run_op_few [of s1 "Link p n i"] run_op_few [of s2 "SetManifest i [d]"] l sm by (simp_all add: respond_def)
    have "few_pushes (30 * tree_size rest) (ds_io s3) (ds_io (fst (walk_entries list_blockset p rest s3)))" by (rule File.IH)
    then show ?thesis using f0 f1 f2 push c l sm Inr by (cases r2; cases r3) (auto simp: seed_file_def tree_size_def few_pushes_def)
  qed (use f0 f1 push c in \<open>auto simp: seed_file_def tree_size_def few_pushes_def\<close>)
next
  case (Other f n rest)
  from Other.IH [of s p] show ?case by (auto simp: tree_size_def few_pushes_def)
qed (simp_all add: seed_file_def tree_size_def)

lemma run_seed_few:
  assumes "run_seed list_blockset F u g (Some (m, Some es)) (d, io) = ((d1, io1), res)"
  shows "few_pushes (30 * tree_size es + 19) io io1"
proof -
  have up: "update_inode list_blockset x t = (t', y) \<Longrightarrow> few_pushes 8 (ds_io t) (ds_io t')" for x t t' y
    using run_op_few [of t "UpdateInode x"] by (simp add: respond_def)
  have walk: "walk_entries list_blockset q (sort_key fst es) t = (t', x) \<Longrightarrow> few_pushes (30 * tree_size es) (ds_io t) (ds_io t')" for q t t' x
    using walk_few [of "sort_key fst es" t q] by (simp add: tree_size_def size_sort_key)
  have com: "commit list_blockset no_fault t = (t', x) \<Longrightarrow> few_pushes 7 (ds_io t) (ds_io t')" for t t' x
    using commit_few [of t no_fault] by simp
  have new: "few_pushes 4 io (ds_io (store_new list_blockset u g io))" by (rule store_new_few)
  show ?thesis using assms new
    by (auto simp: run_seed_def walk_dir_def Let_def split: prod.splits sum.splits dest!: up walk com) (auto simp: few_pushes_def)
qed

definition demo_host :: host_meta where
  "demo_host = \<lparr>hm_mode = 0x1ED, hm_uid = 7, hm_gid = 8, hm_mtime = 9, hm_mtime_nsec = 0\<rparr>"

definition demo_tree :: "source_entry list" where
  "demo_tree = [(str ''f'', str ''f'', SourceDir demo_host (Some [(str ''g'', str ''g'', SourceFile demo_host (Some [1, 2, 3]))]))]"

definition demo_seeded :: meta_state where
  "demo_seeded =
     \<lparr>a_inodes = [1 \<mapsto> (new_directory 1 7 8 (S_IFDIR OR 0x1ED))\<lparr>nlinks := 3\<rparr>, 2 \<mapsto> new_directory 2 7 8 (S_IFDIR OR 0x1ED),
        3 \<mapsto> (imported_file demo_host [1, 2, 3])\<lparr>ino := 3\<rparr>],
      a_dirs = [1 \<mapsto> [str ''.'' \<mapsto> 1, str ''..'' \<mapsto> 1, str ''f'' \<mapsto> 2], 2 \<mapsto> [str ''.'' \<mapsto> 2, str ''..'' \<mapsto> 1, str ''g'' \<mapsto> 3]],
      a_manifests = Map.empty, a_xattrs = Map.empty, a_refs = Map.empty, a_next = 4\<rparr>"

lemma demo_tree_spec: "spec_seed 7 8 demo_host demo_tree = Some (demo_seeded, [3 \<mapsto> [1, 2, 3]])"
  using demo_strs
  by (simp add: spec_seed_def demo_tree_def spec_root_def meta_init_def seed_mkdir_def seed_mkfile_def op_allowed_def Let_def
        spec_create_directory_def dir_room_def imported_dir_def new_directory_def demo_host_def u64_max_def
        is_dir_mode_def S_IFDIR_def total_size_def imported_file_def demo_seeded_def fun_upd_twist)

subsection \<open>Properties\<close>

text \<open>
  C25. Importing a directory tree into an empty store, when no write fails: the import succeeds, the next
  mount finds exactly the tree (for every directory one with its permissions and owner, for every file an
  inode with its permissions, owner, modification time and size, each under its name; the times of
  directories are not imported), and every file reads as the bytes of the source file.
\<close>

theorem seed_mounts_tree:
  assumes "blockset_laws B" and "spec_seed u g m es = Some (a, C)" and "seed_small (a, C)"
    and "run_seed B no_fault u g (Some (m, Some es)) (d, io) = ((d1, io1), res)" and "bs_ok B io1"
    and "\<not> sd_legacy d" and "sd_segments d = None" and "ma_snapshot_ref args = None" and "enumerates iter"
  shows "res = Ok () \<and> (\<exists>d2 s2 cfg n M. run_mount B False False args io1 d1 = (d2, Ok (s2, cfg, n)) \<and>
    fs_rel B s2 (a\<lparr>a_manifests := M\<rparr>) \<and> fs_open_files s2 = [] \<and>
    (\<forall>i c off sz. C i = Some c \<longrightarrow> snd (test_read B iter i off sz s2) = Ok (sub_range c off sz)))"
proof -
  obtain f M r where run: "res = Ok ()" "contents_at B io1 M C" "committed B io1 r (a\<lparr>a_manifests := M\<rparr>)" "openable f"
    "segment_entries f = [RootUpdate r]" "d1 = d\<lparr>sd_segments := Some (map seg_file [(1, f)])\<rparr>"
  proof -
    from seed_run [OF assms(1-5)] obtain f M r where "res = Ok ()" "contents_at B io1 M C"
      "committed B io1 r (a\<lparr>a_manifests := M\<rparr>)" "openable f" "segment_entries f = [RootUpdate r]"
      "d1 = d\<lparr>sd_segments := Some (dir_put (segment_file_name 6 1) f (case sd_segments d of None \<Rightarrow> [] | Some segs \<Rightarrow> segs))\<rparr>"
      by (elim exE conjE)
    then show ?thesis using that by (simp add: assms(7) seg_file_def)
  qed
  have good: "good_segments [(1, f)]" by (simp add: good_segments_def run(4))
  have "log_of [(1, f)] = [RootUpdate r]" by (simp add: log_of_def dir_entries_def seg_file_def run(5))
  then have "load_store_from_segments (map seg_file [(1, f)]) = Ok (Some r, [])"
    using load_before_session [OF good] by (simp add: last_root_def snapshots_of_def map_filter_simps)
  from committed_mount [OF assms(1) run(3) assms(5) _ _ this assms(8), of d1] assms(6) run(6)
  obtain d2 s2 cfg n where mnt: "run_mount B False False args io1 d1 = (d2, Ok (s2, cfg, n))"
    "fs_rel B s2 (a\<lparr>a_manifests := M\<rparr>)" "fs_open_files s2 = []" "fs_io s2 = io1" by auto
  have "snd (test_read B iter i off sz s2) = Ok (sub_range c off sz)" if "C i = Some c" for i c off sz
  proof (rule read_closed [OF mnt(2,3) assms(9)])
    from contents_atD [OF run(2) that] obtain dg where "M i = Some [dg]" "storage_get B io1 dg = Some c" by blast
    then show "a_manifests (a\<lparr>a_manifests := M\<rparr>) i \<noteq> None" "file_has B (fs_io s2) (a\<lparr>a_manifests := M\<rparr>) i c"
      by (simp_all add: file_has_def mnt(4))
  qed
  then show ?thesis using run(1) mnt(1-3) by (intro conjI exI [of _ d2] exI [of _ s2] exI [of _ cfg] exI [of _ n] exI [of _ M]) simp_all
qed

theorem seed_mounts_tree_witness:
  "\<exists>d1 io1 d2 s2 cfg n M. run_seed list_blockset no_fault 7 8 (Some (demo_host, Some demo_tree))
       (\<lparr>sd_legacy = False, sd_segments = None, sd_lock = False\<rparr>, []) = ((d1, io1), Ok ()) \<and>
     run_mount list_blockset False False demo_args io1 d1 = (d2, Ok (s2, cfg, n)) \<and>
     fs_rel list_blockset s2 (demo_seeded\<lparr>a_manifests := M\<rparr>) \<and> snd (test_read list_blockset id 3 1 10 s2) = Ok [2, 3]"
proof -
  let ?d = "\<lparr>sd_legacy = False, sd_segments = None, sd_lock = False\<rparr>"
  obtain d1 io1 res where run: "run_seed list_blockset no_fault 7 8 (Some (demo_host, Some demo_tree)) (?d, []) = ((d1, io1), res)"
    by (metis surj_pair)
  have "tree_size demo_tree < 100" by (simp add: tree_size_def demo_tree_def)
  then have ok: "bs_ok list_blockset io1" by (intro few_ok [OF run_seed_few [OF run]]) simp_all
  have small: "seed_small (demo_seeded, [3 \<mapsto> [1, 2, 3]])" by (simp add: seed_small_def demo_seeded_def)
  have args: "ma_snapshot_ref demo_args = None" "enumerates (id :: (u64, bytes open_file_state) btree \<Rightarrow> _)"
    by (simp_all add: demo_args_def)
  have read: "sub_range [1, 2, 3] 1 10 = [2, 3 :: byte]" by (simp add: sub_range_def slice_def)
  have empty: "\<not> sd_legacy ?d" "sd_segments ?d = None" by simp_all
  from seed_mounts_tree [OF list_blockset_laws demo_tree_spec small run ok empty args(1), of id] args(2) obtain d2 s2 cfg n M where
    "res = Ok ()" "run_mount list_blockset False False demo_args io1 d1 = (d2, Ok (s2, cfg, n))"
    "fs_rel list_blockset s2 (demo_seeded\<lparr>a_manifests := M\<rparr>)"
    "\<forall>i c off sz. [3 \<mapsto> [1, 2, 3]] i = Some c \<longrightarrow> snd (test_read list_blockset id i off sz s2) = Ok (sub_range c off sz)"
    by blast
  moreover from this(4) have "snd (test_read list_blockset id 3 1 10 s2) = Ok [2, 3]" using read by simp
  ultimately show ?thesis using run by blast
qed

end
