(* ===== verification/Calendar.thy ===== *)
theory Calendar
  imports Decimal "HOL-Library.Signed_Division"
begin

section \<open>Dates in the listing of snapshots\<close>

text \<open>
  \<^verbatim>\<open>format_unix_timestamp\<close> and \<^verbatim>\<open>days_to_ymd\<close> of \<^verbatim>\<open>snapshot.rs\<close> in \<^verbatim>\<open>slicefs-cli\<close>. The computation with eras of
  400 years is compared with the calendar that counts day by day from 1 January 1970.
\<close>

subsection \<open>The program\<close>

text \<open>The signed variables are integers; \<open>z\<close> is read off a 64-bit word, the sum wraps around.\<close>

definition days_to_ymd :: "u64 \<Rightarrow> u32 \<times> u32 \<times> u32" where
  "days_to_ymd days =
     (let z = days + 719468;
          era = (if sint z \<ge> 0 then sint z else sint (z - 146096)) sdiv 146097;
          doe = (of_int (sint z - era * 146097) :: u64);
          yoe = (doe - doe div 1460 + doe div 36524 - doe div 146096) div 365;
          y = sint yoe + era * 400;
          doy = doe - (365 * yoe + yoe div 4 - yoe div 100);
          mp = (5 * doy + 2) div 153;
          d = doy - (153 * mp + 2) div 5 + 1;
          m = (if mp < 10 then mp + 3 else mp - 9);
          y = (if m \<le> 2 then y + 1 else y)
      in (of_int y, ucast m, ucast d))"

definition format_unix_timestamp :: "u64 \<Rightarrow> rstring" where
  "format_unix_timestamp secs =
     (if secs = 0 then str ''unknown''
      else let sec = (ucast (secs mod 60) :: u32);
               min = (ucast ((secs div 60) mod 60) :: u32);
               hour = (ucast ((secs div 3600) mod 24) :: u32);
               (year, month, day) = days_to_ymd (secs div 86400)
           in fmt_padded 4 (unat year) @ str ''-'' @ fmt_padded 2 (unat month) @ str ''-'' @ fmt_padded 2 (unat day) @
              str ''T'' @ fmt_padded 2 (unat hour) @ str '':'' @ fmt_padded 2 (unat min) @ str '':'' @
              fmt_padded 2 (unat sec) @ str ''Z'')"

subsection \<open>The calendar\<close>

definition leap :: "nat \<Rightarrow> bool" where
  "leap y \<longleftrightarrow> 4 dvd y \<and> (100 dvd y \<longrightarrow> 400 dvd y)"

definition month_days :: "nat \<Rightarrow> nat \<Rightarrow> nat" where
  "month_days y m = (if m = 2 then (if leap y then 29 else 28) else if m \<in> {4, 6, 9, 11} then 30 else 31)"

fun next_day :: "nat \<times> nat \<times> nat \<Rightarrow> nat \<times> nat \<times> nat" where
  "next_day (y, m, d) =
     (if d < month_days y m then (y, m, d + 1) else if m < 12 then (y, m + 1, 1) else (y + 1, 1, 1))"

definition calendar :: "nat \<Rightarrow> nat \<times> nat \<times> nat" where
  "calendar n = (next_day ^^ n) (1970, 1, 1)"

subsection \<open>Years from March to February\<close>

text \<open>Day \<open>doy\<close> of the year \<open>y\<close> that starts on 1 March.\<close>

definition march_date :: "nat \<Rightarrow> nat \<Rightarrow> nat \<times> nat \<times> nat" where
  "march_date y doy =
     (let mp = (5 * doy + 2) div 153; m = (if mp < 10 then mp + 3 else mp - 9)
      in (if m \<le> 2 then y + 1 else y, m, doy - (153 * mp + 2) div 5 + 1))"

definition march_length :: "nat \<Rightarrow> nat" where
  "march_length y = (if leap (y + 1) then 366 else 365)"

text \<open>The days before 1 March of the year \<open>y\<close>, from 1 March of the year 0.\<close>

definition march_days :: "nat \<Rightarrow> nat" where
  "march_days y = 365 * y + y div 4 - y div 100 + y div 400"

lemma march_days_Suc: "march_days (Suc y) = march_days y + march_length y"
proof -
  have dvd: "Suc y div k = y div k + (if k dvd Suc y then 1 else 0)" if "k > 1" for k
    using that by (simp add: div_Suc dvd_eq_mod_eq_0)
  have "y div 100 \<le> y" by simp
  moreover have "400 dvd Suc y \<Longrightarrow> 100 dvd Suc y" "100 dvd Suc y \<Longrightarrow> 4 dvd Suc y" by presburger+
  ultimately show ?thesis
    by (cases "4 dvd Suc y"; cases "100 dvd Suc y"; cases "400 dvd Suc y")
      (simp_all only: march_days_def march_length_def leap_def dvd [of 4, simplified] dvd [of 100, simplified] dvd [of 400, simplified] Suc_eq_plus1 [symmetric], simp_all)
qed

text \<open>The first day of the month number \<open>k\<close>, from March.\<close>

definition month_start :: "nat \<Rightarrow> nat" where
  "month_start k = (153 * k + 2) div 5"

lemma month_index: "(5 * doy + 2) div 153 = k \<longleftrightarrow> month_start k \<le> doy \<and> doy < month_start (Suc k)"
proof -
  have "(5 * doy + 2) div 153 = k \<longleftrightarrow> 153 * k \<le> 5 * doy + 2 \<and> 5 * doy + 2 < 153 * Suc k"
    by (auto simp: div_nat_eqI dividend_less_times_div mult.commute intro!: div_nat_eqI)
  moreover have "month_start k \<le> doy \<longleftrightarrow> 153 * k \<le> 5 * doy + 2" "doy < month_start (Suc k) \<longleftrightarrow> 5 * doy + 2 < 153 * Suc k"
    unfolding month_start_def by linarith+
  ultimately show ?thesis by simp
qed

lemma month_starts:
  "month_start 0 = 0" "month_start 1 = 31" "month_start 2 = 61" "month_start 3 = 92" "month_start 4 = 122" "month_start 5 = 153"
  "month_start 6 = 184" "month_start 7 = 214" "month_start 8 = 245" "month_start 9 = 275" "month_start 10 = 306"
  "month_start 11 = 337" "month_start 12 = 367" "month_start (Suc 0) = 31" "month_start (Suc (Suc 0)) = 61"
  "month_start (Suc (Suc (Suc 0))) = 92"
  by (simp_all add: month_start_def)

lemma march_date_at:
  assumes "month_start k \<le> doy" "doy < month_start (Suc k)"
  shows "march_date y doy = (let m = (if k < 10 then k + 3 else k - 9) in (if m \<le> 2 then y + 1 else y, m, doy - month_start k + 1))"
  using assms month_index [of doy k] by (simp add: march_date_def month_start_def)

lemma month_cases:
  fixes k :: nat
  assumes "k < 12"
  obtains "k = 0" | "k = 1" | "k = 2" | "k = 3" | "k = 4" | "k = 5" | "k = 6" | "k = 7" | "k = 8" | "k = 9" | "k = 10" | "k = 11"
proof -
  have "k = 0 \<or> k = 1 \<or> k = 2 \<or> k = 3 \<or> k = 4 \<or> k = 5 \<or> k = 6 \<or> k = 7 \<or> k = 8 \<or> k = 9 \<or> k = 10 \<or> k = 11"
    using assms by presburger
  then show ?thesis using that by blast
qed

lemma march_date_next:
  assumes "Suc doy < march_length y"
  shows "next_day (march_date y doy) = march_date y (Suc doy)"
proof -
  have len: "Suc doy < 366" "\<not> leap (Suc y) \<Longrightarrow> Suc doy < 365"
    using assms by (auto simp: march_length_def split: if_splits)
  define k where "k = (5 * doy + 2) div 153"
  have at: "month_start k \<le> doy" "doy < month_start (Suc k)" using month_index [of doy k] k_def by simp_all
  have k: "k < 12" using len(1) unfolding k_def by (simp add: less_mult_imp_div_less)
  show ?thesis
  proof (cases "Suc doy < month_start (Suc k)")
    case True
    then have next_at: "march_date y (Suc doy) = (let m = (if k < 10 then k + 3 else k - 9) in (if m \<le> 2 then y + 1 else y, m, Suc doy - month_start k + 1))"
      using march_date_at [of k "Suc doy" y] at(1) by simp
    from k show ?thesis
      by (cases rule: month_cases) (use True at len in \<open>auto simp: next_at march_date_at [OF at] month_starts month_days_def\<close>)
  next
    case False
    then have eq: "Suc doy = month_start (Suc k)" using at(2) by simp
    from k show ?thesis
    proof (cases rule: month_cases)
      case 12
      then show ?thesis using eq len(1) month_starts by simp
    qed (use eq in \<open>auto simp: march_date_def month_starts month_days_def\<close>)
  qed
qed

lemma march_date_first: "next_day (march_date y (march_length y - 1)) = march_date (Suc y) 0"
proof -
  let ?doy = "march_length y - 1"
  have "month_start 11 \<le> ?doy" "?doy < month_start (Suc 11)" by (simp_all add: month_starts march_length_def)
  from march_date_at [OF this, of y] march_date_at [of 0 0 "Suc y"] show ?thesis
    by (auto simp: month_starts month_days_def march_length_def)
qed

text \<open>Counting from 1 January 1970 follows the years from March.\<close>

lemma calendar_march:
  "\<exists>y doy. doy < march_length y \<and> n + 719468 = march_days y + doy \<and> calendar n = march_date y doy"
proof (induction n)
  case 0
  have "306 < march_length 1969 \<and> 0 + 719468 = march_days 1969 + 306 \<and> calendar 0 = march_date 1969 306"
    by (simp add: march_length_def march_days_def march_date_def calendar_def)
  then show ?case by blast
next
  case (Suc n)
  then obtain y doy where day: "doy < march_length y" "n + 719468 = march_days y + doy" "calendar n = march_date y doy" by blast
  have step: "calendar (Suc n) = next_day (march_date y doy)" using day(3) by (simp add: calendar_def)
  show ?case
  proof (cases "Suc doy < march_length y")
    case True
    then show ?thesis using day step march_date_next [OF True] by (intro exI [of _ y] exI [of _ "Suc doy"]) simp
  next
    case False
    then have "doy = march_length y - 1" using day(1) by simp
    then show ?thesis using day step march_date_first [of y]
      by (intro exI [of _ "Suc y"] exI [of _ 0]) (auto simp: march_days_Suc march_length_def)
  qed
qed

subsection \<open>Eras of 400 years\<close>

lemma march_days_era: "march_days (400 * a + b) = 146097 * a + march_days b"
proof -
  have "(400 * a + b) div 4 = 100 * a + b div 4" "(400 * a + b) div 100 = 4 * a + b div 100" "(400 * a + b) div 400 = a + b div 400"
    using div_mult_self4 [of 4 "100 * a" b] div_mult_self4 [of 100 "4 * a" b] div_mult_self4 [of 400 a b] by (simp_all add: add.commute)
  moreover have "b div 100 \<le> b" by simp
  ultimately show ?thesis unfolding march_days_def by (simp add: add.assoc)
qed

lemma march_length_era: "march_length (400 * a + b) = march_length b"
proof -
  have "k dvd 400 * a + b + 1 \<longleftrightarrow> k dvd b + 1" if "k dvd (400::nat)" for k
    using that by (metis add.assoc dvd_add_right_iff dvd_mult2)
  then show ?thesis by (simp add: march_length_def leap_def)
qed

lemma march_days_mono: "y \<le> z \<Longrightarrow> march_days y \<le> march_days z"
  by (rule lift_Suc_mono_le [of march_days]) (simp_all add: march_days_Suc)

definition year_of_era :: "nat \<Rightarrow> nat" where
  "year_of_era doe = (doe - doe div 1460 + doe div 36524 - doe div 146096) div 365"

text \<open>Century \<open>c\<close>, cycle of four years \<open>q\<close> and year \<open>r\<close> of the cycle.\<close>

lemma year_of_era_digits:
  assumes "c \<le> 3" "q \<le> 24" "r \<le> 3" "doy < 365 \<or> doy = 365 \<and> r = 3 \<and> (q < 24 \<or> c = 3)"
  shows "year_of_era (36524 * c + 1461 * q + 365 * r + doy) = 100 * c + 4 * q + r"
proof -
  let ?doe = "36524 * c + 1461 * q + 365 * r + doy"
  define e :: nat where "e = (if 24 * c + q + 365 * r + doy \<ge> 1460 then 1 else 0)"
  have leap_days: "?doe div 1460 = 25 * c + q + e"
    using assms by (intro div_nat_eqI) (auto simp: e_def)
  have centuries: "?doe div 36524 = c + ?doe div 146096"
  proof (cases "?doe = 146096")
    case True
    moreover have "doy \<le> 365" using assms by auto
    ultimately have "c = 3" using assms(1-3) by linarith
    then show ?thesis unfolding True by simp
  next
    case False
    then have "?doe < 146096" "1461 * q + 365 * r + doy < 36524" using assms by auto
    then show ?thesis by simp
  qed
  have "e \<le> doy" "doy - e < 365" using assms by (auto simp: e_def)
  then have "(36500 * c + 1460 * q + 365 * r + (doy - e)) div 365 = 100 * c + 4 * q + r"
    by (intro div_nat_eqI) auto
  then show ?thesis unfolding year_of_era_def leap_days centuries using \<open>e \<le> doy\<close> by (simp add: algebra_simps)
qed

lemma year_of_era_march:
  assumes "b < 400" "doy < march_length b"
  shows "year_of_era (march_days b + doy) = b"
proof -
  define c q r where "c = b div 100" and "q = b mod 100 div 4" and "r = b mod 4"
  have "b = 100 * c + b mod 100" "b mod 100 = 4 * q + b mod 100 mod 4" unfolding c_def q_def r_def by (rule mult_div_mod_eq [symmetric])+
  moreover have "b mod 100 mod 4 = r" unfolding r_def by (simp add: mod_mod_cancel)
  ultimately have b: "b = 100 * c + 4 * q + r" by linarith
  have bounds: "c \<le> 3" "q \<le> 24" "r \<le> 3" using assms(1) unfolding c_def q_def r_def by linarith+
  have "b div 4 = 25 * c + q" "b div 100 = c" "b div 400 = 0" using b bounds by auto
  then have days: "march_days b = 36524 * c + 1461 * q + 365 * r" using b by (simp add: march_days_def)
  have "doy < 365 \<or> doy = 365 \<and> leap (b + 1)" using assms(2) by (auto simp: march_length_def split: if_splits)
  moreover have "r = 3 \<and> (q < 24 \<or> c = 3)" if "leap (b + 1)"
  proof -
    have hundred: "100 dvd b + 1 \<Longrightarrow> 400 dvd b + 1" and "4 dvd 4 * (25 * c + q) + (r + 1)" using that b by (auto simp: leap_def algebra_simps)
    then have "4 dvd r + 1" by (subst (asm) dvd_add_right_iff) simp_all
    then have r: "r = 3" using bounds(3) by presburger
    have "c = 3" if "q = 24"
    proof -
      have "b + 1 = 100 * (c + 1)" using b r that by simp
      then have "100 * 4 dvd 100 * (c + 1)" using hundred by simp
      then have "4 dvd c + 1" by (subst (asm) nat_mult_dvd_cancel_disj) simp
      then show ?thesis using bounds(1) by presburger
    qed
    then show ?thesis using r bounds(2) by linarith
  qed
  ultimately show ?thesis using year_of_era_digits [OF bounds, of doy] b days by auto
qed

lemma era_of_march:
  assumes "doy < march_length y"
  defines "z \<equiv> march_days y + doy"
  shows "year_of_era (z mod 146097) + 400 * (z div 146097) = y"
    and "z mod 146097 = march_days (year_of_era (z mod 146097)) + doy"
    and "year_of_era (z mod 146097) < 400"
proof -
  define a b where "a = y div 400" and "b = y mod 400"
  have y: "y = 400 * a + b" and b: "b < 400" unfolding a_def b_def by simp_all
  have doy: "doy < march_length b" using assms(1) march_length_era [of a b] y by simp
  have "march_days (Suc b) \<le> march_days 400" by (rule march_days_mono) (use b in simp)
  then have "march_days b + doy < 146097" using doy by (simp add: march_days_Suc march_days_def [of 400])
  moreover have "z = 146097 * a + (march_days b + doy)" using y by (simp add: z_def march_days_era)
  ultimately have z: "z div 146097 = a" "z mod 146097 = march_days b + doy" by simp_all
  then have year: "year_of_era (z mod 146097) = b" using year_of_era_march [OF b doy] by simp
  show "year_of_era (z mod 146097) + 400 * (z div 146097) = y" "year_of_era (z mod 146097) < 400"
    "z mod 146097 = march_days (year_of_era (z mod 146097)) + doy" using year z y b by simp_all
qed

lemma word_of_nat_ops:
  assumes "a < 2 ^ 64" "b < 2 ^ 64"
  shows "(of_nat a :: u64) div of_nat b = of_nat (a div b)"
    and "b \<le> a \<Longrightarrow> (of_nat a :: u64) - of_nat b = of_nat (a - b)"
    and "(of_nat a :: u64) < of_nat b \<longleftrightarrow> a < b"
    and "(of_nat a :: u64) \<le> of_nat b \<longleftrightarrow> a \<le> b"
  using assms by (simp_all add: word_arith_nat_div unat_of_nat word_less_nat_alt word_le_nat_alt of_nat_diff)

lemma word_of_nat_div_numeral:
  "a < 2 ^ 64 \<Longrightarrow> (numeral k :: nat) < 2 ^ 64 \<Longrightarrow> (of_nat a :: u64) div numeral k = of_nat (a div numeral k)"
  using word_of_nat_ops(1) [of a "numeral k"] by simp

lemma yoe_word:
  assumes "doe < 146097"
  shows "((of_nat doe :: u64) - of_nat doe div 1460 + of_nat doe div 36524 - of_nat doe div 146096) div 365 = of_nat (year_of_era doe)"
proof -
  have small: "doe < 2 ^ 64" using assms by simp
  have le: "doe div 1460 \<le> doe" "doe div 146096 \<le> doe - doe div 1460 + doe div 36524" by linarith+
  have "(of_nat doe :: u64) - of_nat doe div 1460 + of_nat doe div 36524 - of_nat doe div 146096
      = of_nat (doe - doe div 1460 + doe div 36524 - doe div 146096)"
    using le by (simp add: word_of_nat_div_numeral [OF small] of_nat_diff)
  moreover have "doe - doe div 1460 + doe div 36524 - doe div 146096 \<le> 2 * doe" by linarith
  then have "doe - doe div 1460 + doe div 36524 - doe div 146096 < 2 ^ 64" by (rule le_less_trans) (use assms in simp)
  ultimately show ?thesis by (simp only: year_of_era_def) (simp add: word_of_nat_div_numeral del: of_nat_diff of_nat_add)
qed

lemma doy_word:
  assumes "y < 400" "doe = march_days y + doy" "doe < 146097"
  shows "(of_nat doe :: u64) - (365 * of_nat y + of_nat y div 4 - of_nat y div 100) = of_nat doy"
proof -
  have small: "y < 2 ^ 64" and "y div 100 \<le> 365 * y + y div 4" using assms(1) by (simp, linarith)
  then have "(365 * of_nat y + of_nat y div 4 - of_nat y div 100 :: u64) = of_nat (365 * y + y div 4 - y div 100)"
    by (simp add: word_of_nat_div_numeral [OF small] of_nat_diff)
  also have "365 * y + y div 4 - y div 100 = march_days y" using assms(1) by (simp add: march_days_def)
  finally show ?thesis using assms(2) by simp
qed

lemma date_words:
  assumes "doy < 366" "march_date y doy = (y', m, d)"
  defines "mp \<equiv> (5 * of_nat doy + 2) div 153 :: u64"
  defines "mw \<equiv> (if mp < 10 then mp + 3 else mp - 9)"
  shows "mw = of_nat m" "of_nat doy - (153 * mp + 2) div 5 + 1 = (of_nat d :: u64)"
    and "(if (of_nat m :: u64) \<le> 2 then int y + 1 else int y) = int y'" "m < 2 ^ 32" "d < 2 ^ 32"
proof -
  define k where "k = (5 * doy + 2) div 153"
  have k: "k < 12" "(153 * k + 2) div 5 \<le> doy" using assms(1) unfolding k_def by linarith+
  have "mp = of_nat (5 * doy + 2) div 153" unfolding mp_def by (simp add: add.commute)
  then have mp: "mp = of_nat k" using word_of_nat_div_numeral [of "5 * doy + 2"] assms(1) unfolding k_def by simp
  have date: "m = (if k < 10 then k + 3 else k - 9)" "y' = (if m \<le> 2 then y + 1 else y)" "d = doy - (153 * k + 2) div 5 + 1"
    using assms(2) by (auto simp: march_date_def k_def Let_def)
  have "mp < 10 \<longleftrightarrow> k < 10" using word_of_nat_ops(3) [of k 10] k(1) mp by simp
  then show mw: "mw = of_nat m" using date(1) k(1) by (auto simp: mw_def mp of_nat_diff)
  have m: "m \<le> 12" using date(1) k(1) by auto
  then show "m < 2 ^ 32" by simp
  have "(of_nat m :: u64) \<le> 2 \<longleftrightarrow> m \<le> 2" using word_of_nat_ops(4) [of m 2] m by simp
  then show "(if (of_nat m :: u64) \<le> 2 then int y + 1 else int y) = int y'" using date(2) by simp
  show "d < 2 ^ 32" using date(3) assms(1) by simp
  have "(153 * mp + 2) div 5 = of_nat (153 * k + 2) div 5" using mp by (simp add: add.commute)
  also have "\<dots> = of_nat ((153 * k + 2) div 5)" using k(1) by (intro word_of_nat_div_numeral) auto
  finally show "of_nat doy - (153 * mp + 2) div 5 + 1 = (of_nat d :: u64)" using k(2) date(3) by (simp add: of_nat_diff)
qed

lemma ucast_of_nat_32: "(ucast (of_nat k :: u64) :: u32) = of_nat k"
  by (rule bit_word_eqI) (simp add: bit_simps)

lemma sint_of_nat_small: "k < 2 ^ 63 \<Longrightarrow> sint (of_nat k :: u64) = int k"
  by (simp add: signed_of_nat signed_take_bit_int_eq_self)

text \<open>The date of every day up to the largest that 64 signed bits count.\<close>

lemma days_to_ymd_calendar:
  assumes "n + 719468 < 2 ^ 63" "calendar n = (y, m, d)"
  shows "days_to_ymd (of_nat n) = (of_nat y, of_nat m, of_nat d)"
proof -
  obtain Y doy where day: "doy < march_length Y" "n + 719468 = march_days Y + doy" "calendar n = march_date Y doy"
    using calendar_march [of n] by blast
  define z where "z = n + 719468"
  have sint: "sint (of_nat n + 719468 :: u64) = int z"
    using sint_of_nat_small [of z] assms(1) unfolding z_def by (simp add: add.commute)
  have era: "(if int z \<ge> 0 then int z else a) sdiv 146097 = int (z div 146097)" for a
    by (cases "z = 0") (simp_all add: signed_divide_int_def zdiv_int)
  define doe where "doe = z mod 146097"
  have doe: "int z - int (z div 146097) * 146097 = int doe" "doe < 146097"
    by (simp_all add: doe_def zmod_int zdiv_int minus_div_mult_eq_mod)
  note march = era_of_march [OF day(1), folded day(2), folded z_def, folded doe_def]
  have len: "doy < 366" using day(1) by (simp add: march_length_def split: if_splits)
  note words = date_words [OF len, of Y y m d] yoe_word [OF doe(2)] doy_word [OF march(3,2) doe(2)]
  have "march_date Y doy = (y, m, d)" using assms(2) day(3) by simp
  note words = words(1-5) [OF this] words(6,7)
  have year: "sint (of_nat (year_of_era doe) :: u64) + int (z div 146097) * 400 = int Y"
    using sint_of_nat_small [of "year_of_era doe"] march(1,3) by simp
  show ?thesis
    unfolding days_to_ymd_def Let_def sint era doe(1) of_int_of_nat_eq words(6,7) year words(1,2) words(3)
    by (simp add: ucast_of_nat_32)
qed

text \<open>The instant \<open>t\<close> seconds after the start of 1970, as a date and a time of the day.\<close>

definition instant :: "nat \<Rightarrow> (nat \<times> nat \<times> nat) \<times> (nat \<times> nat \<times> nat)" where
  "instant t = (calendar (t div 86400), (t mod 86400 div 3600, t mod 3600 div 60, t mod 60))"

lemma funpow_numeral_apply: "(f ^^ numeral k) x = f ((f ^^ pred_numeral k) x)"
  by (simp add: numeral_eq_Suc)

lemma calendar_bounds:
  assumes "calendar n = (y, m, d)"
  shows "m < 2 ^ 32" "d < 2 ^ 32"
proof -
  obtain Y doy where day: "doy < march_length Y" "calendar n = march_date Y doy" using calendar_march [of n] by blast
  have "doy < 366" using day(1) by (simp add: march_length_def split: if_splits)
  then show "m < 2 ^ 32" "d < 2 ^ 32" using date_words(4,5) [of doy Y y m d] day(2) assms by simp_all
qed

lemma mod_mult_div: "a > 0 \<Longrightarrow> (n mod (a * b)) div a = n div a mod (b :: nat)"
  by (simp add: mod_mult2_eq)

lemma clock_words:
  "unat (ucast (s mod 60 :: u64) :: u32) = unat s mod 60"
  "unat (ucast ((s div 60) mod 60 :: u64) :: u32) = unat s mod 3600 div 60"
  "unat (ucast ((s div 3600) mod 24 :: u64) :: u32) = unat s mod 86400 div 3600"
proof -
  have small: "unat (ucast (w mod v) :: u32) = unat w mod unat v" if "0 < v" "v < 2 ^ 32" for w v :: u64
  proof -
    have "unat w mod unat v < unat v" "unat v < 2 ^ 32" using that by (simp_all add: word_less_nat_alt)
    then show ?thesis by (simp add: unsigned_ucast_eq take_bit_nat_eq_self unat_mod)
  qed
  show "unat (ucast (s mod 60 :: u64) :: u32) = unat s mod 60" by (subst small) simp_all
  show "unat (ucast ((s div 60) mod 60 :: u64) :: u32) = unat s mod 3600 div 60"
    using mod_mult_div [of 60 "unat s" 60] by (subst small) (simp_all add: unat_div)
  show "unat (ucast ((s div 3600) mod 24 :: u64) :: u32) = unat s mod 86400 div 3600"
    using mod_mult_div [of 3600 "unat s" 24] by (subst small) (simp_all add: unat_div)
qed

text \<open>
  C33. The listing of snapshots prints the date of the calendar. For every time stamp other than 0 the year, the
  month and the day that \<^verbatim>\<open>format_unix_timestamp\<close> prints are those reached by counting the days one by one from
  1 January 1970, with the months and the leap years of the Gregorian calendar, and hour, minute and second split
  the rest of the day; the year is printed modulo \<open>2^32\<close>.
\<close>

theorem timestamp_is_calendar_date:
  assumes "secs \<noteq> 0" "instant (unat secs) = ((y, m, d), (h, mi, s))"
  shows "format_unix_timestamp secs =
    fmt_padded 4 (y mod 2 ^ 32) @ str ''-'' @ fmt_padded 2 m @ str ''-'' @ fmt_padded 2 d @ str ''T'' @
    fmt_padded 2 h @ str '':'' @ fmt_padded 2 mi @ str '':'' @ fmt_padded 2 s @ str ''Z''"
proof -
  have days: "secs div 86400 = of_nat (unat secs div 86400)" by (simp add: word_arith_nat_div)
  have "unat secs div 86400 + 719468 < 2 ^ 63" using unat_u64_less [of secs] by (simp add: div_less_iff_less_mult)
  moreover have cal: "calendar (unat secs div 86400) = (y, m, d)" using assms(2) by (simp add: instant_def)
  ultimately have "days_to_ymd (secs div 86400) = (of_nat y, of_nat m, of_nat d)" unfolding days by (rule days_to_ymd_calendar)
  moreover have "unat (of_nat m :: u32) = m" "unat (of_nat d :: u32) = d" "unat (of_nat y :: u32) = y mod 2 ^ 32"
    using calendar_bounds [OF cal] by (simp_all add: unat_of_nat)
  moreover have "unat secs mod 86400 div 3600 = h" "unat secs mod 3600 div 60 = mi" "unat secs mod 60 = s"
    using assms(2) by (simp_all add: instant_def)
  ultimately show ?thesis using assms(1) unfolding format_unix_timestamp_def Let_def clock_words(2,3) unfolding clock_words(1) by simp
qed

theorem timestamp_is_calendar_date_witness:
  "instant (unat (5190523 :: u64)) = ((1970, 3, 2), (1, 48, 43)) \<and>
   format_unix_timestamp 5190523 = str ''1970-03-02T01:48:43Z''"
proof -
  have "calendar 60 = (1970, 3, 2)" by (simp add: calendar_def funpow_numeral_apply month_days_def leap_def)
  then have i: "instant (unat (5190523 :: u64)) = ((1970, 3, 2), (1, 48, 43))" by (simp add: instant_def)
  have "format_unix_timestamp 5190523 =
    fmt_padded 4 (1970 mod 2 ^ 32) @ str ''-'' @ fmt_padded 2 3 @ str ''-'' @ fmt_padded 2 2 @ str ''T'' @
    fmt_padded 2 1 @ str '':'' @ fmt_padded 2 48 @ str '':'' @ fmt_padded 2 43 @ str ''Z''"
    by (rule timestamp_is_calendar_date [OF _ i]) simp
  moreover have "fmt_padded 4 1970 = str ''1970''" "fmt_padded 2 3 = str ''03''" "fmt_padded 2 2 = str ''02''"
    "fmt_padded 2 1 = str ''01''" "fmt_padded 2 48 = str ''48''" "fmt_padded 2 43 = str ''43''" by code_simp+
  ultimately show ?thesis using i by (simp add: str_def)
qed

end
