(* ===== verification/Stats.thy ===== *)
theory Stats
  imports Offline
begin

section \<open>Statistics of a store\<close>

text \<open>
  \<^verbatim>\<open>stats.rs\<close> of \<^verbatim>\<open>slicefs-cli\<close>. The report is the value of the command, its printing is left out; so is the
  deduplication ratio, a floating-point quotient of two numbers of the report.
\<close>

text \<open>A directory on the host; the listing of a directory may fail, and \<open>OtherEntry\<close> is any entry that is neither.\<close>

datatype disk_entry = DiskFile u64 | DiskDir "disk_entry list option" | OtherEntry

fun disk_entry_size :: "disk_entry \<Rightarrow> u64" where
  "disk_entry_size (DiskFile len) = len"
| "disk_entry_size (DiskDir None) = 0"
| "disk_entry_size (DiskDir (Some entries)) = sum_list (map disk_entry_size entries)"
| "disk_entry_size OtherEntry = 0"

definition disk_size :: "disk_entry list option \<Rightarrow> u64" where
  "disk_size entries = disk_entry_size (DiskDir entries)"

record refcount_dist =
  rd_unique :: nat
  rd_shared_2x :: nat
  rd_shared_3plus :: nat

record snapshot_stats =
  ss_version :: u64
  ss_name :: "rstring option"
  ss_created_at :: u64
  ss_reachable_roots :: nat

record store_stats =
  st_logical_bytes :: u64
  st_physical_bytes :: u64
  st_host_disk_bytes :: u64
  st_snapshot_count :: nat
  st_compressor :: rstring
  st_refcount_distribution :: refcount_dist
  st_snapshots :: "snapshot_stats list"
  st_mounted :: bool

datatype stats_failure =
  StatsLegacy | StatsNoSegments | StatsUnreadable io_error | StatsReconstruct meta_error | StatsPanicked

definition build_snapshot_stats :: "snapshot_entry list \<Rightarrow> snapshot_stats list" where
  "build_snapshot_stats snapshots =
     map (\<lambda>snap. \<lparr>ss_version = se_version snap, ss_name = se_name snap, ss_created_at = se_created_at snap,
       ss_reachable_roots = 1\<rparr>) snapshots"

text \<open>The directory \<^verbatim>\<open>vt0\<close> and the whole store directory are given by their listings on the host.\<close>

definition run_stats ::
  "('io, 'st) blockset \<Rightarrow> 'io \<Rightarrow> store_dir \<Rightarrow> disk_entry list option \<Rightarrow> disk_entry list option \<Rightarrow> stats_failure + store_stats" where
  "run_stats B io d vt0 whole =
     (if sd_legacy d then Err StatsLegacy
      else case sd_segments d of
        None \<Rightarrow> Err StatsNoSegments
      | Some segs \<Rightarrow>
          (case load_store_from_segments segs of
             Err e \<Rightarrow> Err (StatsUnreadable e)
           | Ok (root_opt, snapshots) \<Rightarrow>
               (let report = (\<lambda>logical. Ok \<lparr>st_logical_bytes = logical, st_physical_bytes = disk_size vt0,
                      st_host_disk_bytes = disk_size whole, st_snapshot_count = length snapshots,
                      st_compressor = str ''none (v3 raw)'',
                      st_refcount_distribution = \<lparr>rd_unique = 0, rd_shared_2x = 0, rd_shared_3plus = 0\<rparr>,
                      st_snapshots = build_snapshot_stats snapshots, st_mounted = sd_lock d\<rparr>)
                in case root_opt of
                     None \<Rightarrow> report 0
                   | Some root \<Rightarrow>
                       (case load_from_root B io root of
                          Ok meta \<Rightarrow> report (ds_logical_bytes meta)
                        | Err (Fault e) \<Rightarrow> Err (StatsReconstruct e)
                        | Err Panic \<Rightarrow> Err StatsPanicked))))"

text \<open>
  C36. The statistics of a committed store: the logical size is the sum of the sizes of all its files, the
  snapshots are those of the listing, in its order, and the physical size counts every file below \<^verbatim>\<open>vt0\<close>; the
  distribution of the reference counts is empty whatever the store holds.
\<close>

theorem stats_report_store:
  assumes "blockset_laws B" and "bs_ok B io" and "\<not> sd_legacy d" and "sd_segments d = Some segs"
    and "load_store_from_segments segs = Ok (Some r, snaps)" and "committed B io r a"
  shows "\<exists>st. run_stats B io d vt0 whole = Ok st \<and> unat (st_logical_bytes st) = total_size (a_inodes a) \<and>
    st_physical_bytes st = disk_size vt0 \<and> run_snapshot_list d = Ok snaps \<and> st_snapshot_count st = length snaps \<and>
    map (\<lambda>s. (ss_version s, ss_name s, ss_created_at s)) (st_snapshots st) = map (\<lambda>e. (se_version e, se_name e, se_created_at e)) snaps \<and>
    st_refcount_distribution st = \<lparr>rd_unique = 0, rd_shared_2x = 0, rd_shared_3plus = 0\<rparr> \<and> st_mounted st = sd_lock d"
proof -
  obtain t where t: "load_from_root B io r = Ok t" "store_rel B t a" using committed_load [OF assms(1,6,2)] by blast
  have "unat (ds_logical_bytes t) = total_size (a_inodes a)" using store_relD(9) [OF t(2)] by simp
  then show ?thesis using assms(3-5) t(1)
    by (simp add: run_stats_def run_snapshot_list_def replay_dir_def build_snapshot_stats_def comp_def)
qed

theorem stats_report_store_witness:
  "\<exists>st. run_stats list_blockset demo_io demo_dir (Some [DiskFile 5, DiskDir (Some [DiskFile 7, OtherEntry])]) None = Ok st \<and>
     unat (st_logical_bytes st) = total_size (a_inodes one_file_maps) \<and> st_physical_bytes st = 12 \<and> st_snapshots st = []"
proof -
  have "\<not> sd_legacy demo_dir" by (simp add: demo_dir_def)
  from stats_report_store [OF list_blockset_laws demo_committed(2) this demo_segs_good(2,3) demo_committed(1),
      of "Some [DiskFile 5, DiskDir (Some [DiskFile 7, OtherEntry])]" None]
  obtain st where "run_stats list_blockset demo_io demo_dir (Some [DiskFile 5, DiskDir (Some [DiskFile 7, OtherEntry])]) None = Ok st"
    "unat (st_logical_bytes st) = total_size (a_inodes one_file_maps)"
    "st_physical_bytes st = disk_size (Some [DiskFile 5, DiskDir (Some [DiskFile 7, OtherEntry])])"
    "st_snapshots st = []"
    by (elim exE conjE) (rule that; simp)
  then show ?thesis by (intro exI [of _ st]) (simp add: disk_size_def)
qed

end
