(* ===== verification/Host_Text.thy ===== *)
theory Host_Text
  imports Decimal "HOL-Library.Sublist"
begin

section \<open>Text of the host system\<close>

text \<open>
  The methods of Rust's \<^verbatim>\<open>str\<close> with which the commands read configuration files, library names and the
  output of other programs: \<^verbatim>\<open>trim\<close>, \<^verbatim>\<open>lines\<close>, \<^verbatim>\<open>split\<close>, \<^verbatim>\<open>split_whitespace\<close>, \<^verbatim>\<open>strip_prefix\<close>,
  \<^verbatim>\<open>strip_suffix\<close>, \<^verbatim>\<open>find\<close>, \<^verbatim>\<open>eq_ignore_ascii_case\<close> and \<^verbatim>\<open>parse\<close>. A string is the list of its UTF-8 bytes.
\<close>

text \<open>The characters with the property \<^verbatim>\<open>White_Space\<close>, each as its bytes.\<close>

definition white_space :: "rstring list" where
  "white_space =
     map (\<lambda>b. [b]) [9, 10, 11, 12, 13, 32] @ [[0xC2, 0x85], [0xC2, 0xA0], [0xE1, 0x9A, 0x80]] @
     map (\<lambda>b. [0xE2, 0x80, b]) [0x80, 0x81, 0x82, 0x83, 0x84, 0x85, 0x86, 0x87, 0x88, 0x89, 0x8A, 0xA8, 0xA9, 0xAF] @
     [[0xE2, 0x81, 0x9F], [0xE3, 0x80, 0x80]]"

text \<open>Removes words of a list from the front as long as there is one.\<close>

function skip_words :: "'a list list \<Rightarrow> 'a list \<Rightarrow> 'a list" where
  "skip_words ws s = (case find (\<lambda>w. w \<noteq> [] \<and> prefix w s) ws of None \<Rightarrow> s | Some w \<Rightarrow> skip_words ws (drop (length w) s))"
  by pat_completeness auto
termination
  by (relation "measure (\<lambda>(ws, s). length s)") (auto simp: find_Some_iff prefix_def)

declare skip_words.simps [simp del]

definition trim_end :: "rstring \<Rightarrow> rstring" where
  "trim_end s = rev (skip_words (map rev white_space) (rev s))"

definition trim :: "rstring \<Rightarrow> rstring" where
  "trim s = skip_words white_space (trim_end s)"

definition drop_cr :: "rstring \<Rightarrow> rstring" where
  "drop_cr l = (if l \<noteq> [] \<and> last l = 13 then butlast l else l)"

text \<open>A line ends at a line feed, whose carriage return is dropped; a last line without one is kept as it is.\<close>

primrec lines_from :: "rstring \<Rightarrow> rstring \<Rightarrow> rstring list" where
  "lines_from cur [] = (if cur = [] then [] else [cur])"
| "lines_from cur (c # cs) = (if c = 10 then drop_cr cur # lines_from [] cs else lines_from (cur @ [c]) cs)"

definition str_lines :: "rstring \<Rightarrow> rstring list" where
  "str_lines s = lines_from [] s"

primrec split_from :: "byte \<Rightarrow> rstring \<Rightarrow> rstring \<Rightarrow> rstring list" where
  "split_from d cur [] = [cur]"
| "split_from d cur (c # cs) = (if c = d then cur # split_from d [] cs else split_from d (cur @ [c]) cs)"

definition split_char :: "byte \<Rightarrow> rstring \<Rightarrow> rstring list" where
  "split_char d s = split_from d [] s"

definition strip_prefix :: "rstring \<Rightarrow> rstring \<Rightarrow> rstring option" where
  "strip_prefix p s = (if prefix p s then Some (drop (length p) s) else None)"

definition strip_suffix :: "rstring \<Rightarrow> rstring \<Rightarrow> rstring option" where
  "strip_suffix p s = (if suffix p s then Some (take (length s - length p) s) else None)"

text \<open>What follows and what precedes the first occurrence of a non-empty pattern.\<close>

primrec str_find :: "rstring \<Rightarrow> rstring \<Rightarrow> nat option" where
  "str_find p [] = (if p = [] then Some 0 else None)"
| "str_find p (c # cs) = (if prefix p (c # cs) then Some 0 else map_option Suc (str_find p cs))"

definition ascii_lower :: "byte \<Rightarrow> byte" where
  "ascii_lower c = (if 65 \<le> c \<and> c \<le> 90 then c + 32 else c)"

definition eq_ignore_ascii_case :: "rstring \<Rightarrow> rstring \<Rightarrow> bool" where
  "eq_ignore_ascii_case s t \<longleftrightarrow> map ascii_lower s = map ascii_lower t"

definition parse_u32 :: "rstring \<Rightarrow> u32 option" where
  "parse_u32 s =
     (let ds = (case s of [] \<Rightarrow> [] | c # r \<Rightarrow> if c = 43 \<and> r \<noteq> [] then r else s) in
      if ds = [] then None
      else case dec_val 0 ds of
        None \<Rightarrow> None
      | Some v \<Rightarrow> if v < 4294967296 then Some (of_nat v) else None)"

subsection \<open>Lines\<close>

lemma lines_from_line: "10 \<notin> set l \<Longrightarrow> lines_from cur (l @ 10 # r) = drop_cr (cur @ l) # lines_from [] r"
  by (induction l arbitrary: cur) auto

lemma str_lines_nl: "10 \<notin> set l \<Longrightarrow> str_lines (l @ 10 # r) = drop_cr l # str_lines r"
  using lines_from_line [of l "[]" r] by (simp add: str_lines_def)

lemma str_lines_Nil [simp]: "str_lines [] = []"
  by (simp add: str_lines_def)

lemma set_drop_cr: "set (drop_cr l) \<subseteq> set l"
  by (auto simp: drop_cr_def dest: in_set_butlastD)

lemma lines_from_no_nl: "10 \<notin> set cur \<Longrightarrow> l \<in> set (lines_from cur s) \<Longrightarrow> 10 \<notin> set l"
proof (induction s arbitrary: cur)
  case Nil
  then show ?case by (auto split: if_splits)
next
  case (Cons c s)
  show ?case
  proof (cases "c = 10")
    case True
    then have "l = drop_cr cur \<or> l \<in> set (lines_from [] s)" using Cons.prems(2) by simp
    then show ?thesis using Cons.prems(1) set_drop_cr [of cur] Cons.IH [of "[]"] by auto
  next
    case False
    then show ?thesis using Cons.prems Cons.IH [of "cur @ [c]"] by simp
  qed
qed

lemma str_lines_no_nl: "l \<in> set (str_lines s) \<Longrightarrow> 10 \<notin> set l"
  using lines_from_no_nl [of "[]"] by (simp add: str_lines_def)

subsection \<open>White space\<close>

lemma trim_end_cr: "trim_end (l @ [13]) = trim_end l"
proof -
  have "find (\<lambda>w. w \<noteq> [] \<and> prefix w (13 # rev l)) (map rev white_space) = Some [13]"
    by (simp add: white_space_def)
  then have "skip_words (map rev white_space) (13 # rev l) = skip_words (map rev white_space) (rev l)"
    by (simp add: skip_words.simps [of _ "13 # rev l"])
  then show ?thesis by (simp add: trim_end_def)
qed

lemma trim_drop_cr: "trim (drop_cr l) = trim l"
proof (cases "l \<noteq> [] \<and> last l = 13")
  case True
  then have "l = butlast l @ [13]" by (metis append_butlast_last_id)
  then have "trim_end l = trim_end (butlast l)" using trim_end_cr [of "butlast l"] by simp
  with True show ?thesis by (simp add: trim_def drop_cr_def)
qed (auto simp: drop_cr_def)

end
