(* ===== verification/Backend.thy ===== *)
theory Backend
  imports Host_Text
begin

section \<open>The FUSE-T backend\<close>

text \<open>
  \<^verbatim>\<open>backend.rs\<close> of \<^verbatim>\<open>slicefs-cli\<close> and, of \<^verbatim>\<open>mount.rs\<close>, the selection of the backend and the override in
  \<^verbatim>\<open>fuse-t.ini\<close>. The answers of the operating system (the names in a directory, the output of \<^verbatim>\<open>sw_vers\<close>, a
  line typed by the user, the outcome of writing a file) are arguments; what is printed is left out.
\<close>

subsection \<open>Selection\<close>

datatype fuse_t_backend = Fskit | Smb | Nfs

type_synonym version = "u32 \<times> u32 \<times> u32"

datatype backend_error =
  UnknownBackend rstring | FuseTTooOld version | FskitUnavailable | MountCancelled | ReadLineFailed | FuseTNotFound

primrec as_mount_option :: "fuse_t_backend \<Rightarrow> rstring" where
  "as_mount_option Fskit = str ''backend=fskit''"
| "as_mount_option Smb = str ''backend=smb''"
| "as_mount_option Nfs = str ''backend=nfs''"

definition parse_backend_flag :: "rstring \<Rightarrow> backend_error + fuse_t_backend" where
  "parse_backend_flag s =
     (if s = str ''smb'' then Ok Smb else if s = str ''nfs'' then Ok Nfs else if s = str ''fskit'' then Ok Fskit
      else Err (UnknownBackend s))"

definition parse_libfuse_t_filename :: "rstring \<Rightarrow> version option" where
  "parse_libfuse_t_filename name =
     (case strip_prefix (str ''libfuse-t-'') name of
        None \<Rightarrow> None
      | Some s \<Rightarrow> (case strip_suffix (str ''.dylib'') s of
          None \<Rightarrow> None
        | Some stem \<Rightarrow> (let parts = split_char 46 stem in
            if length parts \<noteq> 3 then None
            else case parse_u32 (parts ! 0) of
              None \<Rightarrow> None
            | Some major \<Rightarrow> (case parse_u32 (parts ! 1) of
                None \<Rightarrow> None
              | Some minor \<Rightarrow> (case parse_u32 (parts ! 2) of
                  None \<Rightarrow> None
                | Some patch \<Rightarrow> Some (major, minor, patch))))))"

text \<open>The names in the library directory in the order of the listing, \<open>None\<close> when it cannot be read.\<close>

primrec first_version :: "rstring list \<Rightarrow> version option" where
  "first_version [] = None"
| "first_version (n # ns) = (case parse_libfuse_t_filename n of Some v \<Rightarrow> Some v | None \<Rightarrow> first_version ns)"

definition detect_fuse_t_version :: "rstring list option \<Rightarrow> version option" where
  "detect_fuse_t_version listing = (case listing of None \<Rightarrow> None | Some ns \<Rightarrow> first_version ns)"

text \<open>The argument is the output of \<^verbatim>\<open>sw_vers\<close>, \<open>None\<close> when it cannot be run or fails.\<close>

definition check_macos_version_26_or_later :: "rstring option \<Rightarrow> bool" where
  "check_macos_version_26_or_later out =
     (case out of
        None \<Rightarrow> False
      | Some o' \<Rightarrow> (case parse_u32 (hd (split_char 46 (trim o'))) of None \<Rightarrow> False | Some major \<Rightarrow> major \<ge> 26))"

definition is_fskit_available :: "rstring option \<Rightarrow> bool \<Rightarrow> bool" where
  "is_fskit_available out app_exists \<longleftrightarrow> check_macos_version_26_or_later out \<and> app_exists"

definition version_less :: "version \<Rightarrow> version \<Rightarrow> bool" where
  "version_less v w =
     (case (v, w) of ((a, b, c), (a', b', c')) \<Rightarrow> a < a' \<or> a = a' \<and> (b < b' \<or> b = b' \<and> c < c'))"

definition min_version :: version where
  "min_version = (1, 0, 35)"

definition select_backend :: "fuse_t_backend option \<Rightarrow> bool \<Rightarrow> version \<Rightarrow> bool \<Rightarrow> backend_error + fuse_t_backend" where
  "select_backend requested force version fskit_available =
     (if version_less version min_version then Err (FuseTTooOld version)
      else case requested of
        Some b \<Rightarrow> if b = Fskit \<and> \<not> fskit_available then Err FskitUnavailable else Ok b
      | None \<Rightarrow> Ok Nfs)"

text \<open>The line is what reading the terminal gives, \<open>None\<close> when that fails.\<close>

definition confirm_fallback_with_tty :: "fuse_t_backend \<Rightarrow> rstring option \<Rightarrow> bool \<Rightarrow> backend_error + fuse_t_backend" where
  "confirm_fallback_with_tty fallback line is_tty =
     (if is_tty
      then case line of
          None \<Rightarrow> Err ReadLineFailed
        | Some l \<Rightarrow> if trim l = str ''n'' \<or> trim l = str ''N'' then Err MountCancelled else Ok fallback
      else Ok fallback)"

definition select_backend_auto ::
  "rstring list option \<Rightarrow> rstring option \<Rightarrow> bool \<Rightarrow> fuse_t_backend option \<Rightarrow> bool \<Rightarrow> backend_error + fuse_t_backend \<times> version" where
  "select_backend_auto listing sw_vers app_exists requested force =
     (case detect_fuse_t_version listing of
        None \<Rightarrow> Err FuseTNotFound
      | Some version \<Rightarrow>
          (case select_backend requested force version (is_fskit_available sw_vers app_exists) of
             Err e \<Rightarrow> Err e
           | Ok b \<Rightarrow> Ok (b, version)))"

text \<open>The first step of \<^verbatim>\<open>run_mount\<close> on macOS, with the value of the flag \<^verbatim>\<open>--backend\<close>.\<close>

definition mount_backend ::
  "rstring list option \<Rightarrow> rstring option \<Rightarrow> bool \<Rightarrow> rstring option \<Rightarrow> bool \<Rightarrow> backend_error + fuse_t_backend \<times> version" where
  "mount_backend listing sw_vers app_exists flag force =
     (case flag of
        None \<Rightarrow> select_backend_auto listing sw_vers app_exists None force
      | Some s \<Rightarrow> (case parse_backend_flag s of
          Err e \<Rightarrow> Err e
        | Ok b \<Rightarrow> select_backend_auto listing sw_vers app_exists (Some b) force))"

subsection \<open>The override in the configuration file\<close>






subsection \<open>Names, versions and the choice\<close>


text \<open>The flag takes exactly the names that the mount options carry.\<close>

lemma parse_backend_flag_iff: "parse_backend_flag s = Ok b \<longleftrightarrow> as_mount_option b = str ''backend='' @ s"
  by (cases b) (auto simp: parse_backend_flag_def str_def)

lemma split_from_part: "d \<notin> set p \<Longrightarrow> split_from d cur (p @ d # r) = (cur @ p) # split_from d [] r"
  by (induction p arbitrary: cur) auto

lemma split_from_last: "d \<notin> set p \<Longrightarrow> split_from d cur p = [cur @ p]"
  by (induction p arbitrary: cur) auto

lemma digits_no_dot: "46 \<notin> set (dec_digits n)"
  using dec_digits_range [of 46 n] by auto

lemma parse_u32_digits: "parse_u32 (dec_digits (unat v)) = Some v"
proof -
  obtain c r where ds: "dec_digits (unat v) = c # r" by (meson dec_digits_nonempty list.exhaust)
  have "48 \<le> c" using dec_digits_range [of c "unat v"] ds by simp
  then have "c \<noteq> 43" by auto
  then show ?thesis using dec_val_digits [of "unat v"] unat_u32_less [of v] ds by (simp add: parse_u32_def)
qed

text \<open>The library of version \<open>a.b.c\<close> is recognised as this version.\<close>

lemma parse_libfuse_t_filename_format:
  "parse_libfuse_t_filename
     (str ''libfuse-t-'' @ dec_digits (unat a) @ str ''.'' @ dec_digits (unat b) @ str ''.'' @ dec_digits (unat c) @ str ''.dylib'') =
   Some (a, b, c)"
proof -
  let ?stem = "dec_digits (unat a) @ 46 # dec_digits (unat b) @ 46 # dec_digits (unat c)"
  have "split_char 46 ?stem = [dec_digits (unat a), dec_digits (unat b), dec_digits (unat c)]"
    by (simp add: split_char_def split_from_part split_from_last digits_no_dot)
  moreover have "str ''.'' = [46]" by (simp add: str_def)
  moreover have "strip_suffix p (s @ p) = Some s" for s p by (simp add: strip_suffix_def suffix_def)
  then have "strip_suffix (str ''.dylib'') (?stem @ str ''.dylib'') = Some ?stem" by blast
  ultimately show ?thesis by (simp add: parse_libfuse_t_filename_def strip_prefix_def parse_u32_digits)
qed

text \<open>
  What is chosen when a mount succeeds: the requested backend, or NFS when none is requested. The flag
  \<^verbatim>\<open>--force\<close> plays no part.
\<close>

lemma select_backend_Ok:
  "select_backend requested force v fskit = Ok b \<longleftrightarrow>
     \<not> version_less v (1, 0, 35) \<and> b = (case requested of None \<Rightarrow> Nfs | Some r \<Rightarrow> r) \<and> (requested = Some Fskit \<longrightarrow> fskit)"
  by (auto simp: select_backend_def min_version_def split: option.splits if_splits)

lemma mount_backend_ignores_force: "mount_backend l sw app flag True = mount_backend l sw app flag False"
  by (simp add: mount_backend_def select_backend_auto_def select_backend_def split: option.splits sum.splits)

subsection \<open>What the configuration file says\<close>

text \<open>The backend settings of the sections \<^verbatim>\<open>[Default]\<close>, and all the other lines, without surrounding white space.\<close>

fun settings :: "bool \<Rightarrow> rstring list \<Rightarrow> rstring list" where
  "settings in_default [] = []"
| "settings in_default (l # ls) =
     (let t = trim l in
      if prefix (str ''['') t then settings (eq_ignore_ascii_case t (str ''[Default]'')) ls
      else if in_default \<and> prefix (str ''backend='') t then t # settings in_default ls
      else settings in_default ls)"

fun other_lines :: "bool \<Rightarrow> rstring list \<Rightarrow> rstring list" where
  "other_lines in_default [] = []"
| "other_lines in_default (l # ls) =
     (let t = trim l in
      if prefix (str ''['') t then t # other_lines (eq_ignore_ascii_case t (str ''[Default]'')) ls
      else if in_default \<and> prefix (str ''backend='') t then other_lines in_default ls
      else t # other_lines in_default ls)"





definition terminated :: "rstring list \<Rightarrow> rstring" where
  "terminated ls = concat (map (\<lambda>l. l @ [10]) ls)"

lemma terminated_simps [simp]:
  "terminated [] = []" "terminated (l # ls) = l @ 10 # terminated ls" "terminated (ks @ ls) = terminated ks @ terminated ls"
  by (simp_all add: terminated_def)







lemma settings_drop_cr [simp]: "settings d (map drop_cr ls) = settings d ls" "other_lines d (map drop_cr ls) = other_lines d ls"
  by (induction ls arbitrary: d) (simp_all add: trim_drop_cr Let_def)












end
