(* ===== verification/Unmount.thy ===== *)
theory Unmount
  imports Host_Text Mount
begin

section \<open>Unmounting\<close>

text \<open>
  \<^verbatim>\<open>unmount.rs\<close> of \<^verbatim>\<open>slicefs-cli\<close>, and of \<^verbatim>\<open>mount.rs\<close> the check that a mount point is free. The programs these
  commands run are the interface \<^verbatim>\<open>host\<close>: each call may change the world \<open>'w\<close> outside the store. Their output is
  taken after the replacement of bytes that are not UTF-8.
\<close>

subsection \<open>The program\<close>

type_synonym command = "rstring list"

record 'w host =
  run_status :: "command \<Rightarrow> 'w \<Rightarrow> 'w \<times> bool"
  run_output :: "command \<Rightarrow> 'w \<Rightarrow> 'w \<times> rstring option"
  send_term :: "int \<Rightarrow> 'w \<Rightarrow> 'w"

text \<open>The first command that succeeds ends the search.\<close>

primrec try_commands :: "'w host \<Rightarrow> command list \<Rightarrow> 'w \<Rightarrow> 'w \<times> bool" where
  "try_commands h [] w = (w, False)"
| "try_commands h (c # cs) w = (case run_status h c w of (w, True) \<Rightarrow> (w, True) | (w, False) \<Rightarrow> try_commands h cs w)"

definition soft_commands :: "rstring \<Rightarrow> command list" where
  "soft_commands mp =
     [[str ''fusermount3'', str ''-u'', mp], [str ''fusermount'', str ''-u'', mp], [str ''umount'', mp]]"

definition try_soft_unmount :: "'w host \<Rightarrow> rstring \<Rightarrow> 'w \<Rightarrow> 'w \<times> bool" where
  "try_soft_unmount h mp = try_commands h (soft_commands mp)"

definition force_commands :: "bool \<Rightarrow> rstring \<Rightarrow> command list" where
  "force_commands macos mp =
     (if macos then [[str ''diskutil'', str ''unmount'', str ''force'', mp], [str ''umount'', str ''-f'', mp]]
      else [[str ''fusermount3'', str ''-uz'', mp], [str ''fusermount'', str ''-uz'', mp], [str ''umount'', str ''-l'', mp]])"

definition try_force_unmount :: "bool \<Rightarrow> 'w host \<Rightarrow> rstring \<Rightarrow> 'w \<Rightarrow> 'w \<times> bool" where
  "try_force_unmount macos h mp = try_commands h (force_commands macos mp)"

text \<open>\<^verbatim>\<open>split_whitespace\<close>: the words between white space.\<close>

function words_from :: "rstring \<Rightarrow> rstring \<Rightarrow> rstring list" where
  "words_from cur s =
     (case s of
        [] \<Rightarrow> if cur = [] then [] else [cur]
      | c # cs \<Rightarrow>
          (case find (\<lambda>w. w \<noteq> [] \<and> prefix w s) white_space of
             Some w \<Rightarrow> (if cur = [] then [] else [cur]) @ words_from [] (drop (length w) s)
           | None \<Rightarrow> words_from (cur @ [c]) cs))"
  by pat_completeness auto
termination
  by (relation "measure (\<lambda>(cur, s). length s)") (auto simp: find_Some_iff prefix_def)

declare words_from.simps [simp del]

definition parse_i32 :: "rstring \<Rightarrow> int option" where
  "parse_i32 s =
     (let (neg, ds) = (case s of [] \<Rightarrow> (False, []) | c # r \<Rightarrow>
            if c = 43 \<and> r \<noteq> [] then (False, r) else if c = 45 \<and> r \<noteq> [] then (True, r) else (False, s))
      in if ds = [] then None
         else case dec_val 0 ds of
           None \<Rightarrow> None
         | Some v \<Rightarrow> (let i = (if neg then - int v else int v) in if - (2 ^ 31) \<le> i \<and> i < 2 ^ 31 then Some i else None))"

text \<open>The process ids in the second column of the output of \<^verbatim>\<open>lsof\<close>, without its first line.\<close>

definition line_pid :: "rstring \<Rightarrow> int option" where
  "line_pid line = (let fields = words_from [] line in if length fields \<ge> 2 then parse_i32 (fields ! 1) else None)"

definition lsof_pids :: "rstring \<Rightarrow> int list" where
  "lsof_pids out = List.map_filter line_pid (drop 1 (str_lines out))"

definition kill_processes_at_mountpoint :: "'w host \<Rightarrow> rstring \<Rightarrow> 'w \<Rightarrow> 'w" where
  "kill_processes_at_mountpoint h mp w =
     (let (w, out) = run_output h [str ''lsof'', str ''+D'', mp] w;
          w = (case out of None \<Rightarrow> w | Some o' \<Rightarrow> fold (send_term h) (lsof_pids o') w)
      in fst (run_status h [str ''pkill'', str ''-f'', str ''go-nfsv4''] w))"

text \<open>The lock file of the store, when the store is given; removing it may fail, which nobody notices.\<close>

definition clean_mount_lock :: "bool \<Rightarrow> store_dir option \<Rightarrow> store_dir option" where
  "clean_mount_lock remove_fails store = (if remove_fails then store else map_option drop_mount_lock store)"

datatype unmount_error = UnmountFailed rstring

definition run_unmount ::
  "bool \<Rightarrow> bool \<Rightarrow> 'w host \<Rightarrow> rstring \<Rightarrow> 'w \<Rightarrow> store_dir option \<Rightarrow> ('w \<times> store_dir option) \<times> (unmount_error + unit)" where
  "run_unmount macos remove_fails h mp w store =
     (case try_soft_unmount h mp w of
        (w, True) \<Rightarrow> ((w, clean_mount_lock remove_fails store), Ok ())
      | (w, False) \<Rightarrow>
          (case try_force_unmount macos h mp (kill_processes_at_mountpoint h mp w) of
             (w, True) \<Rightarrow> ((w, clean_mount_lock remove_fails store), Ok ())
           | (w, False) \<Rightarrow> ((w, store), Err (UnmountFailed mp))))"

text \<open>
  The check before a mount: the output of \<^verbatim>\<open>mount\<close> (\<open>None\<close> when it cannot be run) has no line that names the
  mount point between \<^verbatim>\<open> on \<close> and \<^verbatim>\<open> (\<close>.
\<close>

datatype mountpoint_error = MountNotRun | MountpointInUse rstring

definition mount_path :: "rstring \<Rightarrow> rstring option" where
  "mount_path line =
     (case str_find (str '' on '') line of
        None \<Rightarrow> None
      | Some on_idx \<Rightarrow>
          (let rest = drop (on_idx + 4) line
           in Some (case str_find (str '' ('') rest of None \<Rightarrow> rest | Some k \<Rightarrow> take k rest)))"

definition check_mountpoint_not_in_use :: "rstring option \<Rightarrow> rstring \<Rightarrow> mountpoint_error + unit" where
  "check_mountpoint_not_in_use output canonical =
     (case output of
        None \<Rightarrow> Err MountNotRun
      | Some table \<Rightarrow>
          (case find (\<lambda>line. mount_path line = Some canonical) (str_lines table) of
             None \<Rightarrow> Ok ()
           | Some line \<Rightarrow> Err (MountpointInUse line)))"

subsection \<open>The outcome of an unmount\<close>

text \<open>
  The lock is removed only after a command reported success, and a failed unmount leaves the store as it
  was: after it the store still counts as mounted.
\<close>

lemma run_unmount_lock:
  assumes "run_unmount macos remove_fails h mp w (Some d) = ((w', Some d'), r)"
  shows "r = Ok () \<Longrightarrow> d' = (if remove_fails then d else drop_mount_lock d)" and "r \<noteq> Ok () \<Longrightarrow> d' = d"
  using assms by (auto simp: run_unmount_def clean_mount_lock_def split: prod.splits bool.splits)

text \<open>A command is tried only after all the commands before it failed.\<close>

lemma try_commands_append:
  "try_commands h (cs @ ds) w = (case try_commands h cs w of (w, True) \<Rightarrow> (w, True) | (w, False) \<Rightarrow> try_commands h ds w)"
  by (induction cs arbitrary: w) (simp_all split: prod.split bool.split)

text \<open>After a clean soft unmount no process is signalled.\<close>

lemma soft_unmount_kills_nothing:
  assumes "run_status h [str ''fusermount3'', str ''-u'', mp] w = (w', True)"
  shows "run_unmount macos remove_fails h mp w store = ((w', clean_mount_lock remove_fails store), Ok ())"
  using assms by (simp add: run_unmount_def try_soft_unmount_def soft_commands_def)

subsection \<open>The mount table\<close>

lemma str_find_first:
  assumes "p \<noteq> []" "hd p \<notin> set a"
  shows "str_find p (a @ p @ r) = Some (length a)"
  using assms(2)
proof (induction a)
  case Nil
  then show ?case using assms(1) by (cases p) simp_all
next
  case (Cons c a)
  then have "\<not> prefix p (c # a @ p @ r)" using assms(1) by (cases p) auto
  then show ?case using Cons by simp
qed

lemma str_find_paren:
  assumes "40 \<notin> set a"
  shows "str_find [32, 40] (a @ 32 # 40 # r) = Some (length a)"
  using assms
proof (induction a)
  case (Cons c a)
  have "hd (a @ 32 # 40 # r) \<noteq> 40" using Cons.prems by (cases a) auto
  then have "\<not> prefix [32, 40] (c # a @ 32 # 40 # r)" by (cases "a @ 32 # 40 # r") auto
  then show ?case using Cons by simp
qed simp

text \<open>A line of the mount table, \<^verbatim>\<open>device on path (options)\<close>, is recognised, with any spaces in the path.\<close>

lemma mount_path_line:
  assumes "32 \<notin> set dev" "40 \<notin> set path"
  shows "mount_path (dev @ str '' on '' @ path @ str '' ('' @ options) = Some path"
proof -
  have on_str: "str '' on '' = [32, 111, 110, 32]" "str '' ('' = [32, 40]" by (simp_all add: str_def)
  have "str_find (str '' on '') (dev @ str '' on '' @ path @ str '' ('' @ options) = Some (length dev)"
    by (rule str_find_first) (use assms(1) in \<open>simp_all add: on_str\<close>)
  then show ?thesis using str_find_paren [OF assms(2), of options] by (simp add: mount_path_def on_str)
qed

lemma check_mountpoint_finds:
  assumes "l \<in> set (str_lines table)" "l = dev @ str '' on '' @ path @ str '' ('' @ options" "32 \<notin> set dev" "40 \<notin> set path"
  shows "\<exists>line. check_mountpoint_not_in_use (Some table) path = Err (MountpointInUse line)"
proof -
  have "find (\<lambda>line. mount_path line = Some path) (str_lines table) \<noteq> None"
    using assms mount_path_line [OF assms(3,4)] by (auto simp: find_None_iff)
  then show ?thesis by (auto simp: check_mountpoint_not_in_use_def)
qed

end
