(* ===== verification/Spec2Isabelle.thy ===== *)
theory Spec2Isabelle
  imports Dedup Compression Seed Calendar Stats Backend Unmount
begin

text \<open>
  \<^bold>\<open>SliceFS\<close> is a deduplicating file system in user space. The contents of files go to a content-addressed
  storage; the metadata (inodes, directories, manifests, extended attributes, reference counts) is kept in
  maps from numbers to 224-bit digests of serialised records. A commit serialises the maps themselves,
  stores them, and yields one root digest, which is appended to a log of segment files. A mount replays the
  log, loads the last root and serves the requests of the kernel; the other commands work on the store while
  it is not mounted.

  \<^bold>\<open>The parts and the theories that model them\<close>, from the bottom up. Source files are below \<^verbatim>\<open>src/crates\<close>.
  \<^item> \<^verbatim>\<open>Prelude\<close>: the integer widths, little-endian codecs, digests, \<^verbatim>\<open>BTreeMap\<close> as a sorted association list,
    UTF-8. \<^verbatim>\<open>Decimal\<close>: decimal formatting and parsing. \<^verbatim>\<open>Host_Text\<close>: the methods of \<^verbatim>\<open>str\<close> on host text.
  \<^item> \<^verbatim>\<open>Cas_Local\<close>, \<^verbatim>\<open>Dedup\<close>: \<^verbatim>\<open>slicefs-traits\<close> and \<^verbatim>\<open>cas-local\<close>, that is hashes, chunks and the fixed-size chunker,
    the block stores in memory and on disk, the deduplication index and its file format.
  \<^item> \<^verbatim>\<open>Compression\<close>: \<^verbatim>\<open>slicefs-compression\<close>, the three compressors and the self-describing block format.
  \<^item> \<^verbatim>\<open>Blockset\<close>: the content storage the metadata crate uses, a parameter with its laws.
  \<^item> \<^verbatim>\<open>Metadata_Codecs\<close>, \<^verbatim>\<open>Directory\<close>: the records of \<^verbatim>\<open>metadata\<close> (\<^verbatim>\<open>inode.rs\<close>, \<^verbatim>\<open>inode_map.rs\<close>, \<^verbatim>\<open>manifest.rs\<close>,
    \<^verbatim>\<open>xattr.rs\<close>, \<^verbatim>\<open>directory.rs\<close>), their codecs and their operations.
  \<^item> \<^verbatim>\<open>Segment\<close>, \<^verbatim>\<open>Wal\<close>, \<^verbatim>\<open>Recovery\<close>: \<^verbatim>\<open>segment/\<close>, \<^verbatim>\<open>wal/\<close> and \<^verbatim>\<open>gc/mod.rs\<close> of \<^verbatim>\<open>metadata\<close>: the format of the log, its
    writer with the buffer of its \<^verbatim>\<open>BufWriter\<close>, its reader, the four logging strategies, replay, compaction and
    garbage collection.
  \<^item> \<^verbatim>\<open>Store\<close>: \<^verbatim>\<open>DictMetadataStore\<close> of \<^verbatim>\<open>metadata/src/store.rs\<close>, every operation, commit, loading, snapshots.
    \<^verbatim>\<open>Store_Spec\<close>, \<^verbatim>\<open>Store_Refine\<close>, \<^verbatim>\<open>Store_Persist\<close> have its specification, the refinement and persistence.
  \<^item> \<^verbatim>\<open>Filesystem\<close>: \<^verbatim>\<open>SliceFsFilesystem\<close> of \<^verbatim>\<open>slicefs-cli/src/filesystem.rs\<close>. \<^verbatim>\<open>File_IO\<close>, \<^verbatim>\<open>Session\<close>, \<^verbatim>\<open>Namespace\<close>,
    \<^verbatim>\<open>Links\<close>, \<^verbatim>\<open>Fs_Runs\<close> and \<^verbatim>\<open>Fs_Properties\<close> have what is proved about files and names.
  \<^item> \<^verbatim>\<open>Handlers\<close>: \<^verbatim>\<open>handlers.rs\<close> and \<^verbatim>\<open>fuse_callbacks.rs\<close>. \<^verbatim>\<open>Fuse\<close> and \<^verbatim>\<open>Requests\<close> have the properties of requests.
  \<^item> \<^verbatim>\<open>Mount\<close>: \<^verbatim>\<open>mount.rs\<close> and \<^verbatim>\<open>mount_lock.rs\<close>. \<^verbatim>\<open>Session_Log\<close> and \<^verbatim>\<open>Remount\<close> follow a session from mount to mount.
  \<^item> \<^verbatim>\<open>Offline\<close>: \<^verbatim>\<open>snapshot.rs\<close>, \<^verbatim>\<open>scrub.rs\<close>, \<^verbatim>\<open>gc.rs\<close> and \<^verbatim>\<open>gc/background.rs\<close>. \<^verbatim>\<open>Calendar\<close>: the dates of the snapshot
    listing. \<^verbatim>\<open>Seed\<close>: \<^verbatim>\<open>seed.rs\<close>. \<^verbatim>\<open>Stats\<close>: \<^verbatim>\<open>stats.rs\<close>. \<^verbatim>\<open>Unmount\<close>: \<^verbatim>\<open>unmount.rs\<close> and the check of the mount table.
    \<^verbatim>\<open>Backend\<close>: \<^verbatim>\<open>backend.rs\<close> and the override of the backend in the configuration file of FUSE-T.

  \<^bold>\<open>How the model reads.\<close> A struct is a record, an enum a datatype; a method maps the state to the new state
  and a result, where \<open>Err\<close> and \<open>Ok\<close> are the two sides of a sum. Integers have the width of the source and wrap
  around as in a release build; a Rust panic is a value of its own (\<open>Panicked\<close>, \<open>Panic\<close>, or no reply). Each early
  return is a branch. What the program cannot decide is an argument: the faults of a disk during a call, the
  clock, the ids of the process, the answers of the host, and the iteration order of a hash map. Calls run one at
  a time, as the mutexes of the source make them. Trace and console output is left out.

  \<^bold>\<open>Parameters for code outside the repository.\<close> \<open>B :: ('io, 'st) blockset\<close> is the content storage (a git
  submodule) with \<open>blockset_laws\<close>: what was stored is found under its digest as long as \<open>bs_ok\<close> holds of the
  storage reached, which says that no write failed and no two contents shared a digest. Nothing says that the
  storage survives a crash, since the code never syncs it: what a crash leaves is an argument of the statement
  about crashes. \<open>list_blockset\<close> is an
  instance that satisfies the laws, and the concrete examples run on it. Likewise the hasher (\<^verbatim>\<open>blake3\<close>), the bloom
  filter (\<^verbatim>\<open>fastbloom\<close>, law \<open>bloom_laws\<close>) and the codecs (\<^verbatim>\<open>zstd\<close>, \<^verbatim>\<open>lz4_flex\<close>, law \<open>codec_laws\<close>).

  \<^bold>\<open>Interfaces\<close> are locales, interpreted on the definitions of the model: \<open>kv_map\<close> for the maps, \<open>block_store\<close>
  for the trait \<^verbatim>\<open>BlockStore\<close>, \<open>dedup_index\<close>, \<open>compressor_contract\<close>, \<open>wal_strategy\<close> and \<open>sync_wal_strategy\<close> for the
  trait \<^verbatim>\<open>WalStrategy\<close>, and \<open>simulation\<close> with \<open>simulation_inv\<close>, in which the step from one operation to all
  sequences of operations is made once; it is interpreted for the metadata store, the name space, the sessions
  on an open file and the requests of the kernel.

  \<^bold>\<open>What the theorems show.\<close>
  \<^item> Metadata (\<^verbatim>\<open>Store_Refine\<close>, \<^verbatim>\<open>Store_Persist\<close>): the store answers every sequence of operations as finite maps do,
    and its invariant ties each digest to the record it names; a committed root loads to the committed state
    whatever happens later; snapshots are found by version and name; reference counts saturate.
  \<^item> Files and names (\<^verbatim>\<open>Fs_Properties\<close>): names, and files under an open handle, refine plain maps and plain byte
    arrays; both write modes agree; names lead to live inodes with the right link counts; symbolic links read back.
  \<^item> Requests (\<^verbatim>\<open>Requests\<close>, \<^verbatim>\<open>Fuse\<close>): the requests of the kernel on names, attributes and extended attributes get
    the replies of the specification through all layers; listing a directory in pieces ends and is complete; a mode change keeps the file type.
  \<^item> Durability (\<^verbatim>\<open>Wal\<close>, \<^verbatim>\<open>Recovery\<close>): without faults the log keeps over any crash what was flushed; replay follows
    the segment ids, up to six digits; compaction keeps the log, and so does a first collection that succeeds.
  \<^item> Life of a store (\<^verbatim>\<open>Remount\<close>, \<^verbatim>\<open>Offline\<close>, \<^verbatim>\<open>Seed\<close>, \<^verbatim>\<open>Stats\<close>): a clean unmount of a mount with a log keeps everything; switching to a
    snapshot, seeding from a host directory and the statistics do what they say; the background collector stops
    when told to.
  \<^item> Contracts (\<^verbatim>\<open>Cas_Local\<close>, \<^verbatim>\<open>Dedup\<close>, \<^verbatim>\<open>Compression\<close>, \<^verbatim>\<open>Metadata_Codecs\<close>, \<^verbatim>\<open>Calendar\<close>, \<^verbatim>\<open>Backend\<close>, \<^verbatim>\<open>Unmount\<close>): block
    stores, deduplication index, compressors, codecs, dates, the configuration file and the mount table.
  \<^item> Where the code falls short of its documentation or of what a user expects, a theorem states what it does
    instead: a crash loses the session, a file renamed onto itself is gone, a write or a truncation through a new
    handle on an existing file, a resize that drops other attributes, a scrub that misses lost contents, a failed
    flush whose entries are lost when they exceed the write buffer, a collection that stops half way and rolls the
    store back, a mount without a log that keeps nothing even after a clean unmount, and lengths that wrap around.

  \<^bold>\<open>Bounds.\<close> Statements about persistence ask that the maps have fewer than \<open>2^58\<close> entries (\<open>store_small\<close>), below
  which the 64-bit lengths of the serialised maps do not wrap.
  Sums of file sizes stay below \<open>2^64\<close> and entries of the log fit their length fields
  (\<open>op_allowed\<close>, \<open>entry_fits\<close>). For concrete runs \<open>few_pushes\<close> bounds the number of contents a sequence of operations
  stores, which gives \<open>bs_ok\<close> of the instance. No definition uses fuel: loops are structural or have a
  measure, and the loop of the background collector, which may run forever, is a partial function whose
  termination is characterised.

  \<^bold>\<open>Not modelled.\<close>
  \<^item> The hash function \<^verbatim>\<open>blake3\<close> (\<^verbatim>\<open>blake3_hasher.rs\<close> is one call of it), and \<^verbatim>\<open>store_io.rs\<close>, which joins paths for
    the blockset library: they lie behind the parameters.
  \<^item> Threads, mutexes and their poisoning: calls are atomic steps. The watchdog thread and the signal handlers of
    \<^verbatim>\<open>mount.rs\<close> are never called. The FUSE session of the crate \<^verbatim>\<open>fuser\<close> is the sequence of requests it delivers.
  \<^item> \<^verbatim>\<open>cli.rs\<close> and \<^verbatim>\<open>main.rs\<close>: argument parsing by the crate \<^verbatim>\<open>clap\<close> and the dispatch to the commands; \<^verbatim>\<open>util.rs\<close>
    formats the time of log messages.
  \<^item> Printed tables, JSON output, and numbers that are only printed in floating point (the deduplication ratio).
\<close>

end
